(* ===== verification/Prelude.thy ===== *)
theory Prelude
  imports Main "HOL-Library.Word" "HOL-Library.Monad_Syntax"
begin

text \<open>
  The prelude of the development: the machine integers of the C sources, byte-addressed
  C memory with explicit out-of-range accesses, little-endian fields, and circular indices.
  Nothing here models a file of the repository; the component theories build on it.

  A C expression whose behaviour is undefined (an access outside an array, a null pointer
  that is followed) has the value \<^term>\<open>None\<close> of the option monad.  A definition that
  returns \<^term>\<open>Some r\<close> has therefore run without an undefined access.
\<close>

unbundle bit_operations_syntax

type_synonym u8 = "8 word"
type_synonym u16 = "16 word"
type_synonym u32 = "32 word"
type_synonym bytes = "8 word list"

named_theorems mem_simps \<open>reads and writes of byte memory\<close>
named_theorems run_simps \<open>unfolding of monadic C code\<close>

lemma unat_bound: "unat w < 2 ^ LENGTH('a)" for w :: "'a::len word"
  by (rule unsigned_less)

section \<open>Option monad\<close>

lemma bind_Some_conv: "Option.bind m f = Some y \<longleftrightarrow> (\<exists>x. m = Some x \<and> f x = Some y)"
  by (cases m) auto

lemma bind_SomeI: "m = Some x \<Longrightarrow> Option.bind m f = f x"
  by simp

lemma bind_eq_None_conv: "Option.bind m f = None \<longleftrightarrow> m = None \<or> (\<exists>x. m = Some x \<and> f x = None)"
  by (cases m) auto

section \<open>Byte memory\<close>

definition rd8 :: "bytes \<Rightarrow> nat \<Rightarrow> u8 option" where
  "rd8 m i = (if i < length m then Some (m ! i) else None)"

definition wr8 :: "bytes \<Rightarrow> nat \<Rightarrow> u8 \<Rightarrow> bytes option" where
  "wr8 m i v = (if i < length m then Some (m[i := v]) else None)"

definition word16_of :: "u8 \<Rightarrow> u8 \<Rightarrow> u16" where
  "word16_of lo hi = ucast lo OR push_bit 8 (ucast hi)"

definition byte0 :: "'a::len word \<Rightarrow> u8" where
  "byte0 w = ucast w"

definition byte1 :: "'a::len word \<Rightarrow> u8" where
  "byte1 w = ucast (drop_bit 8 w)"

definition byte2 :: "'a::len word \<Rightarrow> u8" where
  "byte2 w = ucast (drop_bit 16 w)"

definition byte3 :: "'a::len word \<Rightarrow> u8" where
  "byte3 w = ucast (drop_bit 24 w)"

definition word32_of :: "u8 \<Rightarrow> u8 \<Rightarrow> u8 \<Rightarrow> u8 \<Rightarrow> u32" where
  "word32_of b0 b1 b2 b3 =
     ucast b0 OR push_bit 8 (ucast b1) OR push_bit 16 (ucast b2) OR push_bit 24 (ucast b3)"

definition rd16 :: "bytes \<Rightarrow> nat \<Rightarrow> u16 option" where
  "rd16 m i = (if i + 1 < length m then Some (word16_of (m ! i) (m ! (i + 1))) else None)"

definition wr16 :: "bytes \<Rightarrow> nat \<Rightarrow> u16 \<Rightarrow> bytes option" where
  "wr16 m i v = (if i + 1 < length m then Some (m[i := byte0 v, i + 1 := byte1 v]) else None)"

definition rd32 :: "bytes \<Rightarrow> nat \<Rightarrow> u32 option" where
  "rd32 m i = (if i + 3 < length m
     then Some (word32_of (m ! i) (m ! (i + 1)) (m ! (i + 2)) (m ! (i + 3))) else None)"

definition wr32 :: "bytes \<Rightarrow> nat \<Rightarrow> u32 \<Rightarrow> bytes option" where
  "wr32 m i v = (if i + 3 < length m
     then Some (m[i := byte0 v, i + 1 := byte1 v, i + 2 := byte2 v, i + 3 := byte3 v]) else None)"

definition rdn :: "bytes \<Rightarrow> nat \<Rightarrow> nat \<Rightarrow> bytes option" where
  "rdn m i n = (if i + n \<le> length m then Some (take n (drop i m)) else None)"

definition wrn :: "bytes \<Rightarrow> nat \<Rightarrow> bytes \<Rightarrow> bytes option" where
  "wrn m i bs = (if i + length bs \<le> length m
     then Some (take i m @ bs @ drop (i + length bs) m) else None)"

lemma length_wr8 [mem_simps]: "wr8 m i v = Some m' \<Longrightarrow> length m' = length m"
  by (auto simp: wr8_def split: if_splits)

lemma length_wr16 [mem_simps]: "wr16 m i v = Some m' \<Longrightarrow> length m' = length m"
  by (auto simp: wr16_def split: if_splits)

lemma length_wr32 [mem_simps]: "wr32 m i v = Some m' \<Longrightarrow> length m' = length m"
  by (auto simp: wr32_def split: if_splits)

lemma length_wrn [mem_simps]: "wrn m i bs = Some m' \<Longrightarrow> length m' = length m"
  by (auto simp: wrn_def split: if_splits)

lemma length_rdn [mem_simps]: "rdn m i n = Some bs \<Longrightarrow> length bs = n"
  by (auto simp: rdn_def split: if_splits)

lemma byte0_word16_of [simp]: "byte0 (word16_of a b) = a"
  by (rule bit_word_eqI)
    (auto simp: byte0_def word16_of_def bit_simps)

lemma byte1_word16_of [simp]: "byte1 (word16_of a b) = b"
  by (rule bit_word_eqI)
    (auto simp: byte1_def word16_of_def bit_simps dest: bit_imp_le_length)

lemma word16_of_bytes [simp]: "word16_of (byte0 w) (byte1 w) = w" for w :: u16
  by (rule bit_word_eqI)
    (auto simp: byte0_def byte1_def word16_of_def bit_simps not_less)

lemma word32_of_bytes [simp]: "word32_of (byte0 w) (byte1 w) (byte2 w) (byte3 w) = w" for w :: u32
proof (rule bit_word_eqI)
  fix n
  assume "n < LENGTH(32)"
  then consider "n < 8" | "8 \<le> n" "n < 16" | "16 \<le> n" "n < 24" | "24 \<le> n" "n < 32"
    by fastforce
  then show "bit (word32_of (byte0 w) (byte1 w) (byte2 w) (byte3 w)) n = bit w n"
    by cases (auto simp: byte0_def byte1_def byte2_def byte3_def word32_of_def bit_simps less_diff_conv2)
qed

lemma byte_word32_of [simp]:
  "byte0 (word32_of a b c d) = a" "byte1 (word32_of a b c d) = b"
  "byte2 (word32_of a b c d) = c" "byte3 (word32_of a b c d) = d"
  by (rule bit_word_eqI;
      auto simp: byte0_def byte1_def byte2_def byte3_def word32_of_def bit_simps dest: bit_imp_le_length)+

lemma rd16_wr16 [mem_simps]: "wr16 m i v = Some m' \<Longrightarrow> rd16 m' i = Some v"
  by (auto simp: wr16_def rd16_def nth_list_update split: if_splits)

lemma rd32_wr32 [mem_simps]: "wr32 m i v = Some m' \<Longrightarrow> rd32 m' i = Some v"
  by (auto simp: wr32_def rd32_def nth_list_update split: if_splits)

text \<open>Arrays of other elements, with the same treatment of the index.\<close>

definition arr_rd :: "'a list \<Rightarrow> nat \<Rightarrow> 'a option" where
  "arr_rd xs i = (if i < length xs then Some (xs ! i) else None)"

definition arr_wr :: "'a list \<Rightarrow> nat \<Rightarrow> 'a \<Rightarrow> 'a list option" where
  "arr_wr xs i v = (if i < length xs then Some (xs[i := v]) else None)"

lemma arr_rd_Some [simp]: "arr_rd xs i = Some v \<longleftrightarrow> i < length xs \<and> v = xs ! i"
  by (auto simp: arr_rd_def)

lemma arr_wr_Some [simp]: "arr_wr xs i v = Some ys \<longleftrightarrow> i < length xs \<and> ys = xs[i := v]"
  by (auto simp: arr_wr_def)

lemma arr_rd_in [mem_simps]: "i < length xs \<Longrightarrow> arr_rd xs i = Some (xs ! i)"
  by simp

lemma arr_wr_in [mem_simps]: "i < length xs \<Longrightarrow> arr_wr xs i v = Some (xs[i := v])"
  by simp

section \<open>Circular indices\<close>

lemma mod_add_inj:
  fixes a b i n :: nat
  assumes "(a + i) mod n = (a + j) mod n" "i < n" "j < n"
  shows "i = j"
proof (cases "i \<le> j")
  case True
  with assms have "n dvd j - i"
    using mod_eq_dvd_iff_nat [of "a + i" "a + j" n] by simp
  with True assms(3) show ?thesis
    by (metis diff_less_mono2 dvd_imp_le le_antisym less_imp_diff_less not_less zero_less_diff)
next
  case False
  with assms have "n dvd i - j"
    using mod_eq_dvd_iff_nat [of "a + j" "a + i" n] by simp
  with False assms(2) show ?thesis
    by (metis dvd_imp_le less_imp_diff_less nat_le_linear not_less zero_less_diff)
qed

text \<open>\<open>slice m a n k\<close> is the \<open>k\<close> elements of a ring of size \<open>n\<close> that start at index \<open>a\<close>.\<close>

definition slice :: "'a list \<Rightarrow> nat \<Rightarrow> nat \<Rightarrow> nat \<Rightarrow> 'a list" where
  "slice m a n k = map (\<lambda>i. m ! ((a + i) mod n)) [0..<k]"

lemma length_slice [simp]: "length (slice m a n k) = k"
  by (simp add: slice_def)

lemma slice_0 [simp]: "slice m a n 0 = []"
  by (simp add: slice_def)

lemma slice_Suc_last: "slice m a n (Suc k) = slice m a n k @ [m ! ((a + k) mod n)]"
  by (simp add: slice_def)

lemma slice_Suc_first: "a < n \<Longrightarrow> slice m a n (Suc k) = m ! a # slice m (Suc a mod n) n k"
  by (simp add: slice_def upt_conv_Cons map_Suc_upt [symmetric] mod_simps del: upt_Suc)

lemma slice_update_other:
  assumes "k \<le> j" "j < n" "n \<le> length m"
  shows "slice (m[(a + j) mod n := x]) a n k = slice m a n k"
proof -
  have "(a + j) mod n \<noteq> (a + i) mod n" if "i < k" for i
    using mod_add_inj [of a j n i] that assms by auto
  then show ?thesis by (auto simp: slice_def)
qed

section \<open>16-bit counters\<close>

lemma unat_u16: "n < 2 ^ 16 \<Longrightarrow> unat (of_nat n :: u16) = n"
  by (simp add: unat_of_nat)

lemma of_nat_u16_nonzero: "n < 2 ^ 16 \<Longrightarrow> n \<noteq> 0 \<Longrightarrow> (of_nat n :: u16) \<noteq> 0"
  by (metis unat_0 unat_u16)

lemma unat_Suc: "unat c < unat d \<Longrightarrow> unat (c + 1) = Suc (unat c)" for c d :: u16
  using unat_bound [of d] by (simp add: unat_word_ariths)

lemma unat_pred: "unat c = Suc k \<Longrightarrow> unat (c - 1) = k" for c :: u16
  by (metis Suc_eq_plus1 add_diff_cancel_right' nat.simps(3) unat_minus_one unat_eq_zero)

lemma unat_word16_of: "unat (word16_of a b) = unat a + 256 * unat b"
proof -
  have "word16_of a b = ucast a + push_bit 8 (ucast b)"
    unfolding word16_of_def
    by (rule disjunctive_add [symmetric]) (auto simp: bit_simps dest: bit_imp_le_length)
  then show ?thesis
    using unat_bound [of a] unat_bound [of b]
    by (simp add: push_bit_eq_mult unat_word_ariths unsigned_ucast_eq take_bit_nat_eq_self)
qed

lemma unat_byte0: "unat (byte0 w) = unat w mod 256" for w :: u16
  by (simp add: byte0_def unsigned_ucast_eq take_bit_eq_mod)

lemma unat_byte1: "unat (byte1 w) = unat w div 256" for w :: u16
proof -
  have "unat (byte1 w) = take_bit 8 (unat (drop_bit 8 w))"
    by (simp add: byte1_def unsigned_ucast_eq)
  also have "\<dots> = unat w div 256"
    using unat_bound [of w] by (simp only: unat_drop_bit_eq) (simp add: drop_bit_eq_div take_bit_eq_mod)
  finally show ?thesis .
qed

end
