(* ===== verification/Queue_Interface.thy ===== *)
theory Queue_Interface
  imports Prelude
begin

text \<open>
  The contract of a bounded first-in first-out buffer, as the clients of
  \<^verbatim>\<open>LUFA/Drivers/Misc/RingBuffer.h\<close> and of
  \<^verbatim>\<open>Projects/Magstripe/Lib/CircularBitBuffer.c\<close> rely on it.  The contract is a locale over
  the operations and an abstraction to a list; the client lemmas are about sequences of
  operations.  \<^verbatim>\<open>Ring_Buffer\<close> and \<^verbatim>\<open>Bit_Buffer\<close> discharge the contract.
\<close>

section \<open>Sequences of queue operations\<close>

datatype 'a queue_op = Ins 'a | Rem

text \<open>Running a sequence on an implementation: the outputs of the removals, and the final buffer.\<close>

fun run_queue ::
  "('q \<Rightarrow> 'a \<Rightarrow> 'q option) \<Rightarrow> ('q \<Rightarrow> ('a \<times> 'q) option) \<Rightarrow> 'q \<Rightarrow> 'a queue_op list \<Rightarrow> ('a list \<times> 'q) option"
where
  "run_queue ins rem q [] = Some ([], q)"
| "run_queue ins rem q (Ins x # ops) =
     do { q' \<leftarrow> ins q x; run_queue ins rem q' ops }"
| "run_queue ins rem q (Rem # ops) =
     do { (x, q') \<leftarrow> rem q; (xs, q'') \<leftarrow> run_queue ins rem q' ops; Some (x # xs, q'') }"

text \<open>The specification: a list, with the capacity and emptiness checks the client makes.\<close>

fun run_spec :: "nat \<Rightarrow> 'a list \<Rightarrow> 'a queue_op list \<Rightarrow> ('a list \<times> 'a list) option" where
  "run_spec n xs [] = Some ([], xs)"
| "run_spec n xs (Ins x # ops) = (if length xs < n then run_spec n (xs @ [x]) ops else None)"
| "run_spec n [] (Rem # ops) = None"
| "run_spec n (x # xs) (Rem # ops) =
     map_option (\<lambda>(out, ys). (x # out, ys)) (run_spec n xs ops)"

lemma run_spec_inserts:
  "length xs + length ys \<le> n \<Longrightarrow> run_spec n xs (map Ins ys @ ops) = run_spec n (xs @ ys) ops"
  by (induction ys arbitrary: xs) auto

lemma run_spec_removes:
  "run_spec n (ys @ zs) (replicate (length ys) Rem) = Some (ys, zs)"
  by (induction ys) auto

text \<open>Outputs followed by what is left are the initial contents followed by what was inserted.\<close>

fun inserted :: "'a queue_op list \<Rightarrow> 'a list" where
  "inserted [] = []"
| "inserted (Ins x # ops) = x # inserted ops"
| "inserted (Rem # ops) = inserted ops"

lemma run_spec_fifo: "run_spec n xs ops = Some (out, rest) \<Longrightarrow> out @ rest = xs @ inserted ops"
  by (induction n xs ops arbitrary: out rest rule: run_spec.induct) (auto split: if_splits)

section \<open>The contract\<close>

locale bounded_queue =
  fixes invar :: "'q \<Rightarrow> bool"
    and contents :: "'q \<Rightarrow> 'a list"
    and capacity :: "'q \<Rightarrow> nat"
    and ins :: "'q \<Rightarrow> 'a \<Rightarrow> 'q option"
    and rem :: "'q \<Rightarrow> ('a \<times> 'q) option"
  assumes contents_bound: "invar q \<Longrightarrow> length (contents q) \<le> capacity q"
    and ins_ok: "invar q \<Longrightarrow> length (contents q) < capacity q \<Longrightarrow>
      \<exists>q'. ins q x = Some q' \<and> invar q' \<and> contents q' = contents q @ [x] \<and> capacity q' = capacity q"
    and rem_ok: "invar q \<Longrightarrow> contents q = x # xs \<Longrightarrow>
      \<exists>q'. rem q = Some (x, q') \<and> invar q' \<and> contents q' = xs \<and> capacity q' = capacity q"
begin

lemma run_refines_spec:
  assumes "invar q" "run_spec (capacity q) (contents q) ops = Some (out, ys)"
  shows "\<exists>q'. run_queue ins rem q ops = Some (out, q') \<and> invar q' \<and> contents q' = ys
    \<and> capacity q' = capacity q"
  using assms
proof (induction ops arbitrary: q out ys)
  case Nil
  then show ?case by auto
next
  case (Cons op ops)
  show ?case
  proof (cases op)
    case (Ins x)
    with Cons.prems have room: "length (contents q) < capacity q"
      and rest: "run_spec (capacity q) (contents q @ [x]) ops = Some (out, ys)"
      by (auto split: if_splits)
    obtain q' where q': "ins q x = Some q'" "invar q'" "contents q' = contents q @ [x]"
      "capacity q' = capacity q"
      using ins_ok [OF Cons.prems(1) room] by blast
    with Cons.IH [of q'] rest Ins show ?thesis by auto
  next
    case Rem
    with Cons.prems obtain x xs out' where xs: "contents q = x # xs"
      and rest: "run_spec (capacity q) xs ops = Some (out', ys)" and out: "out = x # out'"
      by (cases "contents q") auto
    obtain q' where q': "rem q = Some (x, q')" "invar q'" "contents q' = xs"
      "capacity q' = capacity q"
      using rem_ok [OF Cons.prems(1) xs] by blast
    with Cons.IH [of q'] rest out Rem show ?thesis by auto
  qed
qed

lemma fill_then_drain:
  assumes "invar q" "contents q = []" "length xs \<le> capacity q"
  shows "\<exists>q'. run_queue ins rem q (map Ins xs @ replicate (length xs) Rem) = Some (xs, q')
    \<and> invar q' \<and> contents q' = []"
  using run_refines_spec [OF assms(1), of "map Ins xs @ replicate (length xs) Rem" xs "[]"]
    assms(2,3) run_spec_inserts [of "[]" xs "capacity q"] run_spec_removes [of "capacity q" xs "[]"]
  by auto

end

end
