(* ===== verification/Ring_Buffer.thy ===== *)
theory Ring_Buffer
  imports Queue_Interface
begin

text \<open>
  The byte ring buffer of \<^verbatim>\<open>LUFA/Drivers/Misc/RingBuffer.h\<close>: its structure, the eight inline
  operations, the invariant they keep, and the proof that it is a \<^verbatim>\<open>bounded_queue\<close>.  A
  pointer into the storage array is the index of the byte it points to; the array itself is
  the field \<^verbatim>\<open>rb_Data\<close>.

  The header promises that insertion and removal may run in different execution threads.
  Only the update of \<^verbatim>\<open>Count\<close> is protected by an interrupt lock, so the last section splits
  the two operations at their individual memory accesses and proves that every
  interleaving of one inserting and one removing thread delivers the bytes in order.
\<close>

section \<open>Structure and operations\<close>

record RingBuffer_t =
  rb_Data :: bytes
  rb_In :: nat
  rb_Out :: nat
  rb_Start :: nat
  rb_End :: nat
  rb_Size :: u16
  rb_Count :: u16

definition RingBuffer_InitBuffer :: "bytes \<Rightarrow> u16 \<Rightarrow> RingBuffer_t" where
  "RingBuffer_InitBuffer DataPtr Size =
     \<lparr>rb_Data = DataPtr, rb_In = 0, rb_Out = 0, rb_Start = 0, rb_End = unat Size,
      rb_Size = Size, rb_Count = 0\<rparr>"

definition RingBuffer_GetCount :: "RingBuffer_t \<Rightarrow> u16" where
  "RingBuffer_GetCount Buffer = rb_Count Buffer"

definition RingBuffer_GetFreeCount :: "RingBuffer_t \<Rightarrow> u16" where
  "RingBuffer_GetFreeCount Buffer = rb_Size Buffer - RingBuffer_GetCount Buffer"

definition RingBuffer_IsEmpty :: "RingBuffer_t \<Rightarrow> bool" where
  "RingBuffer_IsEmpty Buffer \<longleftrightarrow> RingBuffer_GetCount Buffer = 0"

definition RingBuffer_IsFull :: "RingBuffer_t \<Rightarrow> bool" where
  "RingBuffer_IsFull Buffer \<longleftrightarrow> RingBuffer_GetCount Buffer = rb_Size Buffer"

text \<open>The memory accesses of \<^verbatim>\<open>RingBuffer_Insert\<close>: the store, the pointer, the locked counter.\<close>

definition insert_store :: "u8 \<Rightarrow> RingBuffer_t \<Rightarrow> RingBuffer_t option" where
  "insert_store Data Buffer =
     do { m \<leftarrow> wr8 (rb_Data Buffer) (rb_In Buffer) Data; Some (Buffer\<lparr>rb_Data := m\<rparr>) }"

definition insert_advance :: "RingBuffer_t \<Rightarrow> RingBuffer_t" where
  "insert_advance Buffer =
     (let In = rb_In Buffer + 1
      in Buffer\<lparr>rb_In := (if In = rb_End Buffer then rb_Start Buffer else In)\<rparr>)"

definition insert_count :: "RingBuffer_t \<Rightarrow> RingBuffer_t" where
  "insert_count Buffer = Buffer\<lparr>rb_Count := rb_Count Buffer + 1\<rparr>"

definition RingBuffer_Insert :: "RingBuffer_t \<Rightarrow> u8 \<Rightarrow> RingBuffer_t option" where
  "RingBuffer_Insert Buffer Data =
     do { Buffer \<leftarrow> insert_store Data Buffer;
          let Buffer = insert_advance Buffer;
          Some (insert_count Buffer) }"

definition remove_fetch :: "RingBuffer_t \<Rightarrow> u8 option" where
  "remove_fetch Buffer = rd8 (rb_Data Buffer) (rb_Out Buffer)"

definition remove_advance :: "RingBuffer_t \<Rightarrow> RingBuffer_t" where
  "remove_advance Buffer =
     (let Out = rb_Out Buffer + 1
      in Buffer\<lparr>rb_Out := (if Out = rb_End Buffer then rb_Start Buffer else Out)\<rparr>)"

definition remove_count :: "RingBuffer_t \<Rightarrow> RingBuffer_t" where
  "remove_count Buffer = Buffer\<lparr>rb_Count := rb_Count Buffer - 1\<rparr>"

definition RingBuffer_Remove :: "RingBuffer_t \<Rightarrow> (u8 \<times> RingBuffer_t) option" where
  "RingBuffer_Remove Buffer =
     do { Data \<leftarrow> remove_fetch Buffer;
          let Buffer = remove_advance Buffer;
          Some (Data, remove_count Buffer) }"

definition RingBuffer_Peek :: "RingBuffer_t \<Rightarrow> u8 option" where
  "RingBuffer_Peek Buffer = rd8 (rb_Data Buffer) (rb_Out Buffer)"

lemmas ring_ops = insert_store_def insert_advance_def insert_count_def RingBuffer_Insert_def
  remove_fetch_def remove_advance_def remove_count_def RingBuffer_Remove_def rd8_def wr8_def

section \<open>Invariant and abstraction\<close>

text \<open>The header fields that no operation changes after initialisation.\<close>

definition rb_shape :: "RingBuffer_t \<Rightarrow> bool" where
  "rb_shape b \<longleftrightarrow> 0 < unat (rb_Size b) \<and> unat (rb_Size b) \<le> length (rb_Data b)
     \<and> rb_Start b = 0 \<and> rb_End b = unat (rb_Size b)
     \<and> rb_In b < unat (rb_Size b) \<and> rb_Out b < unat (rb_Size b)"

definition rb_inv :: "RingBuffer_t \<Rightarrow> bool" where
  "rb_inv b \<longleftrightarrow> rb_shape b \<and> unat (rb_Count b) \<le> unat (rb_Size b)
     \<and> rb_In b = (rb_Out b + unat (rb_Count b)) mod unat (rb_Size b)"

definition rb_contents :: "RingBuffer_t \<Rightarrow> u8 list" where
  "rb_contents b = slice (rb_Data b) (rb_Out b) (unat (rb_Size b)) (unat (rb_Count b))"

definition rb_capacity :: "RingBuffer_t \<Rightarrow> nat" where
  "rb_capacity b = unat (rb_Size b)"

lemma insert_advance_shape:
  "rb_shape b \<Longrightarrow> insert_advance b = b\<lparr>rb_In := Suc (rb_In b) mod unat (rb_Size b)\<rparr>"
  by (auto simp: insert_advance_def rb_shape_def Let_def)

lemma remove_advance_shape:
  "rb_shape b \<Longrightarrow> remove_advance b = b\<lparr>rb_Out := Suc (rb_Out b) mod unat (rb_Size b)\<rparr>"
  by (auto simp: remove_advance_def rb_shape_def Let_def)

lemma RingBuffer_InitBuffer_inv:
  "0 < Size \<Longrightarrow> unat Size \<le> length d \<Longrightarrow> rb_inv (RingBuffer_InitBuffer d Size)"
  by (simp add: rb_inv_def rb_shape_def RingBuffer_InitBuffer_def word_less_nat_alt)

lemma RingBuffer_InitBuffer_contents: "rb_contents (RingBuffer_InitBuffer d Size) = []"
  by (simp add: rb_contents_def RingBuffer_InitBuffer_def)

lemma RingBuffer_Insert_ok:
  assumes inv: "rb_inv b" and room: "length (rb_contents b) < rb_capacity b"
  shows "\<exists>b'. RingBuffer_Insert b x = Some b' \<and> rb_inv b'
    \<and> rb_contents b' = rb_contents b @ [x] \<and> rb_capacity b' = rb_capacity b"
proof -
  let ?n = "unat (rb_Size b)" and ?c = "unat (rb_Count b)"
  let ?b' = "b\<lparr>rb_Data := (rb_Data b)[rb_In b := x], rb_In := Suc (rb_In b) mod ?n,
               rb_Count := rb_Count b + 1\<rparr>"
  from room have lt: "?c < ?n" by (simp add: rb_contents_def rb_capacity_def)
  from inv have sh: "rb_shape b" and In: "rb_In b = (rb_Out b + ?c) mod ?n"
    and n: "?n \<le> length (rb_Data b)"
    by (auto simp: rb_inv_def rb_shape_def)
  have cnt: "unat (rb_Count b + 1) = Suc ?c" using lt by (rule unat_Suc)
  have "RingBuffer_Insert b x = Some ?b'"
    using sh insert_advance_shape [of "b\<lparr>rb_Data := (rb_Data b)[rb_In b := x]\<rparr>"]
    by (auto simp: RingBuffer_Insert_def insert_store_def insert_count_def wr8_def rb_shape_def)
  moreover have "rb_inv ?b'"
    using sh lt cnt In by (auto simp: rb_inv_def rb_shape_def mod_simps)
  moreover have "rb_In b < length (rb_Data b)" using sh n by (simp add: rb_shape_def)
  then have "rb_contents ?b' = rb_contents b @ [x]"
    using slice_update_other [of ?c ?c ?n "rb_Data b" "rb_Out b" x] lt n In sh
    by (simp add: rb_contents_def cnt slice_Suc_last rb_shape_def)
  ultimately show ?thesis by (auto simp: rb_capacity_def)
qed

lemma RingBuffer_Remove_ok:
  assumes inv: "rb_inv b" and ne: "rb_contents b = x # xs"
  shows "\<exists>b'. RingBuffer_Remove b = Some (x, b') \<and> rb_inv b'
    \<and> rb_contents b' = xs \<and> rb_capacity b' = rb_capacity b"
proof -
  let ?n = "unat (rb_Size b)" and ?c = "unat (rb_Count b)"
  let ?b' = "b\<lparr>rb_Out := Suc (rb_Out b) mod ?n, rb_Count := rb_Count b - 1\<rparr>"
  from inv have sh: "rb_shape b" and In: "rb_In b = (rb_Out b + ?c) mod ?n"
    and le: "?c \<le> ?n" by (auto simp: rb_inv_def)
  from ne obtain k where k: "?c = Suc k"
    by (cases ?c) (auto simp: rb_contents_def)
  have cnt: "unat (rb_Count b - 1) = k" using k by (rule unat_pred)
  have hd: "x = rb_Data b ! rb_Out b" and tl: "xs = slice (rb_Data b) (Suc (rb_Out b) mod ?n) ?n k"
    using ne k sh slice_Suc_first [of "rb_Out b" ?n "rb_Data b" k]
    by (auto simp: rb_contents_def rb_shape_def)
  have "RingBuffer_Remove b = Some (x, ?b')"
    using sh hd by (auto simp: RingBuffer_Remove_def remove_fetch_def remove_advance_shape
      remove_count_def rd8_def rb_shape_def)
  moreover have "rb_inv ?b'"
    using sh le cnt k In by (auto simp: rb_inv_def rb_shape_def mod_simps)
  moreover have "rb_contents ?b' = xs"
    by (simp add: rb_contents_def cnt tl)
  ultimately show ?thesis by (auto simp: rb_capacity_def)
qed

interpretation ring: bounded_queue rb_inv rb_contents rb_capacity RingBuffer_Insert RingBuffer_Remove
proof unfold_locales
  show "length (rb_contents q) \<le> rb_capacity q" if "rb_inv q" for q
    using that by (simp add: rb_inv_def rb_contents_def rb_capacity_def)
qed (rule RingBuffer_Insert_ok RingBuffer_Remove_ok; assumption)+

section \<open>One inserting and one removing thread\<close>

text \<open>
  The client of \<^verbatim>\<open>RingBuffer_Insert\<close> tests \<^verbatim>\<open>RingBuffer_IsFull\<close> first and the client of
  \<^verbatim>\<open>RingBuffer_Remove\<close> tests \<^verbatim>\<open>RingBuffer_IsEmpty\<close> first.  Each thread has a program
  counter over the test and the three memory accesses of its operation.
\<close>

datatype insert_pc = PCheck | PStore | PAdvance | PCount

datatype remove_pc = CCheck | CFetch | CAdvance | CCount

record rb_threads =
  th_buf :: RingBuffer_t
  th_ppc :: insert_pc
  th_todo :: "u8 list"
  th_cpc :: remove_pc
  th_reg :: u8
  th_got :: "u8 list"

inductive rb_step :: "rb_threads \<Rightarrow> rb_threads \<Rightarrow> bool" where
  p_check: "th_ppc s = PCheck \<Longrightarrow> th_todo s \<noteq> [] \<Longrightarrow> \<not> RingBuffer_IsFull (th_buf s) \<Longrightarrow>
     rb_step s (s\<lparr>th_ppc := PStore\<rparr>)"
| p_store: "th_ppc s = PStore \<Longrightarrow> insert_store (hd (th_todo s)) (th_buf s) = Some b \<Longrightarrow>
     rb_step s (s\<lparr>th_buf := b, th_ppc := PAdvance\<rparr>)"
| p_advance: "th_ppc s = PAdvance \<Longrightarrow>
     rb_step s (s\<lparr>th_buf := insert_advance (th_buf s), th_ppc := PCount\<rparr>)"
| p_count: "th_ppc s = PCount \<Longrightarrow>
     rb_step s (s\<lparr>th_buf := insert_count (th_buf s), th_ppc := PCheck, th_todo := tl (th_todo s)\<rparr>)"
| c_check: "th_cpc s = CCheck \<Longrightarrow> \<not> RingBuffer_IsEmpty (th_buf s) \<Longrightarrow>
     rb_step s (s\<lparr>th_cpc := CFetch\<rparr>)"
| c_fetch: "th_cpc s = CFetch \<Longrightarrow> remove_fetch (th_buf s) = Some x \<Longrightarrow>
     rb_step s (s\<lparr>th_reg := x, th_cpc := CAdvance\<rparr>)"
| c_advance: "th_cpc s = CAdvance \<Longrightarrow>
     rb_step s (s\<lparr>th_buf := remove_advance (th_buf s), th_cpc := CCount\<rparr>)"
| c_count: "th_cpc s = CCount \<Longrightarrow>
     rb_step s (s\<lparr>th_buf := remove_count (th_buf s), th_cpc := CCheck, th_got := th_got s @ [th_reg s]\<rparr>)"

definition rb_start :: "bytes \<Rightarrow> u16 \<Rightarrow> u8 list \<Rightarrow> rb_threads" where
  "rb_start d Size input =
     \<lparr>th_buf = RingBuffer_InitBuffer d Size, th_ppc = PCheck, th_todo = input,
      th_cpc = CCheck, th_reg = 0, th_got = []\<rparr>"

text \<open>Bytes between the two pointers: counted ones, plus one just stored, minus one just taken.\<close>

definition rb_len :: "rb_threads \<Rightarrow> nat" where
  "rb_len s = unat (rb_Count (th_buf s)) + of_bool (th_ppc s = PCount) - of_bool (th_cpc s = CCount)"

definition rb_window :: "rb_threads \<Rightarrow> u8 list" where
  "rb_window s = slice (rb_Data (th_buf s)) (rb_Out (th_buf s)) (unat (rb_Size (th_buf s))) (rb_len s)"

definition th_unsent :: "rb_threads \<Rightarrow> u8 list" where
  "th_unsent s = (if th_ppc s = PCount then tl (th_todo s) else th_todo s)"

definition th_taken :: "rb_threads \<Rightarrow> u8 list" where
  "th_taken s = th_got s @ (if th_cpc s = CCount then [th_reg s] else [])"

definition rb_thread_inv :: "u8 list \<Rightarrow> rb_threads \<Rightarrow> bool" where
  "rb_thread_inv input s \<longleftrightarrow>
     (let b = th_buf s; n = unat (rb_Size b); c = unat (rb_Count b)
      in rb_shape b \<and> c \<le> n
       \<and> (th_ppc s \<noteq> PCheck \<longrightarrow> c < n \<and> th_todo s \<noteq> [])
       \<and> (th_cpc s \<noteq> CCheck \<longrightarrow> 0 < c)
       \<and> rb_In b = (rb_Out b + rb_len s) mod n
       \<and> (th_ppc s = PAdvance \<longrightarrow> rb_Data b ! rb_In b = hd (th_todo s))
       \<and> (th_cpc s = CAdvance \<longrightarrow> th_reg s = rb_Data b ! rb_Out b)
       \<and> th_taken s @ rb_window s @ th_unsent s = input)"

lemmas thread_defs = rb_thread_inv_def rb_len_def rb_window_def th_unsent_def th_taken_def Let_def

lemma rb_start_inv:
  "0 < Size \<Longrightarrow> unat Size \<le> length d \<Longrightarrow> rb_thread_inv input (rb_start d Size input)"
  by (auto simp: thread_defs rb_start_def rb_shape_def RingBuffer_InitBuffer_def word_less_nat_alt)

lemma inv_p_check:
  assumes "rb_thread_inv input s" "th_ppc s = PCheck" "th_todo s \<noteq> []" "\<not> RingBuffer_IsFull (th_buf s)"
  shows "rb_thread_inv input (s\<lparr>th_ppc := PStore\<rparr>)"
  using assms
  by (auto simp: thread_defs RingBuffer_IsFull_def RingBuffer_GetCount_def le_less
      dest: word_unat_eq_iff [THEN iffD2])

lemma inv_p_store:
  assumes inv: "rb_thread_inv input s" and pc: "th_ppc s = PStore"
    and st: "insert_store (hd (th_todo s)) (th_buf s) = Some b"
  shows "rb_thread_inv input (s\<lparr>th_buf := b, th_ppc := PAdvance\<rparr>)"
proof -
  let ?b = "th_buf s" and ?L = "rb_len s"
  let ?n = "unat (rb_Size ?b)"
  from st have b: "b = ?b\<lparr>rb_Data := (rb_Data ?b)[rb_In ?b := hd (th_todo s)]\<rparr>"
    and In: "rb_In ?b < length (rb_Data ?b)"
    by (auto simp: insert_store_def wr8_def split: if_splits)
  from inv pc have L: "?L < ?n" and sh: "rb_shape ?b"
    and eq: "rb_In ?b = (rb_Out ?b + ?L) mod ?n" and n: "?n \<le> length (rb_Data ?b)"
    by (auto simp: rb_thread_inv_def Let_def rb_len_def rb_shape_def)
  have win: "slice ((rb_Data ?b)[rb_In ?b := hd (th_todo s)]) (rb_Out ?b) ?n ?L
    = slice (rb_Data ?b) (rb_Out ?b) ?n ?L"
    unfolding eq using L n by (intro slice_update_other) auto
  have out: "rb_In ?b \<noteq> rb_Out ?b" if "th_cpc s = CAdvance"
  proof -
    from inv pc that have "0 < ?L" by (auto simp: rb_thread_inv_def Let_def rb_len_def)
    then show ?thesis
      using mod_add_inj [of "rb_Out ?b" ?L ?n 0] L sh eq by (auto simp: rb_shape_def)
  qed
  show ?thesis
    using inv pc win out In unfolding b
    by (auto simp: rb_thread_inv_def rb_len_def rb_window_def th_unsent_def th_taken_def Let_def rb_shape_def)
qed

lemma inv_p_advance:
  assumes inv: "rb_thread_inv input s" and pc: "th_ppc s = PAdvance"
  shows "rb_thread_inv input (s\<lparr>th_buf := insert_advance (th_buf s), th_ppc := PCount\<rparr>)"
proof -
  from inv have sh: "rb_shape (th_buf s)" by (simp add: rb_thread_inv_def Let_def)
  have L: "rb_len (s\<lparr>th_buf := insert_advance (th_buf s), th_ppc := PCount\<rparr>) = Suc (rb_len s)"
    using inv pc by (auto simp: thread_defs insert_advance_shape [OF sh])
  have "0 < unat (rb_Size (th_buf s))" using sh by (simp add: rb_shape_def)
  with inv pc show ?thesis
    unfolding rb_thread_inv_def Let_def rb_window_def L
    by (auto simp: insert_advance_shape [OF sh] slice_Suc_last th_unsent_def th_taken_def
        rb_shape_def mod_simps hd_Cons_tl)
qed

lemma inv_p_count:
  assumes inv: "rb_thread_inv input s" and pc: "th_ppc s = PCount"
  shows "rb_thread_inv input
    (s\<lparr>th_buf := insert_count (th_buf s), th_ppc := PCheck, th_todo := tl (th_todo s)\<rparr>)"
proof -
  have c: "unat (rb_Count (th_buf s) + 1) = Suc (unat (rb_Count (th_buf s)))"
    using inv pc by (intro unat_Suc [of _ "rb_Size (th_buf s)"]) (auto simp: thread_defs)
  show ?thesis
    using inv pc by (auto simp: thread_defs insert_count_def c rb_shape_def)
qed

lemma inv_c_check:
  assumes "rb_thread_inv input s" "th_cpc s = CCheck" "\<not> RingBuffer_IsEmpty (th_buf s)"
  shows "rb_thread_inv input (s\<lparr>th_cpc := CFetch\<rparr>)"
  using assms
  by (auto simp: thread_defs RingBuffer_IsEmpty_def RingBuffer_GetCount_def unat_gt_0)

lemma inv_c_fetch:
  assumes "rb_thread_inv input s" "th_cpc s = CFetch" "remove_fetch (th_buf s) = Some x"
  shows "rb_thread_inv input (s\<lparr>th_reg := x, th_cpc := CAdvance\<rparr>)"
  using assms
  by (auto simp: thread_defs remove_fetch_def rd8_def split: if_splits)

lemma inv_c_advance:
  assumes inv: "rb_thread_inv input s" and pc: "th_cpc s = CAdvance"
  shows "rb_thread_inv input (s\<lparr>th_buf := remove_advance (th_buf s), th_cpc := CCount\<rparr>)"
proof -
  from inv have sh: "rb_shape (th_buf s)" by (simp add: rb_thread_inv_def Let_def)
  let ?t = "s\<lparr>th_buf := remove_advance (th_buf s), th_cpc := CCount\<rparr>"
  have L: "rb_len s = Suc (rb_len ?t)"
    using inv pc by (auto simp: thread_defs remove_advance_shape [OF sh])
  have win: "rb_window s = rb_Data (th_buf s) ! rb_Out (th_buf s) # rb_window ?t"
    unfolding rb_window_def L using sh
    by (simp add: slice_Suc_first rb_shape_def remove_advance_shape [OF sh])
  show ?thesis
    using inv pc win L
    by (auto simp: rb_thread_inv_def Let_def remove_advance_shape [OF sh] th_unsent_def th_taken_def
        rb_shape_def mod_simps)
qed

lemma inv_c_count:
  assumes inv: "rb_thread_inv input s" and pc: "th_cpc s = CCount"
  shows "rb_thread_inv input
    (s\<lparr>th_buf := remove_count (th_buf s), th_cpc := CCheck, th_got := th_got s @ [th_reg s]\<rparr>)"
proof -
  obtain k where "unat (rb_Count (th_buf s)) = Suc k"
    using inv pc by (cases "unat (rb_Count (th_buf s))") (auto simp: thread_defs)
  moreover from this have "unat (rb_Count (th_buf s) - 1) = k" by (rule unat_pred)
  ultimately show ?thesis
    using inv pc by (auto simp: thread_defs remove_count_def rb_shape_def)
qed

lemma rb_step_inv: "rb_step s t \<Longrightarrow> rb_thread_inv input s \<Longrightarrow> rb_thread_inv input t"
  by (induction rule: rb_step.induct)
    (auto intro: inv_p_check inv_p_store inv_p_advance inv_p_count
      inv_c_check inv_c_fetch inv_c_advance inv_c_count)

lemma rb_steps_inv: "rb_step\<^sup>*\<^sup>* s t \<Longrightarrow> rb_thread_inv input s \<Longrightarrow> rb_thread_inv input t"
  by (induction rule: rtranclp_induct) (auto intro: rb_step_inv)

text \<open>No thread is ever about to touch a byte outside the storage array.\<close>

lemma rb_thread_inv_in_bounds:
  assumes "rb_thread_inv input s"
  shows "insert_store x (th_buf s) \<noteq> None" and "remove_fetch (th_buf s) \<noteq> None"
  using assms by (auto simp: rb_thread_inv_def Let_def rb_shape_def insert_store_def
      remove_fetch_def wr8_def rd8_def)

text \<open>Work left: four steps per byte for each thread.\<close>

definition p_done :: "insert_pc \<Rightarrow> nat" where
  "p_done p = (case p of PCheck \<Rightarrow> 0 | PStore \<Rightarrow> 1 | PAdvance \<Rightarrow> 2 | PCount \<Rightarrow> 3)"

definition c_done :: "remove_pc \<Rightarrow> nat" where
  "c_done c = (case c of CCheck \<Rightarrow> 0 | CFetch \<Rightarrow> 1 | CAdvance \<Rightarrow> 2 | CCount \<Rightarrow> 3)"

definition work :: "u8 list \<Rightarrow> rb_threads \<Rightarrow> nat" where
  "work input s = (4 * length (th_todo s) - p_done (th_ppc s))
     + (4 * (length input - length (th_got s)) - c_done (th_cpc s))"

lemma got_bound:
  assumes "rb_thread_inv input s"
  shows "length (th_got s) + of_bool (th_cpc s \<noteq> CCheck \<or> rb_Count (th_buf s) \<noteq> 0) \<le> length input"
proof -
  from assms have eq: "th_taken s @ rb_window s @ th_unsent s = input"
    and c: "th_cpc s \<noteq> CCheck \<longrightarrow> 0 < unat (rb_Count (th_buf s))"
    by (auto simp: rb_thread_inv_def Let_def)
  from arg_cong [OF eq, of length]
  have "length (th_got s) + of_bool (th_cpc s = CCount) + rb_len s \<le> length input"
    by (simp add: th_taken_def rb_window_def split: if_splits)
  with c show ?thesis
    by (cases "unat (rb_Count (th_buf s))"; cases "th_cpc s")
      (auto simp: rb_len_def unat_eq_zero)
qed

lemma rb_step_work:
  assumes "rb_step s t" "rb_thread_inv input s"
  shows "work input t < work input s"
proof -
  have todo: "th_ppc s \<noteq> PCheck \<Longrightarrow> \<exists>x xs. th_todo s = x # xs"
    using assms(2) by (auto simp: rb_thread_inv_def Let_def neq_Nil_conv)
  from assms(1) got_bound [OF assms(2)] todo show ?thesis
    by (induction rule: rb_step.induct)
      (auto simp: work_def p_done_def c_done_def RingBuffer_IsEmpty_def RingBuffer_GetCount_def
        split: if_splits)
qed

lemma rb_progress:
  assumes inv: "rb_thread_inv input s" and rest: "th_got s \<noteq> input"
  shows "\<exists>t. rb_step s t"
proof (cases "th_cpc s")
  case CFetch
  then show ?thesis using rb_thread_inv_in_bounds(2) [OF inv] rb_step.c_fetch [OF CFetch] by blast
next
  case CAdvance
  then show ?thesis using rb_step.c_advance by blast
next
  case CCount
  then show ?thesis using rb_step.c_count by blast
next
  case c: CCheck
  show ?thesis
  proof (cases "th_ppc s")
    case PStore
    then show ?thesis using rb_thread_inv_in_bounds(1) [OF inv] rb_step.p_store [OF PStore] by blast
  next
    case PAdvance
    then show ?thesis using rb_step.p_advance by blast
  next
    case PCount
    then show ?thesis using rb_step.p_count by blast
  next
    case p: PCheck
    show ?thesis
    proof (cases "rb_Count (th_buf s) = 0")
      case False
      then show ?thesis
        using rb_step.c_check [OF c] by (auto simp: RingBuffer_IsEmpty_def RingBuffer_GetCount_def)
    next
      case True
      then have "th_got s @ th_todo s = input"
        using inv c p by (simp add: thread_defs)
      with rest have "th_todo s \<noteq> []" by auto
      moreover have "rb_Size (th_buf s) \<noteq> 0"
        using inv by (auto simp: rb_thread_inv_def Let_def rb_shape_def)
      ultimately show ?thesis
        using rb_step.p_check [OF p] True by (auto simp: RingBuffer_IsFull_def RingBuffer_GetCount_def)
    qed
  qed
qed

section \<open>Properties\<close>

text \<open>
  C1. The ring buffer implements a bounded list queue: from a well-formed buffer, every
  sequence of insertions and removals that the list queue of the same capacity allows runs
  without an access outside the storage array, returns the bytes the list queue returns,
  and leaves a well-formed buffer with the same contents.
\<close>

theorem ring_buffer_refines_queue:
  assumes "rb_inv b" "run_spec (rb_capacity b) (rb_contents b) ops = Some (out, ys)"
  shows "\<exists>b'. run_queue RingBuffer_Insert RingBuffer_Remove b ops = Some (out, b')
    \<and> rb_inv b' \<and> rb_contents b' = ys \<and> rb_capacity b' = rb_capacity b"
  using assms by (rule ring.run_refines_spec)

theorem ring_buffer_refines_queue_witness:
  "\<exists>b'. run_queue RingBuffer_Insert RingBuffer_Remove (RingBuffer_InitBuffer [0, 0, 0] 2)
      [Ins 7, Ins 8, Rem, Ins 9, Rem] = Some ([7, 8], b')
    \<and> rb_inv b' \<and> rb_contents b' = [9] \<and> rb_capacity b' = rb_capacity (RingBuffer_InitBuffer [0, 0, 0] 2)"
  by (rule ring_buffer_refines_queue)
    (simp_all add: RingBuffer_InitBuffer_inv RingBuffer_InitBuffer_contents rb_capacity_def,
     simp add: RingBuffer_InitBuffer_def)

text \<open>
  C2. One inserting and one removing thread, interleaved at every memory access of the two
  operations: in every reachable state the bytes taken out so far, the bytes between the
  two pointers and the bytes still to be inserted are together the input, in order; the
  counter never exceeds the size of the buffer; neither thread can touch a byte outside the
  storage array; and as long as not every byte has arrived some thread can move, every move
  using up one unit of a finite amount of work.
\<close>

theorem ring_buffer_threads:
  assumes "0 < Size" "unat Size \<le> length d" "rb_step\<^sup>*\<^sup>* (rb_start d Size input) s"
  shows "th_taken s @ rb_window s @ th_unsent s = input
    \<and> rb_Count (th_buf s) \<le> rb_Size (th_buf s)
    \<and> (\<forall>x. insert_store x (th_buf s) \<noteq> None) \<and> remove_fetch (th_buf s) \<noteq> None
    \<and> (th_got s = input \<or> (\<exists>t. rb_step s t))
    \<and> (\<forall>t. rb_step s t \<longrightarrow> work input t < work input s)"
proof -
  have inv: "rb_thread_inv input s"
    using rb_steps_inv [OF assms(3) rb_start_inv [OF assms(1,2)]] .
  then have "th_taken s @ rb_window s @ th_unsent s = input"
    and "rb_Count (th_buf s) \<le> rb_Size (th_buf s)"
    by (auto simp: rb_thread_inv_def Let_def word_le_nat_alt)
  then show ?thesis
    using rb_thread_inv_in_bounds [OF inv] rb_progress [OF inv] rb_step_work [OF _ inv] by blast
qed

theorem ring_buffer_threads_witness:
  "\<exists>s. rb_step\<^sup>*\<^sup>* (rb_start [0] 1 [42]) s \<and> th_ppc s = PStore
    \<and> th_taken s @ rb_window s @ th_unsent s = [42]"
proof -
  let ?s = "(rb_start [0] 1 [42])\<lparr>th_ppc := PStore\<rparr>"
  have "rb_step (rb_start [0] 1 [42]) ?s"
    by (rule p_check) (simp_all add: rb_start_def RingBuffer_InitBuffer_def RingBuffer_IsFull_def
        RingBuffer_GetCount_def)
  then have "rb_step\<^sup>*\<^sup>* (rb_start [0] 1 [42]) ?s" by simp
  with ring_buffer_threads [of 1 "[0]" "[42]" ?s] show ?thesis
    by (intro exI [of _ ?s]) simp
qed

end
