(* ===== verification/Bit_Buffer.thy ===== *)
theory Bit_Buffer
  imports Queue_Interface
begin

text \<open>
  The packed circular bit buffer of \<^verbatim>\<open>Projects/Magstripe/Lib/CircularBitBuffer.c\<close>: bits are
  stored eight to a byte, and a position is a byte pointer together with a one-bit mask.
  The invariant says that every bit outside the stored window is clear, which storing a
  zero bit relies on; with it the buffer is a \<^verbatim>\<open>bounded_queue\<close> of booleans.
  \<^verbatim>\<open>MAX_BITS\<close> depends on the target, so the model keeps the length of the data array.
\<close>

section \<open>Structure and operations\<close>

record BitBufferPointer_t =
  bp_CurrentByte :: nat
  bp_ByteMask :: u8

record BitBuffer_t =
  bb_Data :: bytes
  bb_Elements :: u16
  bb_In :: BitBufferPointer_t
  bb_Out :: BitBufferPointer_t

definition BitBuffer_Init :: "BitBuffer_t \<Rightarrow> BitBuffer_t" where
  "BitBuffer_Init Buffer =
     Buffer\<lparr>bb_Elements := 0,
            bb_In := \<lparr>bp_CurrentByte = 0, bp_ByteMask = push_bit 0 1\<rparr>,
            bb_Out := \<lparr>bp_CurrentByte = 0, bp_ByteMask = push_bit 0 1\<rparr>\<rparr>"

text \<open>The pointer step that both operations end with; \<open>n\<close> is \<^verbatim>\<open>sizeof(Buffer->Data)\<close>.\<close>

definition bit_ptr_next :: "nat \<Rightarrow> BitBufferPointer_t \<Rightarrow> BitBufferPointer_t" where
  "bit_ptr_next n p =
     (if bp_ByteMask p = push_bit 7 1
      then \<lparr>bp_CurrentByte = (if bp_CurrentByte p \<noteq> n - 1 then bp_CurrentByte p + 1 else 0),
            bp_ByteMask = push_bit 0 1\<rparr>
      else p\<lparr>bp_ByteMask := push_bit 1 (bp_ByteMask p)\<rparr>)"

definition BitBuffer_StoreNextBit :: "BitBuffer_t \<Rightarrow> bool \<Rightarrow> BitBuffer_t option" where
  "BitBuffer_StoreNextBit Buffer Bit =
     do { d \<leftarrow> (if Bit
                 then do { v \<leftarrow> rd8 (bb_Data Buffer) (bp_CurrentByte (bb_In Buffer));
                           wr8 (bb_Data Buffer) (bp_CurrentByte (bb_In Buffer))
                             (v OR bp_ByteMask (bb_In Buffer)) }
                 else Some (bb_Data Buffer));
          Some (Buffer\<lparr>bb_Data := d, bb_Elements := bb_Elements Buffer + 1,
                       bb_In := bit_ptr_next (length d) (bb_In Buffer)\<rparr>) }"

definition BitBuffer_GetNextBit :: "BitBuffer_t \<Rightarrow> (bool \<times> BitBuffer_t) option" where
  "BitBuffer_GetNextBit Buffer =
     do { v \<leftarrow> rd8 (bb_Data Buffer) (bp_CurrentByte (bb_Out Buffer));
          let Bit = (v AND bp_ByteMask (bb_Out Buffer) \<noteq> 0);
          d \<leftarrow> wr8 (bb_Data Buffer) (bp_CurrentByte (bb_Out Buffer))
                 (v AND NOT (bp_ByteMask (bb_Out Buffer)));
          Some (Bit, Buffer\<lparr>bb_Data := d, bb_Elements := bb_Elements Buffer - 1,
                            bb_Out := bit_ptr_next (length d) (bb_Out Buffer)\<rparr>) }"

section \<open>Positions and bits\<close>

definition mask_index :: "u8 \<Rightarrow> nat" where
  "mask_index m = length (takeWhile (\<lambda>i. \<not> bit m i) [0..<8])"

definition bit_ptr_ok :: "nat \<Rightarrow> BitBufferPointer_t \<Rightarrow> bool" where
  "bit_ptr_ok n p \<longleftrightarrow> bp_CurrentByte p < n \<and> (\<exists>k<8. bp_ByteMask p = 2 ^ k)"

definition bit_pos :: "BitBufferPointer_t \<Rightarrow> nat" where
  "bit_pos p = 8 * bp_CurrentByte p + mask_index (bp_ByteMask p)"

definition all_bits :: "bytes \<Rightarrow> bool list" where
  "all_bits d = map (\<lambda>q. bit (d ! (q div 8)) (q mod 8)) [0..<8 * length d]"

lemma length_all_bits [simp]: "length (all_bits d) = 8 * length d"
  by (simp add: all_bits_def)

lemma nth_all_bits:
  "q < 8 * length d \<Longrightarrow> all_bits d ! q = bit (d ! (q div 8)) (q mod 8)"
  by (simp add: all_bits_def)

lemma less_8_cases:
  fixes k :: nat
  assumes "k < 8"
  obtains "k = 0" | "k = 1" | "k = 2" | "k = 3" | "k = 4" | "k = 5" | "k = 6" | "k = 7"
  using assms by (auto simp: numeral_eq_Suc less_Suc_eq)

lemma mask_index_power [simp]: "k < 8 \<Longrightarrow> mask_index (2 ^ k) = k"
  by (erule less_8_cases) (simp_all add: mask_index_def upt_rec numeral_eq_Suc)

lemma mask_index_1 [simp]: "mask_index 1 = 0"
  using mask_index_power [of 0] by simp

lemma mask_eq_128: "k < 8 \<Longrightarrow> (2 ^ k = (128 :: u8)) = (k = 7)"
  by (erule less_8_cases) simp_all

lemma bit_ptr_next_ok: "bit_ptr_ok n p \<Longrightarrow> bit_ptr_ok n (bit_ptr_next n p)"
proof -
  assume "bit_ptr_ok n p"
  then obtain k where k: "k < 8" "bp_ByteMask p = 2 ^ k" and c: "bp_CurrentByte p < n"
    by (auto simp: bit_ptr_ok_def)
  show ?thesis
  proof (cases "k = 7")
    case True
    with k c show ?thesis
      by (auto simp: bit_ptr_ok_def bit_ptr_next_def intro: exI [of _ "0::nat"])
  next
    case False
    with k c show ?thesis
      by (auto simp: bit_ptr_ok_def bit_ptr_next_def mask_eq_128 push_bit_eq_mult
          intro!: exI [of _ "Suc k"])
  qed
qed

lemma bit_pos_next: "bit_ptr_ok n p \<Longrightarrow> bit_pos (bit_ptr_next n p) = Suc (bit_pos p) mod (8 * n)"
proof -
  assume "bit_ptr_ok n p"
  then obtain k where k: "k < 8" "bp_ByteMask p = 2 ^ k" and c: "bp_CurrentByte p < n"
    by (auto simp: bit_ptr_ok_def)
  show ?thesis
  proof (cases "k = 7")
    case True
    have "Suc (bit_pos p) = 8 * Suc (bp_CurrentByte p)"
      using mask_index_power [OF k(1), folded k(2)] True by (simp add: bit_pos_def)
    moreover have "bit_pos (bit_ptr_next n p) = 8 * (Suc (bp_CurrentByte p) mod n)"
      using True k c
      by (cases "Suc (bp_CurrentByte p) = n") (auto simp: bit_ptr_next_def bit_pos_def)
    ultimately show ?thesis by (simp only: mult_mod_right)
  next
    case False
    then have "bit_pos (bit_ptr_next n p) = Suc (bit_pos p)"
      using k mask_index_power [of "Suc k"]
      by (simp add: bit_ptr_next_def bit_pos_def mask_eq_128 push_bit_eq_mult mult.commute)
    moreover have "Suc (bit_pos p) < 8 * n"
      using k c False by (simp add: bit_pos_def)
    ultimately show ?thesis by simp
  qed
qed

lemma bit_pos_bound: "bit_ptr_ok n p \<Longrightarrow> bit_pos p < 8 * n"
  by (auto simp: bit_ptr_ok_def bit_pos_def)

lemma bit_pos_div_mod:
  assumes "bit_ptr_ok n p"
  shows "bit_pos p div 8 = bp_CurrentByte p" and "bp_ByteMask p = 2 ^ (bit_pos p mod 8)"
  using assms by (auto simp: bit_ptr_ok_def bit_pos_def)

lemma all_bits_set:
  assumes "q < 8 * length d"
  shows "all_bits (d[q div 8 := d ! (q div 8) OR 2 ^ (q mod 8)]) = (all_bits d)[q := True]"
proof (rule nth_equalityI)
  fix i
  assume "i < length (all_bits (d[q div 8 := d ! (q div 8) OR 2 ^ (q mod 8)]))"
  then have i: "i < 8 * length d" by simp
  have "i = q" if "i div 8 = q div 8" "i mod 8 = q mod 8"
    using that by (metis div_mult_mod_eq)
  then show "all_bits (d[q div 8 := d ! (q div 8) OR 2 ^ (q mod 8)]) ! i
    = (all_bits d)[q := True] ! i"
    using i assms by (auto simp: nth_list_update nth_all_bits bit_simps bit_exp_iff)
qed simp

lemma all_bits_clear:
  assumes "q < 8 * length d"
  shows "all_bits (d[q div 8 := d ! (q div 8) AND NOT (2 ^ (q mod 8))])
    = (all_bits d)[q := False]"
proof (rule nth_equalityI)
  fix i
  assume "i < length (all_bits (d[q div 8 := d ! (q div 8) AND NOT (2 ^ (q mod 8))]))"
  then have i: "i < 8 * length d" by simp
  have "i = q" if "i div 8 = q div 8" "i mod 8 = q mod 8"
    using that by (metis div_mult_mod_eq)
  then show "all_bits (d[q div 8 := d ! (q div 8) AND NOT (2 ^ (q mod 8))]) ! i
    = (all_bits d)[q := False] ! i"
    using i assms by (auto simp: nth_list_update nth_all_bits bit_simps bit_exp_iff)
qed simp

section \<open>Invariant and abstraction\<close>

definition bb_capacity :: "BitBuffer_t \<Rightarrow> nat" where
  "bb_capacity b = 8 * length (bb_Data b)"

definition bb_contents :: "BitBuffer_t \<Rightarrow> bool list" where
  "bb_contents b = slice (all_bits (bb_Data b)) (bit_pos (bb_Out b)) (bb_capacity b) (unat (bb_Elements b))"

definition bb_inv :: "BitBuffer_t \<Rightarrow> bool" where
  "bb_inv b \<longleftrightarrow> 0 < bb_capacity b \<and> bb_capacity b < 2 ^ 16
     \<and> bit_ptr_ok (length (bb_Data b)) (bb_In b) \<and> bit_ptr_ok (length (bb_Data b)) (bb_Out b)
     \<and> unat (bb_Elements b) \<le> bb_capacity b
     \<and> bit_pos (bb_In b) = (bit_pos (bb_Out b) + unat (bb_Elements b)) mod bb_capacity b
     \<and> (\<forall>j. unat (bb_Elements b) \<le> j \<longrightarrow> j < bb_capacity b \<longrightarrow>
          \<not> all_bits (bb_Data b) ! ((bit_pos (bb_Out b) + j) mod bb_capacity b))"

lemma StoreNextBit_data:
  assumes "bb_inv b" "unat (bb_Elements b) < bb_capacity b"
  shows "\<exists>d. BitBuffer_StoreNextBit b x = Some (b\<lparr>bb_Data := d, bb_Elements := bb_Elements b + 1,
            bb_In := bit_ptr_next (length d) (bb_In b)\<rparr>)
    \<and> length d = length (bb_Data b) \<and> all_bits d = (all_bits (bb_Data b))[bit_pos (bb_In b) := x]"
proof -
  let ?d = "bb_Data b" and ?p = "bb_In b"
  from assms have ok: "bit_ptr_ok (length ?d) ?p" by (simp add: bb_inv_def)
  note dm = bit_pos_div_mod [OF ok]
  have lt: "bit_pos ?p < 8 * length ?d" using ok by (rule bit_pos_bound)
  have cur: "bp_CurrentByte ?p < length ?d" using ok by (simp add: bit_ptr_ok_def)
  show ?thesis
  proof (cases x)
    case True
    let ?v = "?d[bp_CurrentByte ?p := ?d ! bp_CurrentByte ?p OR bp_ByteMask ?p]"
    have "BitBuffer_StoreNextBit b x = Some (b\<lparr>bb_Data := ?v, bb_Elements := bb_Elements b + 1,
        bb_In := bit_ptr_next (length ?v) ?p\<rparr>)"
      using cur True by (simp add: BitBuffer_StoreNextBit_def rd8_def wr8_def)
    moreover have "all_bits ?v = (all_bits ?d)[bit_pos ?p := x]"
      using all_bits_set [OF lt] dm True by simp
    ultimately show ?thesis by (intro exI [of _ ?v]) simp
  next
    case False
    have "\<not> all_bits ?d ! bit_pos ?p"
      using assms by (auto simp: bb_inv_def)
    then have "all_bits ?d = (all_bits ?d)[bit_pos ?p := x]"
      using False list_update_same_conv [of "bit_pos ?p" "all_bits ?d" x] lt by simp
    then show ?thesis using False
      by (intro exI [of _ ?d]) (simp add: BitBuffer_StoreNextBit_def)
  qed
qed

lemma BitBuffer_StoreNextBit_ok:
  assumes inv: "bb_inv b" and room: "length (bb_contents b) < bb_capacity b"
  shows "\<exists>b'. BitBuffer_StoreNextBit b x = Some b' \<and> bb_inv b'
    \<and> bb_contents b' = bb_contents b @ [x] \<and> bb_capacity b' = bb_capacity b"
proof -
  let ?e = "unat (bb_Elements b)" and ?n = "bb_capacity b" and ?o = "bit_pos (bb_Out b)"
  from room have e: "?e < ?n" by (simp add: bb_contents_def)
  obtain d where st: "BitBuffer_StoreNextBit b x = Some (b\<lparr>bb_Data := d,
        bb_Elements := bb_Elements b + 1, bb_In := bit_ptr_next (length d) (bb_In b)\<rparr>)"
    and len: "length d = length (bb_Data b)"
    and bits: "all_bits d = (all_bits (bb_Data b))[bit_pos (bb_In b) := x]"
    using StoreNextBit_data [OF inv e] by blast
  from inv have okI: "bit_ptr_ok (length (bb_Data b)) (bb_In b)"
    and n: "?n < 2 ^ 16" and pos: "bit_pos (bb_In b) = (?o + ?e) mod ?n"
    and zero: "\<And>j. ?e \<le> j \<Longrightarrow> j < ?n \<Longrightarrow> \<not> all_bits (bb_Data b) ! ((?o + j) mod ?n)"
    by (auto simp: bb_inv_def)
  have e1: "unat (bb_Elements b + 1) = Suc ?e"
    using e n by (simp add: unat_word_ariths)
  have lt: "(?o + ?e) mod ?n < ?n" using e by simp
  let ?b' = "b\<lparr>bb_Data := d, bb_Elements := bb_Elements b + 1,
               bb_In := bit_ptr_next (length d) (bb_In b)\<rparr>"
  have cap: "bb_capacity ?b' = ?n" by (simp add: bb_capacity_def len)
  have other: "(?o + j) mod ?n \<noteq> (?o + ?e) mod ?n" if "Suc ?e \<le> j" "j < ?n" for j
    using mod_add_inj [of ?o j ?n ?e] that e by auto
  have "\<not> all_bits d ! ((?o + j) mod ?n)" if "Suc ?e \<le> j" "j < ?n" for j
    using zero [of j] other [OF that] that by (simp add: bits pos)
  then have "bb_inv ?b'"
    using inv e e1 cap
    by (auto simp: bb_inv_def len pos bit_ptr_next_ok bit_pos_next [OF okI] mod_simps
        bb_capacity_def)
  moreover have "bb_contents ?b' = bb_contents b @ [x]"
    using slice_update_other [of ?e ?e ?n "all_bits (bb_Data b)" ?o x] e lt
    by (simp add: bb_contents_def cap e1 bits pos slice_Suc_last bb_capacity_def len)
  ultimately show ?thesis using st cap by blast
qed

lemma BitBuffer_GetNextBit_ok:
  assumes inv: "bb_inv b" and ne: "bb_contents b = x # xs"
  shows "\<exists>b'. BitBuffer_GetNextBit b = Some (x, b') \<and> bb_inv b'
    \<and> bb_contents b' = xs \<and> bb_capacity b' = bb_capacity b"
proof -
  let ?n = "bb_capacity b" and ?p = "bb_Out b"
  let ?o = "bit_pos ?p" and ?d = "bb_Data b"
  from ne obtain k where k: "unat (bb_Elements b) = Suc k"
    by (cases "unat (bb_Elements b)") (auto simp: bb_contents_def)
  then have k1: "unat (bb_Elements b - 1) = k" by (rule unat_pred)
  from inv have ok: "bit_ptr_ok (length ?d) ?p" and kn: "Suc k \<le> ?n" and n: "0 < ?n"
    and zero: "\<And>j. Suc k \<le> j \<Longrightarrow> j < ?n \<Longrightarrow> \<not> all_bits ?d ! ((?o + j) mod ?n)"
    using k by (auto simp: bb_inv_def)
  note dm = bit_pos_div_mod [OF ok]
  have lt: "?o < 8 * length ?d" using ok by (rule bit_pos_bound)
  then have o_n: "?o < ?n" by (simp add: bb_capacity_def)
  define d' where "d' = ?d[?o div 8 := ?d ! (?o div 8) AND NOT (2 ^ (?o mod 8))]"
  have len: "length d' = length ?d" by (simp add: d'_def)
  have bits: "all_bits d' = (all_bits ?d)[?o := False]"
    unfolding d'_def using lt by (rule all_bits_clear)
  let ?b' = "b\<lparr>bb_Data := d', bb_Elements := bb_Elements b - 1, bb_Out := bit_ptr_next (length d') ?p\<rparr>"
  have x: "x = all_bits ?d ! ?o" and xs: "xs = slice (all_bits ?d) (Suc ?o mod ?n) ?n k"
    using ne k slice_Suc_first [OF o_n, of "all_bits ?d" k] by (auto simp: bb_contents_def)
  have "(?d ! (?o div 8) AND 2 ^ (?o mod 8) \<noteq> 0) = x"
    using x lt by (simp add: and_exp_eq_0_iff_not_bit nth_all_bits)
  then have get: "BitBuffer_GetNextBit b = Some (x, ?b')"
    using ok dm lt by (simp add: BitBuffer_GetNextBit_def rd8_def wr8_def bit_ptr_ok_def d'_def)
  have cap: "bb_capacity ?b' = ?n" by (simp add: bb_capacity_def len)
  have shift: "(Suc ?o mod ?n + j) mod ?n = (?o + Suc j) mod ?n" for j by (simp add: mod_simps)
  have "\<not> (all_bits ?d)[?o := False] ! ((?o + Suc j) mod ?n)" if "k \<le> j" "j < ?n" for j
  proof (cases "Suc j = ?n")
    case True
    then show ?thesis using o_n lt by simp
  next
    case False
    then show ?thesis using zero [of "Suc j"] that by (auto simp: nth_list_update lt)
  qed
  moreover have "(Suc ?o mod ?n + k) mod ?n = (?o + Suc k) mod ?n" by (rule shift)
  ultimately have inv': "bb_inv ?b'"
    using inv k k1 kn
    unfolding bb_inv_def cap by (auto simp: len bits bit_ptr_next_ok bit_pos_next [OF ok] shift
        bb_capacity_def [of b, symmetric])
  have "slice ((all_bits ?d)[?o := False]) (Suc ?o mod ?n) ?n k = xs"
  proof -
    have "(Suc ?o mod ?n + (?n - 1)) mod ?n = (?o + ?n) mod ?n"
      using n shift [of "?n - 1"] by simp
    then have "(Suc ?o mod ?n + (?n - 1)) mod ?n = ?o" using o_n by simp
    then show ?thesis
      using slice_update_other [of k "?n - 1" ?n "all_bits ?d" "Suc ?o mod ?n" False] kn n xs
      by (simp add: bb_capacity_def)
  qed
  then have "bb_contents ?b' = xs"
    by (simp add: bb_contents_def cap k1 bits len bit_pos_next [OF ok] bb_capacity_def)
  then show ?thesis using get inv' cap by blast
qed

interpretation bits: bounded_queue bb_inv bb_contents bb_capacity BitBuffer_StoreNextBit BitBuffer_GetNextBit
proof unfold_locales
  show "length (bb_contents q) \<le> bb_capacity q" if "bb_inv q" for q
    using that by (simp add: bb_inv_def bb_contents_def)
qed (rule BitBuffer_StoreNextBit_ok BitBuffer_GetNextBit_ok; assumption)+

lemma BitBuffer_Init_inv:
  assumes "bb_Data b = replicate n 0" "0 < n" "8 * n < 2 ^ 16"
  shows "bb_inv (BitBuffer_Init b)" and "bb_contents (BitBuffer_Init b) = []"
proof -
  have "all_bits (replicate n 0) ! q = False" if "q < 8 * n" for q
    using that by (simp add: nth_all_bits less_mult_imp_div_less mult.commute)
  then show "bb_inv (BitBuffer_Init b)"
    using assms
    by (auto simp: bb_inv_def BitBuffer_Init_def bb_capacity_def bit_ptr_ok_def bit_pos_def
        intro: exI [of _ "0::nat"])
  show "bb_contents (BitBuffer_Init b) = []"
    by (simp add: bb_contents_def BitBuffer_Init_def)
qed

section \<open>Properties\<close>

text \<open>
  C4. The bit buffer implements a bounded list queue of bits: from a well-formed buffer every
  sequence of stores and fetches that the list queue of \<^verbatim>\<open>MAX_BITS\<close> elements allows
  returns the same bits and leaves a well-formed buffer with the same contents.
\<close>

theorem bit_buffer_refines_queue:
  assumes "bb_inv b" "run_spec (bb_capacity b) (bb_contents b) ops = Some (out, ys)"
  shows "\<exists>b'. run_queue BitBuffer_StoreNextBit BitBuffer_GetNextBit b ops = Some (out, b')
    \<and> bb_inv b' \<and> bb_contents b' = ys \<and> bb_capacity b' = bb_capacity b"
  using assms by (rule bits.run_refines_spec)

definition zero_buffer :: BitBuffer_t where
  "zero_buffer = \<lparr>bb_Data = [0], bb_Elements = 0,
     bb_In = \<lparr>bp_CurrentByte = 0, bp_ByteMask = 0\<rparr>, bb_Out = \<lparr>bp_CurrentByte = 0, bp_ByteMask = 0\<rparr>\<rparr>"

theorem bit_buffer_refines_queue_witness:
  "\<exists>b'. run_queue BitBuffer_StoreNextBit BitBuffer_GetNextBit (BitBuffer_Init zero_buffer)
      [Ins True, Ins False, Rem, Ins True, Rem] = Some ([True, False], b')
    \<and> bb_inv b' \<and> bb_contents b' = [True] \<and> bb_capacity b' = bb_capacity (BitBuffer_Init zero_buffer)"
  using BitBuffer_Init_inv [of zero_buffer 1]
  by (intro bit_buffer_refines_queue)
    (simp_all add: zero_buffer_def bb_capacity_def, simp add: BitBuffer_Init_def)

text \<open>
  \<^verbatim>\<open>BitBuffer_Init\<close> does not reset a buffer that still holds bits: it leaves the data
  array as it is, and storing a zero bit never clears one.  After a one bit has been stored,
  re-initialising the buffer and storing a zero bit makes the next fetch return a one.
\<close>

theorem bit_buffer_init_keeps_stale_bits:
  "do { b \<leftarrow> BitBuffer_StoreNextBit (BitBuffer_Init zero_buffer) True;
        c \<leftarrow> BitBuffer_StoreNextBit (BitBuffer_Init b) False;
        map_option fst (BitBuffer_GetNextBit c) } = Some True"
  by code_simp

end
