(* ===== verification/Magstripe.thy ===== *)
theory Magstripe
  imports Bit_Buffer
begin

text \<open>
  The magnetic card reader of \<^verbatim>\<open>Projects/Magstripe/Magstripe.c\<close>: bits sampled from the three
  tracks of a card go into one bit buffer per track, and the HID report callback turns them
  into key presses, one report per call.  The card reader's pins are inputs of the model:
  \<open>readings\<close> is the sequence of values of \<^verbatim>\<open>MAG_PIN\<close>, one per call of
  \<^verbatim>\<open>Magstripe_GetStatus\<close>.
\<close>

section \<open>Configuration\<close>

definition MAG_T1_CLOCK :: u8 where "MAG_T1_CLOCK = push_bit 0 1"
definition MAG_T1_DATA :: u8 where "MAG_T1_DATA = push_bit 1 1"
definition MAG_T2_CLOCK :: u8 where "MAG_T2_CLOCK = push_bit 2 1"
definition MAG_T2_DATA :: u8 where "MAG_T2_DATA = push_bit 3 1"
definition MAG_T3_CLOCK :: u8 where "MAG_T3_CLOCK = push_bit 4 1"
definition MAG_T3_DATA :: u8 where "MAG_T3_DATA = push_bit 5 1"
definition MAG_CARDPRESENT :: u8 where "MAG_CARDPRESENT = push_bit 6 1"

definition MAG_MASK :: u8 where
  "MAG_MASK = MAG_T1_DATA OR MAG_T1_CLOCK OR MAG_T2_DATA OR MAG_T2_CLOCK
     OR MAG_T3_DATA OR MAG_T3_CLOCK OR MAG_CARDPRESENT"

definition TOTAL_TRACKS :: nat where "TOTAL_TRACKS = 3"

definition KEY_NONE :: u8 where "KEY_NONE = 0"
definition KEY_1 :: u8 where "KEY_1 = 30"
definition KEY_0 :: u8 where "KEY_0 = 39"
definition KEY_ENTER :: u8 where "KEY_ENTER = 40"

text \<open>Clock and data mask of each track.\<close>

definition TrackInfo :: "(u8 \<times> u8) list" where
  "TrackInfo = [(MAG_T1_CLOCK, MAG_T1_DATA), (MAG_T2_CLOCK, MAG_T2_DATA), (MAG_T3_CLOCK, MAG_T3_DATA)]"

section \<open>Reading a card\<close>

definition Magstripe_GetStatus :: "u8 \<Rightarrow> u8" where
  "Magstripe_GetStatus MAG_PIN = NOT MAG_PIN AND MAG_MASK"

record magstripe =
  ms_TrackDataBuffers :: "BitBuffer_t list"
  ms_CurrentTrackBuffer :: nat
  ms_IsKeyReleaseReport :: bool

text \<open>The body of the loop over the tracks, for one track.\<close>

definition sample_track :: "u8 \<times> u8 \<Rightarrow> u8 \<Rightarrow> u8 \<Rightarrow> BitBuffer_t \<Rightarrow> BitBuffer_t option" where
  "sample_track info Magstripe_Prev Magstripe_LCL buf =
     (let (ClockMask, DataMask) = info;
          DataPinLevel = (Magstripe_LCL AND DataMask \<noteq> 0);
          ClockPinLevel = (Magstripe_LCL AND ClockMask \<noteq> 0);
          ClockLevelChanged = ((Magstripe_LCL XOR Magstripe_Prev) AND ClockMask \<noteq> 0)
      in if ClockPinLevel \<and> ClockLevelChanged then BitBuffer_StoreNextBit buf DataPinLevel
         else Some buf)"

fun sample_tracks :: "(u8 \<times> u8) list \<Rightarrow> u8 \<Rightarrow> u8 \<Rightarrow> BitBuffer_t list \<Rightarrow> BitBuffer_t list option" where
  "sample_tracks (info # infos) prev lcl (buf # bufs) =
     do { buf' \<leftarrow> sample_track info prev lcl buf;
          bufs' \<leftarrow> sample_tracks infos prev lcl bufs;
          Some (buf' # bufs') }"
| "sample_tracks [] prev lcl bufs = Some bufs"
| "sample_tracks (info # infos) prev lcl [] = None"

text \<open>
  The polling loop.  Running out of readings while the card is still present is \<^term>\<open>None\<close>:
  the loop has not returned.
\<close>

fun read_loop :: "u8 \<Rightarrow> u8 list \<Rightarrow> BitBuffer_t list \<Rightarrow> BitBuffer_t list option" where
  "read_loop prev [] bufs = None"
| "read_loop prev (pin # pins) bufs =
     (let lcl = Magstripe_GetStatus pin
      in if lcl AND MAG_CARDPRESENT \<noteq> 0
         then do { bufs' \<leftarrow> sample_tracks TrackInfo prev lcl bufs; read_loop lcl pins bufs' }
         else Some bufs)"

definition ReadMagstripeData :: "u8 list \<Rightarrow> magstripe \<Rightarrow> magstripe option" where
  "ReadMagstripeData readings s =
     do { bufs \<leftarrow> read_loop 0 readings (ms_TrackDataBuffers s);
          Some (s\<lparr>ms_TrackDataBuffers := bufs, ms_CurrentTrackBuffer := 0\<rparr>) }"

section \<open>Sending key presses\<close>

text \<open>
  \<^verbatim>\<open>CALLBACK_HID_Device_CreateHIDReport\<close>: the first key code of the report and the new state.
  The report size is \<^verbatim>\<open>sizeof(USB_KeyboardReport_Data_t)\<close> and the result \<^verbatim>\<open>false\<close> in every
  case.
\<close>

definition CreateHIDReport :: "magstripe \<Rightarrow> (u8 \<times> magstripe) option" where
  "CreateHIDReport s =
     (let rel = (\<not> ms_IsKeyReleaseReport s); s = s\<lparr>ms_IsKeyReleaseReport := rel\<rparr>
      in if rel \<or> ms_CurrentTrackBuffer s = TOTAL_TRACKS then Some (KEY_NONE, s)
         else if \<not> ms_CurrentTrackBuffer s < length (ms_TrackDataBuffers s) then None
         else let buf = ms_TrackDataBuffers s ! ms_CurrentTrackBuffer s
              in if bb_Elements buf = 0
                 then Some (KEY_ENTER, s\<lparr>ms_CurrentTrackBuffer := ms_CurrentTrackBuffer s + 1\<rparr>)
                 else do { (b, buf') \<leftarrow> BitBuffer_GetNextBit buf;
                           Some (if b then KEY_1 else KEY_0,
                             s\<lparr>ms_TrackDataBuffers :=
                                 (ms_TrackDataBuffers s)[ms_CurrentTrackBuffer s := buf']\<rparr>) })"

fun send_reports :: "nat \<Rightarrow> magstripe \<Rightarrow> (u8 list \<times> magstripe) option" where
  "send_reports 0 s = Some ([], s)"
| "send_reports (Suc n) s =
     do { (k, s') \<leftarrow> CreateHIDReport s; (ks, s'') \<leftarrow> send_reports n s'; Some (k # ks, s'') }"

lemma send_reports_add:
  "send_reports (m + n) s =
     do { (ks, s') \<leftarrow> send_reports m s; (ls, s'') \<leftarrow> send_reports n s'; Some (ks @ ls, s'') }"
  by (induction m arbitrary: s) (auto split: prod.splits option.splits bind_splits)

section \<open>What a card reads as\<close>

text \<open>The bits a track delivers: its data line at every rising edge of its clock line.\<close>

fun track_bits :: "u8 \<times> u8 \<Rightarrow> u8 \<Rightarrow> u8 list \<Rightarrow> bool list" where
  "track_bits info prev [] = []"
| "track_bits info prev (pin # pins) =
     (let lcl = Magstripe_GetStatus pin
      in if lcl AND MAG_CARDPRESENT = 0 then []
         else (if lcl AND fst info \<noteq> 0 \<and> prev AND fst info = 0 then [lcl AND snd info \<noteq> 0] else [])
           @ track_bits info lcl pins)"

definition card_removed :: "u8 list \<Rightarrow> bool" where
  "card_removed readings \<longleftrightarrow> (\<exists>p\<in>set readings. Magstripe_GetStatus p AND MAG_CARDPRESENT = 0)"

definition track_ready :: "BitBuffer_t \<Rightarrow> bool list \<Rightarrow> bool" where
  "track_ready buf bs \<longleftrightarrow> bb_inv buf \<and> length (bb_contents buf) + length bs \<le> bb_capacity buf"

text \<open>A buffer that a swipe has filled: same capacity, the new bits behind the old ones.\<close>

definition filled :: "BitBuffer_t \<Rightarrow> bool list \<Rightarrow> BitBuffer_t \<Rightarrow> bool" where
  "filled buf bs buf' \<longleftrightarrow> bb_inv buf' \<and> bb_contents buf' = bb_contents buf @ bs
     \<and> bb_capacity buf' = bb_capacity buf"

lemma masks_single:
  "info \<in> set TrackInfo \<Longrightarrow> \<exists>k. fst info = 2 ^ k"
  by (auto simp: TrackInfo_def MAG_T1_CLOCK_def MAG_T2_CLOCK_def MAG_T3_CLOCK_def
      intro: exI [of _ "0::nat"] exI [of _ "2::nat"] exI [of _ "4::nat"])

lemma rising_edge:
  assumes "info \<in> set TrackInfo"
  shows "(lcl AND fst info \<noteq> 0 \<and> (lcl XOR prev) AND fst info \<noteq> 0)
     = (lcl AND fst info \<noteq> 0 \<and> prev AND fst info = 0)"
proof -
  obtain k where "fst info = 2 ^ k" using masks_single [OF assms] by blast
  then show ?thesis
    by (auto simp: and_exp_eq_0_iff_not_bit bit_simps)
qed

lemma sample_track_ok:
  assumes "info \<in> set TrackInfo"
    and "track_ready buf ((if lcl AND fst info \<noteq> 0 \<and> prev AND fst info = 0
                           then [lcl AND snd info \<noteq> 0] else []) @ bs)"
  shows "\<exists>buf'. sample_track info prev lcl buf = Some buf' \<and> track_ready buf' bs
    \<and> filled buf (if lcl AND fst info \<noteq> 0 \<and> prev AND fst info = 0
                  then [lcl AND snd info \<noteq> 0] else []) buf'"
proof (cases "lcl AND fst info \<noteq> 0 \<and> prev AND fst info = 0")
  case True
  with assms(2) have "bb_inv buf" "length (bb_contents buf) < bb_capacity buf"
    by (auto simp: track_ready_def)
  from bits.ins_ok [OF this, of "lcl AND snd info \<noteq> 0"] True assms rising_edge [OF assms(1), of lcl prev]
  show ?thesis
    by (auto simp: sample_track_def track_ready_def filled_def case_prod_beta Let_def)
next
  case False
  then show ?thesis
    using assms rising_edge [OF assms(1), of lcl prev]
    by (auto simp: sample_track_def track_ready_def filled_def case_prod_beta Let_def)
qed

lemma filled_trans: "filled a xs b \<Longrightarrow> filled b ys c \<Longrightarrow> filled a (xs @ ys) c"
  by (auto simp: filled_def)

lemma filled_refl: "track_ready a [] \<Longrightarrow> filled a [] a"
  by (auto simp: filled_def track_ready_def)

lemma read_loop_ok:
  assumes "card_removed readings"
    and "track_ready b1 (track_bits (TrackInfo ! 0) prev readings)"
    and "track_ready b2 (track_bits (TrackInfo ! 1) prev readings)"
    and "track_ready b3 (track_bits (TrackInfo ! 2) prev readings)"
  shows "\<exists>c1 c2 c3. read_loop prev readings [b1, b2, b3] = Some [c1, c2, c3]
    \<and> filled b1 (track_bits (TrackInfo ! 0) prev readings) c1
    \<and> filled b2 (track_bits (TrackInfo ! 1) prev readings) c2
    \<and> filled b3 (track_bits (TrackInfo ! 2) prev readings) c3"
  using assms
proof (induction readings arbitrary: prev b1 b2 b3)
  case Nil
  then show ?case by (simp add: card_removed_def)
next
  case (Cons pin pins)
  define lcl where "lcl = Magstripe_GetStatus pin"
  show ?case
  proof (cases "lcl AND MAG_CARDPRESENT = 0")
    case True
    then show ?thesis
      using Cons.prems by (auto simp: lcl_def [symmetric] Let_def filled_refl)
  next
    case False
    have infos: "TrackInfo = [TrackInfo ! 0, TrackInfo ! 1, TrackInfo ! 2]"
      by (simp add: TrackInfo_def)
    have mem: "TrackInfo ! 0 \<in> set TrackInfo" "TrackInfo ! 1 \<in> set TrackInfo"
      "TrackInfo ! 2 \<in> set TrackInfo"
      by (auto simp: TrackInfo_def)
    let ?new = "\<lambda>i. if lcl AND fst (TrackInfo ! i) \<noteq> 0 \<and> prev AND fst (TrackInfo ! i) = 0
                     then [lcl AND snd (TrackInfo ! i) \<noteq> 0] else []"
    let ?rest = "\<lambda>i. track_bits (TrackInfo ! i) lcl pins"
    have tb: "track_bits (TrackInfo ! i) prev (pin # pins) = ?new i @ ?rest i" for i
      using False by (simp add: lcl_def [symmetric] Let_def)
    obtain d1 where d1: "sample_track (TrackInfo ! 0) prev lcl b1 = Some d1"
      "track_ready d1 (?rest 0)" "filled b1 (?new 0) d1"
      using sample_track_ok [OF mem(1), of b1 lcl prev "?rest 0"] Cons.prems(2) unfolding tb by blast
    obtain d2 where d2: "sample_track (TrackInfo ! 1) prev lcl b2 = Some d2"
      "track_ready d2 (?rest 1)" "filled b2 (?new 1) d2"
      using sample_track_ok [OF mem(2), of b2 lcl prev "?rest 1"] Cons.prems(3) unfolding tb by blast
    obtain d3 where d3: "sample_track (TrackInfo ! 2) prev lcl b3 = Some d3"
      "track_ready d3 (?rest 2)" "filled b3 (?new 2) d3"
      using sample_track_ok [OF mem(3), of b3 lcl prev "?rest 2"] Cons.prems(4) unfolding tb by blast
    have "card_removed pins"
      using Cons.prems(1) False by (auto simp: card_removed_def lcl_def)
    from Cons.IH [OF this d1(2) d2(2) d3(2)]
    obtain c1 c2 c3 where c: "read_loop lcl pins [d1, d2, d3] = Some [c1, c2, c3]"
      "filled d1 (?rest 0) c1" "filled d2 (?rest 1) c2" "filled d3 (?rest 2) c3"
      by blast
    have "sample_tracks TrackInfo prev lcl [b1, b2, b3] = Some [d1, d2, d3]"
      by (subst infos) (simp add: d1(1) d2(1) [unfolded One_nat_def] d3(1))
    then have "read_loop prev (pin # pins) [b1, b2, b3] = Some [c1, c2, c3]"
      using False c(1) by (simp add: lcl_def [symmetric] Let_def)
    then show ?thesis
      unfolding tb using filled_trans d1(3) d2(3) d3(3) c(2-4) by blast
  qed
qed

section \<open>What is typed\<close>

definition bit_key :: "bool \<Rightarrow> u8" where
  "bit_key b = (if b then KEY_1 else KEY_0)"

definition with_releases :: "u8 list \<Rightarrow> u8 list" where
  "with_releases ks = concat (map (\<lambda>k. [KEY_NONE, k]) ks)"

lemma with_releases_simps [simp]:
  "with_releases [] = []"
  "with_releases (k # ks) = KEY_NONE # k # with_releases ks"
  "with_releases (ks @ ls) = with_releases ks @ with_releases ls"
  by (simp_all add: with_releases_def)

lemma Elements_contents: "bb_Elements b = 0 \<longleftrightarrow> bb_contents b = []"
  by (simp add: bb_contents_def slice_def unat_eq_zero)

text \<open>Two reports type one bit of the current track.\<close>

lemma type_bit:
  assumes "ms_CurrentTrackBuffer s < length (ms_TrackDataBuffers s)"
    and "length (ms_TrackDataBuffers s) = TOTAL_TRACKS" and "\<not> ms_IsKeyReleaseReport s"
    and "bb_inv (ms_TrackDataBuffers s ! ms_CurrentTrackBuffer s)"
    and "bb_contents (ms_TrackDataBuffers s ! ms_CurrentTrackBuffer s) = b # bs"
  shows "\<exists>buf'. send_reports 2 s = Some ([KEY_NONE, bit_key b],
      s\<lparr>ms_TrackDataBuffers := (ms_TrackDataBuffers s)[ms_CurrentTrackBuffer s := buf']\<rparr>)
    \<and> bb_inv buf' \<and> bb_contents buf' = bs"
proof -
  obtain buf' where "BitBuffer_GetNextBit (ms_TrackDataBuffers s ! ms_CurrentTrackBuffer s) = Some (b, buf')"
    "bb_inv buf'" "bb_contents buf' = bs"
    using bits.rem_ok [OF assms(4,5)] by blast
  moreover have "s\<lparr>ms_IsKeyReleaseReport := False\<rparr> = s" using assms(3) by (cases s) simp
  ultimately show ?thesis
    using assms Elements_contents [of "ms_TrackDataBuffers s ! ms_CurrentTrackBuffer s"]
    by (intro exI [of _ buf']) (auto simp: numeral_2_eq_2 CreateHIDReport_def Let_def bit_key_def)
qed

lemma type_enter:
  assumes "ms_CurrentTrackBuffer s < length (ms_TrackDataBuffers s)"
    and "length (ms_TrackDataBuffers s) = TOTAL_TRACKS" and "\<not> ms_IsKeyReleaseReport s"
    and "bb_contents (ms_TrackDataBuffers s ! ms_CurrentTrackBuffer s) = []"
  shows "send_reports 2 s = Some ([KEY_NONE, KEY_ENTER],
      s\<lparr>ms_CurrentTrackBuffer := ms_CurrentTrackBuffer s + 1\<rparr>)"
proof -
  have "s\<lparr>ms_IsKeyReleaseReport := False\<rparr> = s" using assms(3) by (cases s) simp
  then show ?thesis
    using assms Elements_contents [of "ms_TrackDataBuffers s ! ms_CurrentTrackBuffer s"]
    by (auto simp: numeral_2_eq_2 CreateHIDReport_def Let_def)
qed

text \<open>One track: its bits, then the enter key.\<close>

lemma type_track:
  assumes "ms_CurrentTrackBuffer s < length (ms_TrackDataBuffers s)"
    and "length (ms_TrackDataBuffers s) = TOTAL_TRACKS" and "\<not> ms_IsKeyReleaseReport s"
    and "bb_inv (ms_TrackDataBuffers s ! ms_CurrentTrackBuffer s)"
    and "bb_contents (ms_TrackDataBuffers s ! ms_CurrentTrackBuffer s) = bs"
  shows "\<exists>buf'. send_reports (2 * Suc (length bs)) s
    = Some (with_releases (map bit_key bs @ [KEY_ENTER]),
        s\<lparr>ms_TrackDataBuffers := (ms_TrackDataBuffers s)[ms_CurrentTrackBuffer s := buf'],
          ms_CurrentTrackBuffer := ms_CurrentTrackBuffer s + 1\<rparr>)
    \<and> bb_inv buf' \<and> bb_contents buf' = []"
  using assms
proof (induction bs arbitrary: s)
  case Nil
  then show ?case
    using type_enter [of s]
    by (intro exI [of _ "ms_TrackDataBuffers s ! ms_CurrentTrackBuffer s"]) simp
next
  case (Cons b bs)
  obtain buf' where one: "send_reports 2 s = Some ([KEY_NONE, bit_key b],
      s\<lparr>ms_TrackDataBuffers := (ms_TrackDataBuffers s)[ms_CurrentTrackBuffer s := buf']\<rparr>)"
    and buf': "bb_inv buf'" "bb_contents buf' = bs"
    using type_bit [OF Cons.prems] by blast
  let ?s = "s\<lparr>ms_TrackDataBuffers := (ms_TrackDataBuffers s)[ms_CurrentTrackBuffer s := buf']\<rparr>"
  obtain buf2 where rest: "send_reports (2 * Suc (length bs)) ?s
      = Some (with_releases (map bit_key bs @ [KEY_ENTER]),
          ?s\<lparr>ms_TrackDataBuffers := (ms_TrackDataBuffers ?s)[ms_CurrentTrackBuffer ?s := buf2],
             ms_CurrentTrackBuffer := ms_CurrentTrackBuffer ?s + 1\<rparr>)"
    and buf2: "bb_inv buf2" "bb_contents buf2 = []"
    using Cons.IH [of ?s] Cons.prems(1-3) buf' by auto
  have "2 * Suc (length (b # bs)) = 2 + 2 * Suc (length bs)" by simp
  then have "send_reports (2 * Suc (length (b # bs))) s
      = Some ([KEY_NONE, bit_key b] @ with_releases (map bit_key bs @ [KEY_ENTER]),
          ?s\<lparr>ms_TrackDataBuffers := (ms_TrackDataBuffers ?s)[ms_CurrentTrackBuffer ?s := buf2],
             ms_CurrentTrackBuffer := ms_CurrentTrackBuffer ?s + 1\<rparr>)"
    by (simp only: send_reports_add one rest bind.bind_lunit prod.case)
  with buf2 show ?case by (intro exI [of _ buf2]) simp
qed

lemma type_card:
  assumes "ms_TrackDataBuffers s = [b1, b2, b3]" "ms_CurrentTrackBuffer s = 0" "\<not> ms_IsKeyReleaseReport s"
    and "bb_inv b1" "bb_inv b2" "bb_inv b3"
    and "bb_contents b1 = t1" "bb_contents b2 = t2" "bb_contents b3 = t3"
  shows "\<exists>s'. send_reports (2 * (length t1 + length t2 + length t3 + 3)) s
    = Some (with_releases (map bit_key t1 @ KEY_ENTER # map bit_key t2 @ KEY_ENTER #
          map bit_key t3 @ [KEY_ENTER]), s')
    \<and> ms_CurrentTrackBuffer s' = TOTAL_TRACKS"
proof -
  obtain c1 where 1: "send_reports (2 * Suc (length t1)) s
      = Some (with_releases (map bit_key t1 @ [KEY_ENTER]),
          s\<lparr>ms_TrackDataBuffers := [c1, b2, b3], ms_CurrentTrackBuffer := Suc 0\<rparr>)"
    using type_track [of s t1] assms by (auto simp: TOTAL_TRACKS_def)
  let ?s1 = "s\<lparr>ms_TrackDataBuffers := [c1, b2, b3], ms_CurrentTrackBuffer := Suc 0\<rparr>"
  obtain c2 where 2: "send_reports (2 * Suc (length t2)) ?s1
      = Some (with_releases (map bit_key t2 @ [KEY_ENTER]),
          s\<lparr>ms_TrackDataBuffers := [c1, c2, b3], ms_CurrentTrackBuffer := Suc (Suc 0)\<rparr>)"
    using type_track [of ?s1 t2] assms by (auto simp: TOTAL_TRACKS_def)
  let ?s2 = "s\<lparr>ms_TrackDataBuffers := [c1, c2, b3], ms_CurrentTrackBuffer := Suc (Suc 0)\<rparr>"
  obtain c3 where 3: "send_reports (2 * Suc (length t3)) ?s2
      = Some (with_releases (map bit_key t3 @ [KEY_ENTER]),
          s\<lparr>ms_TrackDataBuffers := [c1, c2, c3], ms_CurrentTrackBuffer := Suc (Suc (Suc 0))\<rparr>)"
    using type_track [of ?s2 t3] assms by (auto simp: TOTAL_TRACKS_def)
  have "2 * (length t1 + length t2 + length t3 + 3)
      = 2 * Suc (length t1) + (2 * Suc (length t2) + 2 * Suc (length t3))" by simp
  then show ?thesis
    by (simp only: send_reports_add 1 2 3 bind.bind_lunit prod.case) (simp add: TOTAL_TRACKS_def)
qed

section \<open>Properties\<close>

text \<open>
  C3. From a swipe to the keyboard: with three initialised buffers that have room for the
  bits of the card, reading the card returns, and the reports that follow type, for every
  track in turn, exactly the track's data bits sampled at the rising edges of its clock,
  then the enter key, with a release report before every key.
\<close>

theorem swipe_types_card:
  assumes "card_removed readings" "ms_TrackDataBuffers s = [b1, b2, b3]" "\<not> ms_IsKeyReleaseReport s"
    and "bb_contents b1 = []" "bb_contents b2 = []" "bb_contents b3 = []"
    and "track_ready b1 (track_bits (TrackInfo ! 0) 0 readings)"
    and "track_ready b2 (track_bits (TrackInfo ! 1) 0 readings)"
    and "track_ready b3 (track_bits (TrackInfo ! 2) 0 readings)"
  defines "keys \<equiv> \<lambda>i. map bit_key (track_bits (TrackInfo ! i) 0 readings)"
  shows "\<exists>s' s''. ReadMagstripeData readings s = Some s'
    \<and> send_reports (2 * (length (keys 0) + length (keys 1) + length (keys 2) + 3)) s'
      = Some (with_releases (keys 0 @ KEY_ENTER # keys 1 @ KEY_ENTER # keys 2 @ [KEY_ENTER]), s'')
    \<and> ms_CurrentTrackBuffer s'' = TOTAL_TRACKS"
proof -
  obtain c1 c2 c3 where c: "read_loop 0 readings [b1, b2, b3] = Some [c1, c2, c3]"
    "filled b1 (track_bits (TrackInfo ! 0) 0 readings) c1"
    "filled b2 (track_bits (TrackInfo ! 1) 0 readings) c2"
    "filled b3 (track_bits (TrackInfo ! 2) 0 readings) c3"
    using read_loop_ok [OF assms(1,7,8,9)] by blast
  let ?s' = "s\<lparr>ms_TrackDataBuffers := [c1, c2, c3], ms_CurrentTrackBuffer := 0\<rparr>"
  have "ReadMagstripeData readings s = Some ?s'"
    using assms(2) c(1) by (simp add: ReadMagstripeData_def)
  moreover have "\<exists>s''. send_reports (2 * (length (keys 0) + length (keys 1) + length (keys 2) + 3)) ?s'
      = Some (with_releases (keys 0 @ KEY_ENTER # keys 1 @ KEY_ENTER # keys 2 @ [KEY_ENTER]), s'')
    \<and> ms_CurrentTrackBuffer s'' = TOTAL_TRACKS"
    unfolding keys_def length_map
    using c(2-4) assms(3-6) by (intro type_card) (auto simp: filled_def)
  ultimately show ?thesis by blast
qed

definition small_buffer :: BitBuffer_t where
  "small_buffer = BitBuffer_Init \<lparr>bb_Data = [0], bb_Elements = 0,
     bb_In = \<lparr>bp_CurrentByte = 0, bp_ByteMask = 0\<rparr>, bb_Out = \<lparr>bp_CurrentByte = 0, bp_ByteMask = 0\<rparr>\<rparr>"

lemma small_buffer_ready: "length bs \<le> 8 \<Longrightarrow> track_ready small_buffer bs"
  and small_buffer_empty: "bb_contents small_buffer = []"
  using BitBuffer_Init_inv [of "\<lparr>bb_Data = [0], bb_Elements = 0,
     bb_In = \<lparr>bp_CurrentByte = 0, bp_ByteMask = 0\<rparr>, bb_Out = \<lparr>bp_CurrentByte = 0, bp_ByteMask = 0\<rparr>\<rparr>" 1]
  by (simp_all add: track_ready_def small_buffer_def bb_capacity_def BitBuffer_Init_def)

theorem swipe_types_card_witness:
  "\<exists>s' s''. ReadMagstripeData [0xBC, 0xFF]
        \<lparr>ms_TrackDataBuffers = [small_buffer, small_buffer, small_buffer],
         ms_CurrentTrackBuffer = 3, ms_IsKeyReleaseReport = False\<rparr> = Some s'
    \<and> send_reports 8 s' = Some ([KEY_NONE, KEY_1, KEY_NONE, KEY_ENTER, KEY_NONE, KEY_ENTER,
        KEY_NONE, KEY_ENTER], s'')
    \<and> ms_CurrentTrackBuffer s'' = TOTAL_TRACKS"
proof -
  have bits: "track_bits (TrackInfo ! 0) 0 [0xBC, 0xFF] = [True]"
    "track_bits (TrackInfo ! 1) 0 [0xBC, 0xFF] = []" "track_bits (TrackInfo ! 2) 0 [0xBC, 0xFF] = []"
    by code_simp+
  have "card_removed [0xBC, 0xFF]" by code_simp
  from swipe_types_card [OF this, of "\<lparr>ms_TrackDataBuffers = [small_buffer, small_buffer, small_buffer],
         ms_CurrentTrackBuffer = 3, ms_IsKeyReleaseReport = False\<rparr>", unfolded bits]
  show ?thesis
    by (simp add: small_buffer_ready small_buffer_empty bit_key_def del: send_reports.simps)
qed

end
