(* ===== verification/Serial_Protocol.thy ===== *)
theory Serial_Protocol
  imports Complex_Main Prelude
begin

text \<open>
  The Mighty Mouse serial link.  On one side is the Arduino sketch
  \<^verbatim>\<open>SerialProtocol/SerialProtocol.ino\<close>: a byte-driven state machine that turns frames
  \<^verbatim>\<open>255, command, payload\<close> into calls of the Arduino mouse and keyboard libraries.  On the
  other side is the Android sender: \<^verbatim>\<open>DispatcherSingleton.java\<close>, which builds the frames,
  \<^verbatim>\<open>WorkerClass.write\<close>, which puts them on the wire, and the scaling step of the track pad
  thread \<^verbatim>\<open>TrackPad.MouseSender\<close>, which fills the mouse bytes.

  The sketch stores each received byte in a plain \<^verbatim>\<open>char\<close> before it compares it with 255,
  so the signedness of \<^verbatim>\<open>char\<close> is a parameter (\<open>signed_char\<close>) of the model of the sketch.
  The calls the sketch makes on the Arduino libraries are the events of a trace.  Of these
  libraries the model uses what their reference says of the arguments: \<^verbatim>\<open>Mouse.click()\<close> without an
  argument clicks the left button, and the arguments of \<^verbatim>\<open>Mouse.move\<close> are signed characters.
\<close>

section \<open>The Arduino sketch\<close>

text \<open>Special bytes and state numbers of the sketch.\<close>

definition START_BYTE :: int where
  "START_BYTE = 255"

definition CLICK_BEGIN :: int where
  "CLICK_BEGIN = 67"

definition KEY_BEGIN :: int where
  "KEY_BEGIN = 75"

definition MOUSE_BEGIN :: int where
  "MOUSE_BEGIN = 77"

definition WAIT_FOR_START :: int where
  "WAIT_FOR_START = 0"

definition STARTED :: int where
  "STARTED = 1"

definition CLICK_GET_0 :: int where
  "CLICK_GET_0 = 10"

definition KEY_GET_0 :: int where
  "KEY_GET_0 = 20"

definition MOUSE_GET_0 :: int where
  "MOUSE_GET_0 = 30"

definition MOUSE_GET_1 :: int where
  "MOUSE_GET_1 = 31"

definition MOUSE_GET_2 :: int where
  "MOUSE_GET_2 = 32"

lemmas sketch_consts = START_BYTE_def CLICK_BEGIN_def KEY_BEGIN_def MOUSE_BEGIN_def
  WAIT_FOR_START_def STARTED_def CLICK_GET_0_def KEY_GET_0_def MOUSE_GET_0_def
  MOUSE_GET_1_def MOUSE_GET_2_def

text \<open>The three globals of the sketch, and the library calls it makes.\<close>

record sketch =
  currentState :: int
  mouseX :: int
  mouseY :: int

datatype mouse_button = MOUSE_LEFT | MOUSE_RIGHT

datatype arduino_call =
    Serial_begin int
  | Serial1_begin int
  | Keyboard_begin
  | Mouse_begin
  | Mouse_click mouse_button
  | Mouse_move int int int
  | Keyboard_print u8
  | Serial1_print string
  | Serial1_print_int int
  | Serial1_println string

definition sketch_init :: sketch where
  "sketch_init = \<lparr>currentState = WAIT_FOR_START, mouseX = 0, mouseY = 0\<rparr>"

definition setup_sketch :: "arduino_call list" where
  "setup_sketch = [Serial_begin 9600, Serial1_begin 9600, Keyboard_begin, Mouse_begin]"

definition printError :: "int \<Rightarrow> int \<Rightarrow> sketch \<Rightarrow> sketch \<times> arduino_call list" where
  "printError location intVal s =
     (s\<lparr>currentState := WAIT_FOR_START\<rparr>,
      [Serial1_print ''E<'', Serial1_print_int (currentState s), Serial1_print '','',
       Serial1_print_int location, Serial1_print '','', Serial1_print_int intVal,
       Serial1_println ''>''])"

text \<open>The conversion \<^verbatim>\<open>(int) inChar\<close> of a received byte.\<close>

definition char_to_int :: "bool \<Rightarrow> u8 \<Rightarrow> int" where
  "char_to_int signed_char b = (if signed_char then sint b else uint b)"

text \<open>The conversion of an \<^verbatim>\<open>int\<close> to the parameter type of \<^verbatim>\<open>Mouse.move\<close>.\<close>

definition signed_char_arg :: "int \<Rightarrow> int" where
  "signed_char_arg i = sint (word_of_int i :: u8)"

text \<open>
  One pass of \<^verbatim>\<open>loop\<close>; the argument is what \<^verbatim>\<open>Serial1\<close> has pending: nothing, or the next
  byte.
\<close>

definition loop :: "bool \<Rightarrow> u8 option \<Rightarrow> sketch \<Rightarrow> sketch \<times> arduino_call list" where
  "loop signed_char pending s =
     (case pending of
        None \<Rightarrow> (s, [])
      | Some inChar \<Rightarrow>
          let intVal = char_to_int signed_char inChar in
          if intVal = START_BYTE then (s\<lparr>currentState := STARTED\<rparr>, [])
          else if currentState s = WAIT_FOR_START then printError 0 intVal s
          else if currentState s = STARTED then
            (if intVal = CLICK_BEGIN then (s\<lparr>currentState := CLICK_GET_0\<rparr>, [])
             else if intVal = KEY_BEGIN then (s\<lparr>currentState := KEY_GET_0\<rparr>, [])
             else if intVal = MOUSE_BEGIN then (s\<lparr>currentState := MOUSE_GET_0\<rparr>, [])
             else printError 5 intVal s)
          else if currentState s = CLICK_GET_0 then
            (s\<lparr>currentState := WAIT_FOR_START\<rparr>, [Mouse_click MOUSE_LEFT])
          else if currentState s = KEY_GET_0 then
            (s\<lparr>currentState := WAIT_FOR_START\<rparr>, [Keyboard_print inChar])
          else if currentState s = MOUSE_GET_0 then
            (s\<lparr>mouseX := intVal, currentState := MOUSE_GET_1\<rparr>, [])
          else if currentState s = MOUSE_GET_1 then
            (s\<lparr>mouseY := intVal, currentState := MOUSE_GET_2\<rparr>, [])
          else if currentState s = MOUSE_GET_2 then
            (s\<lparr>mouseX := 0, mouseY := 0, currentState := WAIT_FOR_START\<rparr>,
             [Mouse_move (signed_char_arg (mouseX s)) (signed_char_arg (mouseY s)) (signed_char_arg intVal)])
          else printError 10 intVal s)"

text \<open>The sketch fed with a sequence of bytes: the final state and the trace of calls.\<close>

fun sketch_run :: "bool \<Rightarrow> u8 list \<Rightarrow> sketch \<Rightarrow> sketch \<times> arduino_call list" where
  "sketch_run sc [] s = (s, [])"
| "sketch_run sc (b # bs) s =
     (let (s1, t1) = loop sc (Some b) s; (s2, t2) = sketch_run sc bs s1 in (s2, t1 @ t2))"

section \<open>The Android sender\<close>

record dispatcher =
  keyBytes :: bytes
  mouseBytes :: bytes
  clickBytes :: bytes
  mState :: int
  wire :: bytes

definition STATE_CONNECTED :: int where
  "STATE_CONNECTED = 3"

definition dispatcher_init :: "int \<Rightarrow> dispatcher" where
  "dispatcher_init st =
     \<lparr>keyBytes = [0], mouseBytes = [0, 0, 0], clickBytes = [0], mState = st, wire = []\<rparr>"

text \<open>\<^verbatim>\<open>WorkerClass.write\<close> drops its argument unless a connection is up.\<close>

definition worker_write :: "bytes \<Rightarrow> dispatcher \<Rightarrow> dispatcher" where
  "worker_write out d =
     (if mState d \<noteq> STATE_CONNECTED then d else d\<lparr>wire := wire d @ out\<rparr>)"

definition sendByte :: "bytes \<Rightarrow> dispatcher \<Rightarrow> dispatcher" where
  "sendByte toSend d = (if mState d \<noteq> STATE_CONNECTED then d else worker_write toSend d)"

definition sendDelimiter :: "dispatcher \<Rightarrow> dispatcher" where
  "sendDelimiter d = sendByte [255] d"

definition sendKeyboard :: "dispatcher \<Rightarrow> dispatcher" where
  "sendKeyboard d = (let d = sendDelimiter d; d = sendByte [75] d in sendByte (keyBytes d) d)"

definition sendMouse :: "dispatcher \<Rightarrow> dispatcher" where
  "sendMouse d = (let d = sendDelimiter d; d = sendByte [77] d in sendByte (mouseBytes d) d)"

definition sendClick :: "dispatcher \<Rightarrow> dispatcher" where
  "sendClick d = (let d = sendDelimiter d; d = sendByte [67] d in sendByte (clickBytes d) d)"

text \<open>
  The setters copy a fixed number of bytes; a source array that is too short makes Java throw
  (\<^term>\<open>None\<close>).
\<close>

definition copy_first :: "nat \<Rightarrow> bytes \<Rightarrow> bytes \<Rightarrow> bytes option" where
  "copy_first n src dst = (if n \<le> length src then Some (take n src @ drop n dst) else None)"

definition setClickBytes :: "bytes \<Rightarrow> dispatcher \<Rightarrow> dispatcher option" where
  "setClickBytes bs d = do {
     c \<leftarrow> copy_first 1 bs (clickBytes d);
     Some (d\<lparr>clickBytes := c\<rparr>)
   }"

definition setMouseBytes :: "bytes \<Rightarrow> dispatcher \<Rightarrow> dispatcher option" where
  "setMouseBytes bs d = do {
     m \<leftarrow> copy_first 3 bs (mouseBytes d);
     Some (d\<lparr>mouseBytes := m\<rparr>)
   }"

definition setKeyBytes :: "bytes \<Rightarrow> dispatcher \<Rightarrow> dispatcher option" where
  "setKeyBytes bs d = do {
     k \<leftarrow> copy_first 1 bs (keyBytes d);
     Some (d\<lparr>keyBytes := k\<rparr>)
   }"

definition sendKeyBytes :: "bytes \<Rightarrow> dispatcher \<Rightarrow> dispatcher option" where
  "sendKeyBytes bs d = do { d \<leftarrow> setKeyBytes bs d; Some (sendKeyboard d) }"

definition sendLeftClick :: "dispatcher \<Rightarrow> dispatcher option" where
  "sendLeftClick d = do { d \<leftarrow> setClickBytes [76] d; Some (sendClick d) }"

definition sendRightClick :: "dispatcher \<Rightarrow> dispatcher option" where
  "sendRightClick d = do { d \<leftarrow> setClickBytes [82] d; Some (sendClick d) }"

definition sendDelete :: "dispatcher \<Rightarrow> dispatcher option" where
  "sendDelete d = do { d \<leftarrow> setKeyBytes [178] d; Some (sendKeyboard d) }"

definition sendEnter :: "dispatcher \<Rightarrow> dispatcher option" where
  "sendEnter d = do { d \<leftarrow> setKeyBytes [176] d; Some (sendKeyboard d) }"

text \<open>Java characters are 16 bits wide; the cast \<^verbatim>\<open>(byte) c\<close> keeps the low eight.\<close>

fun sendString :: "16 word list \<Rightarrow> dispatcher \<Rightarrow> dispatcher" where
  "sendString [] d = d"
| "sendString (c # cs) d = sendString cs (sendKeyboard (d\<lparr>keyBytes := (keyBytes d)[0 := ucast c]\<rparr>))"

text \<open>
  \<^verbatim>\<open>SendFileTask.doInBackground\<close>.  Each pass of the loop observes one result of
  \<^verbatim>\<open>FileReader.read\<close>, whether the sleep was interrupted, and the cancel flag.  A file whose
  observations run out leaves the task still running (\<^term>\<open>None\<close>).
\<close>

datatype read_result = Read_char "16 word" | Read_eof | Read_ioerror

datatype file_result = SENT_SUCCESSFULLY | EXCEPTION_CAUGHT | USER_CANCELED

record file_pass =
  fp_read :: read_result
  fp_interrupted :: bool
  fp_canceled :: bool

definition read_int :: "read_result \<Rightarrow> int option" where
  "read_int r = (case r of Read_char c \<Rightarrow> Some (uint c) | Read_eof \<Rightarrow> Some (- 1) | Read_ioerror \<Rightarrow> None)"

fun doInBackground :: "file_pass list \<Rightarrow> dispatcher \<Rightarrow> dispatcher \<times> file_result option" where
  "doInBackground [] d = (d, None)"
| "doInBackground (p # ps) d =
     (case read_int (fp_read p) of
        None \<Rightarrow> (d, Some EXCEPTION_CAUGHT)
      | Some r \<Rightarrow>
          let charToSend = word_of_int r :: u8;
              d1 = sendKeyboard (d\<lparr>keyBytes := (keyBytes d)[0 := charToSend]\<rparr>) in
          if fp_interrupted p then (d1, Some EXCEPTION_CAUGHT)
          else if \<not> fp_canceled p \<and> sint charToSend \<noteq> - 1 then doInBackground ps d1
          else (d1, Some (if fp_canceled p then USER_CANCELED else SENT_SUCCESSFULLY)))"

text \<open>
  The arithmetic of one pass of \<^verbatim>\<open>MouseSender.run\<close> on one axis.  A finite \<^verbatim>\<open>float\<close> is a rational
  number; the model leaves out infinities and NaN.  \<^verbatim>\<open>Math.round\<close> rounds to the nearest integer, halves upwards, and
  saturates at the bounds of a 32-bit \<^verbatim>\<open>int\<close>; negation wraps.
\<close>

definition min_step :: "rat \<Rightarrow> rat" where
  "min_step t =
     (let t = (if t < 1 \<and> t > 0 then 1 else t) in if t > - 1 \<and> t < 0 then - 1 else t)"

definition Math_round :: "rat \<Rightarrow> 32 word" where
  "Math_round x = word_of_int (max (- (2 ^ 31)) (min (2 ^ 31 - 1) \<lfloor>x + 1 / 2\<rfloor>))"

definition clamp_vel :: "32 word \<Rightarrow> 32 word" where
  "clamp_vel v = (if sint v > 127 then 127 else if sint v < - 127 then - 127 else v)"

definition axis_vel :: "rat \<Rightarrow> 32 word" where
  "axis_vel t = clamp_vel (- Math_round t)"

record track_pad =
  mRunningTotalX :: rat
  mRunningTotalY :: rat
  tp_chat :: bool

text \<open>
  The body of the loop of \<^verbatim>\<open>MouseSender.run\<close>: send what has built up, then clear it.  Only the
  clearing holds the lock, so touch events come in between: \<open>touch i\<close> is what they leave in the totals
  before the \<open>i\<close>-th group of statements, if there are any.  The start positions and times the pass
  also resets feed only values that are logged or never used, so the record leaves them out;
  \<open>tp_chat\<close> says that \<^verbatim>\<open>mChat\<close> is not null.
\<close>

definition touched :: "(rat \<times> rat) option \<Rightarrow> track_pad \<Rightarrow> track_pad" where
  "touched e tp = (case e of None \<Rightarrow> tp | Some (x, y) \<Rightarrow> tp\<lparr>mRunningTotalX := x, mRunningTotalY := y\<rparr>)"

definition mouse_sender_pass ::
  "(nat \<Rightarrow> (rat \<times> rat) option) \<Rightarrow> track_pad \<times> dispatcher \<Rightarrow> (track_pad \<times> dispatcher) option" where
  "mouse_sender_pass touch st =
     (let (tp, d) = st; tp = touched (touch 0) tp in
      if mRunningTotalX tp \<noteq> 0 \<or> mRunningTotalY tp \<noteq> 0 then do {
        let tp = touched (touch 1) tp;
        let tp = tp\<lparr>mRunningTotalX := min_step (mRunningTotalX tp)\<rparr>;
        let tp = touched (touch 2) tp;
        let tp = tp\<lparr>mRunningTotalY := min_step (mRunningTotalY tp)\<rparr>;
        let tp = touched (touch 3) tp;
        let xVel = axis_vel (mRunningTotalX tp);
        let tp = touched (touch 4) tp;
        let yVel = axis_vel (mRunningTotalY tp);
        d \<leftarrow> setMouseBytes [ucast (- xVel), ucast (- yVel), 0] d;
        let d = (if tp_chat tp then sendMouse d else d);
        let tp = touched (touch 5) tp;
        Some (tp\<lparr>mRunningTotalX := 0, mRunningTotalY := 0\<rparr>, d)
      }
      else Some (tp, d))"

section \<open>Requests of the application and their meaning\<close>

datatype app_request =
    Req_string "16 word list"
  | Req_keys bytes
  | Req_mouse bytes
  | Req_left
  | Req_right
  | Req_delete
  | Req_enter

definition app_step :: "app_request \<Rightarrow> dispatcher \<Rightarrow> dispatcher option" where
  "app_step r d =
     (case r of
        Req_string cs \<Rightarrow> Some (sendString cs d)
      | Req_keys bs \<Rightarrow> sendKeyBytes bs d
      | Req_mouse bs \<Rightarrow> do { d \<leftarrow> setMouseBytes bs d; Some (sendMouse d) }
      | Req_left \<Rightarrow> sendLeftClick d
      | Req_right \<Rightarrow> sendRightClick d
      | Req_delete \<Rightarrow> sendDelete d
      | Req_enter \<Rightarrow> sendEnter d)"

fun app_run :: "app_request list \<Rightarrow> dispatcher \<Rightarrow> dispatcher option" where
  "app_run [] d = Some d"
| "app_run (r # rs) d = do { d \<leftarrow> app_step r d; app_run rs d }"

text \<open>
  What the user asked for, as calls on the host computer (the bytes of a movement are signed, as in
  Java), the frame that carries it, and when a request can be carried: it stays clear of the
  reserved byte 255 and of short arrays, and it is not a right click, for which the sketch has no call.
\<close>

fun request_calls :: "app_request \<Rightarrow> arduino_call list" where
  "request_calls (Req_string cs) = map (\<lambda>c. Keyboard_print (ucast c)) cs"
| "request_calls (Req_keys bs) = [Keyboard_print (bs ! 0)]"
| "request_calls (Req_mouse bs) = [Mouse_move (sint (bs ! 0)) (sint (bs ! 1)) (sint (bs ! 2))]"
| "request_calls Req_left = [Mouse_click MOUSE_LEFT]"
| "request_calls Req_right = [Mouse_click MOUSE_RIGHT]"
| "request_calls Req_delete = [Keyboard_print 178]"
| "request_calls Req_enter = [Keyboard_print 176]"

fun request_frames :: "app_request \<Rightarrow> bytes" where
  "request_frames (Req_string cs) = concat (map (\<lambda>c. [255, 75, ucast c]) cs)"
| "request_frames (Req_keys bs) = [255, 75, bs ! 0]"
| "request_frames (Req_mouse bs) = [255, 77, bs ! 0, bs ! 1, bs ! 2]"
| "request_frames Req_left = [255, 67, 76]"
| "request_frames Req_right = [255, 67, 82]"
| "request_frames Req_delete = [255, 75, 178]"
| "request_frames Req_enter = [255, 75, 176]"

fun request_ok :: "app_request \<Rightarrow> bool" where
  "request_ok (Req_string cs) = list_all (\<lambda>c. ucast c \<noteq> (255 :: u8)) cs"
| "request_ok (Req_keys bs) = (1 \<le> length bs \<and> bs ! 0 \<noteq> 255)"
| "request_ok (Req_mouse bs) = (3 \<le> length bs \<and> 255 \<notin> set (take 3 bs))"
| "request_ok Req_right = False"
| "request_ok _ = True"

text \<open>The buffers of the dispatcher keep their sizes.\<close>

definition dispatcher_inv :: "dispatcher \<Rightarrow> bool" where
  "dispatcher_inv d \<longleftrightarrow>
     length (keyBytes d) = 1 \<and> length (mouseBytes d) = 3 \<and> length (clickBytes d) = 1"

section \<open>Lemmas\<close>

lemma sketch_run_append:
  "sketch_run sc (as @ bs) s =
     (let (s1, t1) = sketch_run sc as s; (s2, t2) = sketch_run sc bs s1 in (s2, t1 @ t2))"
  by (induction as arbitrary: s) (auto simp: split_beta Let_def)

lemma uint_eq_255: "uint (b :: u8) = 255 \<longleftrightarrow> b = 255"
  by (simp add: word_uint_eq_iff)

lemmas loop_simps = loop_def char_to_int_def sketch_consts uint_eq_255 Let_def

lemma frame_key:
  assumes "b \<noteq> 255"
  shows "sketch_run False [255, 75, b] s = (s\<lparr>currentState := WAIT_FOR_START\<rparr>, [Keyboard_print b])"
  using assms by (simp add: loop_simps)

lemma frame_click:
  assumes "b \<noteq> 255"
  shows "sketch_run False [255, 67, b] s = (s\<lparr>currentState := WAIT_FOR_START\<rparr>, [Mouse_click MOUSE_LEFT])"
  using assms by (simp add: loop_simps)

lemma signed_char_arg_uint: "signed_char_arg (uint b) = sint b" for b :: u8
  by (simp add: signed_char_arg_def)

lemma frame_mouse:
  assumes "x \<noteq> 255" "y \<noteq> 255" "w \<noteq> 255"
  shows "sketch_run False [255, 77, x, y, w] s =
           (sketch_init, [Mouse_move (sint x) (sint y) (sint w)])"
  using assms by (cases s) (simp add: loop_simps sketch_init_def signed_char_arg_uint)

lemma send_frames [simp]:
  assumes "mState d = STATE_CONNECTED"
  shows "sendKeyboard d = d\<lparr>wire := wire d @ [255, 75] @ keyBytes d\<rparr>"
    and "sendMouse d = d\<lparr>wire := wire d @ [255, 77] @ mouseBytes d\<rparr>"
    and "sendClick d = d\<lparr>wire := wire d @ [255, 67] @ clickBytes d\<rparr>"
  using assms
  by (simp_all add: sendKeyboard_def sendMouse_def sendClick_def sendDelimiter_def sendByte_def
      worker_write_def Let_def)

text \<open>
  \<open>delivers d fr d' t\<close>: the sender moved from \<open>d\<close> to \<open>d'\<close>, put the bytes \<open>fr\<close> on the wire, and
  these make the sketch, in whatever state it is, do exactly the calls \<open>t\<close>.
\<close>

definition delivers :: "dispatcher \<Rightarrow> bytes \<Rightarrow> dispatcher \<Rightarrow> arduino_call list \<Rightarrow> bool" where
  "delivers d fr d' t \<longleftrightarrow>
     dispatcher_inv d' \<and> mState d' = STATE_CONNECTED \<and>
     wire d' = wire d @ fr \<and> (\<forall>s. snd (sketch_run False fr s) = t)"

lemma deliversI:
  assumes "dispatcher_inv d'" "mState d' = STATE_CONNECTED" "wire d' = wire d @ fr"
    and "\<And>s. sketch_run False fr s = (f s, t)"
  shows "delivers d fr d' t"
  using assms by (auto simp: delivers_def)

lemma delivers_refl:
  assumes "dispatcher_inv d" "mState d = STATE_CONNECTED"
  shows "delivers d [] d []"
  using assms by (auto simp: delivers_def)

lemma delivers_trans:
  assumes "delivers d f1 d1 t1" "delivers d1 f2 d2 t2"
  shows "delivers d (f1 @ f2) d2 (t1 @ t2)"
  using assms by (auto simp: delivers_def sketch_run_append split_beta Let_def)

lemma delivers_key:
  assumes "dispatcher_inv d" "mState d = STATE_CONNECTED" "b \<noteq> 255"
  shows "delivers d [255, 75, b] (sendKeyboard (d\<lparr>keyBytes := [b]\<rparr>)) [Keyboard_print b]"
  using assms frame_key [OF assms(3)] by (intro deliversI) (auto simp: dispatcher_inv_def)

lemma delivers_click:
  assumes "dispatcher_inv d" "mState d = STATE_CONNECTED" "b \<noteq> 255"
  shows "delivers d [255, 67, b] (sendClick (d\<lparr>clickBytes := [b]\<rparr>)) [Mouse_click MOUSE_LEFT]"
  using assms frame_click [OF assms(3)] by (intro deliversI) (auto simp: dispatcher_inv_def)

lemma delivers_mouse:
  assumes "dispatcher_inv d" "mState d = STATE_CONNECTED" "x \<noteq> 255" "y \<noteq> 255" "w \<noteq> 255"
  shows "delivers d [255, 77, x, y, w] (sendMouse (d\<lparr>mouseBytes := [x, y, w]\<rparr>))
           [Mouse_move (sint x) (sint y) (sint w)]"
  using assms frame_mouse [OF assms(3,4,5)] by (intro deliversI) (auto simp: dispatcher_inv_def)

lemma keyBytes_update:
  assumes "dispatcher_inv d"
  shows "(keyBytes d)[0 := b] = [b]"
  using assms by (cases "keyBytes d") (auto simp: dispatcher_inv_def)

lemma delivers_string:
  assumes "dispatcher_inv d" "mState d = STATE_CONNECTED" "list_all (\<lambda>c. ucast c \<noteq> (255 :: u8)) cs"
  shows "delivers d (concat (map (\<lambda>c. [255, 75, ucast c]) cs)) (sendString cs d)
    (map (\<lambda>c. Keyboard_print (ucast c)) cs)"
  using assms
proof (induction cs arbitrary: d)
  case Nil
  then show ?case by (simp add: delivers_refl)
next
  case (Cons c cs)
  let ?d1 = "sendKeyboard (d\<lparr>keyBytes := [ucast c]\<rparr>)"
  have first: "delivers d [255, 75, ucast c] ?d1 [Keyboard_print (ucast c)]"
    using Cons.prems by (intro delivers_key) auto
  then have "delivers ?d1 (concat (map (\<lambda>c. [255, 75, ucast c]) cs)) (sendString cs ?d1)
      (map (\<lambda>c. Keyboard_print (ucast c)) cs)"
    using Cons.prems by (intro Cons.IH) (auto simp: delivers_def)
  with first show ?case
    using delivers_trans [OF first] Cons.prems(1) by (simp add: keyBytes_update)
qed

lemma copy_first_1:
  assumes "1 \<le> length bs" "length dst = 1"
  shows "copy_first 1 bs dst = Some [bs ! 0]"
  using assms by (cases bs) (auto simp: copy_first_def)

lemma copy_first_3:
  assumes "3 \<le> length bs" "length dst = 3"
  shows "copy_first 3 bs dst = Some [bs ! 0, bs ! 1, bs ! 2]"
  using assms
  by (auto simp: copy_first_def numeral_3_eq_3 Suc_le_length_iff)

lemma app_step_delivers:
  assumes inv: "dispatcher_inv d" "mState d = STATE_CONNECTED" and ok: "request_ok r"
  shows "\<exists>d'. app_step r d = Some d' \<and> delivers d (request_frames r) d' (request_calls r)"
proof -
  have len: "length (keyBytes d) = 1" "length (mouseBytes d) = 3" "length (clickBytes d) = 1"
    using inv by (auto simp: dispatcher_inv_def)
  note sets = setKeyBytes_def setClickBytes_def setMouseBytes_def app_step_def sendKeyBytes_def
    sendLeftClick_def sendRightClick_def sendDelete_def sendEnter_def
  show ?thesis
  proof (cases r)
    case (Req_string cs)
    then show ?thesis using delivers_string inv ok by (simp add: app_step_def)
  next
    case (Req_keys bs)
    then show ?thesis using delivers_key [OF inv, of "bs ! 0"] ok len
      by (simp add: sets copy_first_1 [unfolded One_nat_def] del: send_frames)
  next
    case (Req_mouse bs)
    then have "bs ! 0 \<noteq> 255" "bs ! 1 \<noteq> 255" "bs ! 2 \<noteq> 255"
      using ok by (auto simp: numeral_3_eq_3 numeral_2_eq_2 Suc_le_length_iff)
    then show ?thesis using delivers_mouse [OF inv, of "bs ! 0" "bs ! 1" "bs ! 2"] ok len Req_mouse
      by (simp add: sets copy_first_3 del: send_frames)
  qed (use delivers_key [OF inv] delivers_click [OF inv] len ok in
      \<open>simp_all add: sets copy_first_def del: send_frames\<close>)
qed

lemma app_run_delivers:
  assumes "dispatcher_inv d" "mState d = STATE_CONNECTED" "list_all request_ok rs"
  shows "\<exists>d'. app_run rs d = Some d' \<and> delivers d (concat (map request_frames rs)) d' (concat (map request_calls rs))"
  using assms
proof (induction rs arbitrary: d)
  case Nil
  then show ?case by (simp add: delivers_refl)
next
  case (Cons r rs)
  then obtain d1 where d1: "app_step r d = Some d1" "delivers d (request_frames r) d1 (request_calls r)"
    using app_step_delivers [of d r] by auto
  then obtain d2 where "app_run rs d1 = Some d2" "delivers d1 (concat (map request_frames rs)) d2 (concat (map request_calls rs))"
    using Cons.IH [of d1] Cons.prems by (auto simp: delivers_def)
  with d1 show ?case
    using delivers_trans by fastforce
qed

lemma dispatcher_init_inv [simp]: "dispatcher_inv (dispatcher_init st)"
  by (simp add: dispatcher_inv_def dispatcher_init_def)

text \<open>A send while the link is down leaves the dispatcher as it is.\<close>

lemma not_connected_sends [simp]:
  assumes "mState d \<noteq> STATE_CONNECTED"
  shows "sendKeyboard d = d" "sendMouse d = d" "sendClick d = d"
  using assms
  by (simp_all add: sendKeyboard_def sendMouse_def sendClick_def sendDelimiter_def sendByte_def Let_def)

text \<open>The sketch has no call for the right button: a right click reaches the computer as a left click.\<close>

lemma right_click_clicks_left:
  assumes "dispatcher_inv d" "mState d = STATE_CONNECTED"
  shows "\<exists>d'. sendRightClick d = Some d' \<and> delivers d [255, 67, 82] d' [Mouse_click MOUSE_LEFT]"
  using delivers_click [OF assms, of 82] assms(1)
  by (simp add: sendRightClick_def setClickBytes_def copy_first_def dispatcher_inv_def del: send_frames)

subsection \<open>The track pad\<close>

abbreviation axis_byte :: "rat \<Rightarrow> u8" where
  "axis_byte t \<equiv> ucast (- axis_vel (min_step t))"

lemma sint_word8:
  assumes "- 128 \<le> i" "i < 128"
  shows "sint (word_of_int i :: u8) = i"
  using assms by (simp add: sint_sbintrunc' signed_take_bit_int_eq_self)

lemma sint_word32:
  assumes "- (2 ^ 31) \<le> i" "i < 2 ^ 31"
  shows "sint (word_of_int i :: 32 word) = i"
  using assms by (simp add: sint_sbintrunc' signed_take_bit_int_eq_self)

lemma ucast_word_of_int: "(ucast (word_of_int i :: 32 word) :: u8) = word_of_int i"
  by (rule bit_word_eqI) (simp add: bit_simps)

lemma clamp_word:
  assumes "- (2 ^ 31) \<le> i" "i < 2 ^ 31"
  shows "clamp_vel (word_of_int i) = word_of_int (max (- 127) (min 127 i))"
  using sint_word32 [OF assms] by (auto simp: clamp_vel_def max_def min_def)

lemma axis_vel_round:
  assumes "- (2 ^ 31) < \<lfloor>t + 1 / 2\<rfloor>"
  shows "- axis_vel t = word_of_int (max (- 127) (min 127 \<lfloor>t + 1 / 2\<rfloor>))"
proof -
  define f where "f = \<lfloor>t + 1 / 2\<rfloor>"
  define r where "r = min (2 ^ 31 - 1) f"
  have "- (2 ^ 31) < f"
    using assms by (simp only: f_def)
  then have "- Math_round t = word_of_int (- r)" "- (2 ^ 31) \<le> - r" "- r < 2 ^ 31"
    unfolding Math_round_def r_def f_def [symmetric] by auto
  then have "- axis_vel t = - word_of_int (max (- 127) (min 127 (- r)))"
    by (simp only: axis_vel_def clamp_word)
  also have "\<dots> = word_of_int (- max (- 127) (min 127 (- r)))"
    by simp
  also have "- max (- 127) (min 127 (- r)) = max (- 127) (min 127 r)"
    by linarith
  finally show ?thesis
    unfolding f_def [symmetric] by (simp add: r_def max_def min_def)
qed

lemma sint_axis_byte:
  assumes "- (2 ^ 31) < \<lfloor>min_step t + 1 / 2\<rfloor>"
  shows "sint (axis_byte t) = max (- 127) (min 127 \<lfloor>min_step t + 1 / 2\<rfloor>)"
  unfolding axis_vel_round [OF assms] ucast_word_of_int by (rule sint_word8) auto

text \<open>At the lower end of the integers the negation has no effect and the movement changes its direction.\<close>

lemma axis_byte_overflow:
  assumes "t < - (2 ^ 31) + 1 / 2"
  shows "axis_byte t = 127"
proof -
  have "min_step t = t" "\<lfloor>t + 1 / 2\<rfloor> \<le> - (2 ^ 31)"
    using assms by (auto simp: min_step_def Let_def floor_le_iff)
  then have "- Math_round (min_step t) = word_of_int (- (2 ^ 31))"
    by (simp add: Math_round_def)
  then show ?thesis
    by (simp add: axis_vel_def clamp_vel_def)
qed

text \<open>
  The movement a total stands for: nothing for zero, one unit for less than one unit, otherwise the
  nearest whole number (the larger one of two), and at most 127 units.
\<close>

definition moves_by :: "rat \<Rightarrow> int \<Rightarrow> bool" where
  "moves_by t v \<longleftrightarrow>
     (if t = 0 then v = 0
      else if \<bar>t\<bar> < 1 then of_int v = sgn t
      else if 127 \<le> t then v = 127
      else if t \<le> - 127 then v = - 127
      else of_int v - 1 / 2 \<le> t \<and> t < of_int v + 1 / 2)"

lemma min_step_cases: "min_step t = (if t \<noteq> 0 \<and> \<bar>t\<bar> < 1 then sgn t else t)"
  by (auto simp: min_step_def Let_def sgn_if)

lemma moves_by_axis:
  assumes "- (2 ^ 31) + 1 / 2 \<le> t"
  shows "moves_by t (sint (axis_byte t))"
proof -
  define f where "f = \<lfloor>min_step t + 1 / 2\<rfloor>"
  have f: "of_int f \<le> min_step t + 1 / 2" "min_step t + 1 / 2 < of_int f + 1"
    using floor_correct [of "min_step t + 1 / 2"] by (simp_all only: f_def of_int_add of_int_1)
  have "- (2 ^ 31) < f"
    using assms unfolding f_def min_step_cases by (auto simp: less_floor_iff sgn_if)
  then have v: "sint (axis_byte t) = max (- 127) (min 127 f)"
    using sint_axis_byte [of t] by (simp only: f_def)
  show ?thesis
  proof (cases "\<bar>t\<bar> < 1")
    case True
    then have "min_step t = of_int (if t = 0 then 0 else if 0 < t then 1 else - 1)"
      by (auto simp: min_step_cases sgn_if)
    then have "f = (if t = 0 then 0 else if 0 < t then 1 else - 1)"
      unfolding f_def by (simp only: floor_add_int [symmetric] floor_eq_iff) simp
    with True show ?thesis
      by (auto simp: v moves_by_def sgn_if)
  next
    case False
    then have f: "of_int f \<le> t + 1 / 2" "t + 1 / 2 < of_int f + 1"
      using f unfolding min_step_cases by simp_all
    have "rat_of_int 126 < of_int f" if "127 \<le> t"
      using that f(2) by simp
    moreover have "rat_of_int f < of_int (- 126)" if "t \<le> - 127"
      using that f(1) by simp
    moreover have "rat_of_int f < of_int 128" if "t < 127"
      using that f(1) by simp
    moreover have "rat_of_int (- 128) < of_int f" if "- 127 < t"
      using that f(2) by simp
    ultimately have "127 \<le> t \<longrightarrow> 126 < f" "t \<le> - 127 \<longrightarrow> f < - 126" "t < 127 \<longrightarrow> f < 128" "- 127 < t \<longrightarrow> - 128 < f"
      unfolding of_int_less_iff by blast+
    with False f show ?thesis
      unfolding v moves_by_def by (auto simp: max_def min_def)
  qed
qed

lemma moves_by_minus_one:
  assumes "moves_by t v"
  shows "v = - 1 \<longleftrightarrow> - 3 / 2 \<le> t \<and> t < 0"
proof
  assume "- 3 / 2 \<le> t \<and> t < 0"
  then have "of_int (- 2) < rat_of_int v \<and> rat_of_int v < of_int 0"
    using assms by (auto simp: moves_by_def sgn_if split: if_splits)
  then show "v = - 1"
    unfolding of_int_less_iff by linarith
qed (use assms in \<open>auto simp: moves_by_def sgn_if split: if_splits\<close>)

lemma axis_byte_255:
  assumes "- (2 ^ 31) + 1 / 2 \<le> t"
  shows "axis_byte t = 255 \<longleftrightarrow> - 3 / 2 \<le> t \<and> t < 0"
proof -
  have "axis_byte t = 255 \<longleftrightarrow> sint (axis_byte t) = sint (255 :: u8)"
    by (metis signed_word_eqI)
  also have "sint (255 :: u8) = - 1"
    by simp
  also have "sint (axis_byte t) = - 1 \<longleftrightarrow> - 3 / 2 \<le> t \<and> t < 0"
    by (rule moves_by_minus_one) (rule moves_by_axis [OF assms])
  finally show ?thesis .
qed

lemma mouse_sender_pass_eq:
  assumes "dispatcher_inv d" "mRunningTotalX tp \<noteq> 0 \<or> mRunningTotalY tp \<noteq> 0" "tp_chat tp" "\<And>i. i < 5 \<Longrightarrow> touch i = None"
  shows "mouse_sender_pass touch (tp, d) =
           Some (tp\<lparr>mRunningTotalX := 0, mRunningTotalY := 0\<rparr>,
             sendMouse (d\<lparr>mouseBytes := [axis_byte (mRunningTotalX tp), axis_byte (mRunningTotalY tp), 0]\<rparr>))"
  using assms
  by (simp add: mouse_sender_pass_def touched_def setMouseBytes_def copy_first_def dispatcher_inv_def Let_def
      split: option.split prod.split)

subsection \<open>Sending a file\<close>

definition char_pass :: "16 word \<Rightarrow> file_pass" where
  "char_pass c = \<lparr>fp_read = Read_char c, fp_interrupted = False, fp_canceled = False\<rparr>"

definition eof_pass :: file_pass where
  "eof_pass = \<lparr>fp_read = Read_eof, fp_interrupted = False, fp_canceled = False\<rparr>"

lemma word_of_uint_ucast: "(word_of_int (uint (c :: 16 word)) :: u8) = ucast c"
  by (rule ucast_eq [symmetric])

lemma sint_eq_minus_one: "sint (b :: u8) = - 1 \<longleftrightarrow> b = 255"
proof
  assume "sint b = - 1"
  then have "sint b = sint (255 :: u8)" by simp
  then show "b = 255" by (rule signed_word_eqI)
qed simp

lemma doInBackground_char:
  assumes "dispatcher_inv d" "ucast c \<noteq> (255 :: u8)"
  shows "doInBackground (char_pass c # ps) d =
           doInBackground ps (sendKeyboard (d\<lparr>keyBytes := [ucast c]\<rparr>))"
  using assms
  by (simp add: char_pass_def read_int_def word_of_uint_ucast sint_eq_minus_one keyBytes_update
      Let_def del: send_frames not_connected_sends)

lemma sendKeyboard_inv:
  assumes "dispatcher_inv d"
  shows "dispatcher_inv (sendKeyboard (d\<lparr>keyBytes := [b]\<rparr>))"
  using assms by (cases "mState d = STATE_CONNECTED") (auto simp: dispatcher_inv_def)

lemma doInBackground_chars:
  assumes "dispatcher_inv d" "list_all (\<lambda>c. ucast c \<noteq> (255 :: u8)) cs"
  shows "doInBackground (map char_pass cs @ ps) d = doInBackground ps (sendString cs d)"
  using assms
proof (induction cs arbitrary: d)
  case (Cons c cs)
  then show ?case
    by (simp add: doInBackground_char sendKeyboard_inv keyBytes_update
        del: doInBackground.simps send_frames not_connected_sends)
qed simp

section \<open>Properties\<close>

text \<open>
  C5. The link delivers.  Whatever requests the application issues over a live connection, if
  none of them is a right click or carries the reserved byte 255, the dispatcher never throws and
  adds exactly their frames to the wire, and these make the sketch, from any state it may be in (after any
  garbage, in the middle of any broken frame), perform exactly the requested calls in order, with no
  error report between them.  Byte values are read with an unsigned \<^verbatim>\<open>char\<close>.
\<close>

theorem link_delivers_requests:
  assumes "dispatcher_inv d" "mState d = STATE_CONNECTED" "list_all request_ok rs"
  shows "\<exists>d'. app_run rs d = Some d' \<and> dispatcher_inv d' \<and>
           wire d' = wire d @ concat (map request_frames rs) \<and>
           (\<forall>s. snd (sketch_run False (concat (map request_frames rs)) s) = concat (map request_calls rs))"
  using app_run_delivers [OF assms] by (auto simp: delivers_def)

theorem link_delivers_requests_witness:
  "\<exists>d'. app_run [Req_mouse [10, 0xF6, 0], Req_left, Req_string [72, 105]] (dispatcher_init 3) = Some d' \<and>
     wire d' = [255, 77, 10, 0xF6, 0, 255, 67, 76, 255, 75, 72, 255, 75, 105] \<and> dispatcher_inv d' \<and>
     (\<forall>s. snd (sketch_run False (wire d') s) =
        [Mouse_move 10 (- 10) 0, Mouse_click MOUSE_LEFT, Keyboard_print 72, Keyboard_print 105])"
  using link_delivers_requests
    [of "dispatcher_init 3" "[Req_mouse [10, 0xF6, 0], Req_left, Req_string [72, 105]]"]
  by (auto simp add: dispatcher_init_def STATE_CONNECTED_def dispatcher_inv_def simp del: sketch_run.simps)

text \<open>
  C6. One pass of the track pad thread, for totals that are not in \<open>[-1.5, 0)\<close> and not at the lower end of
  the 32-bit integers, makes the sketch perform one mouse move, by the two totals as \<^const>\<open>moves_by\<close> reads
  them: less than one unit counts as one, otherwise the total is rounded and cut to 127 units.  The totals are
  cleared afterwards, together with whatever touch events have added to them since they were read.
\<close>

theorem track_pad_move:
  assumes "dispatcher_inv d" "mState d = STATE_CONNECTED" "tp_chat tp" "\<forall>i < 5. touch i = None"
    and "mRunningTotalX tp \<noteq> 0 \<or> mRunningTotalY tp \<noteq> 0"
    and "- (2 ^ 31) + 1 / 2 \<le> mRunningTotalX tp" "mRunningTotalX tp < - 3 / 2 \<or> 0 \<le> mRunningTotalX tp"
    and "- (2 ^ 31) + 1 / 2 \<le> mRunningTotalY tp" "mRunningTotalY tp < - 3 / 2 \<or> 0 \<le> mRunningTotalY tp"
  shows "\<exists>d' fr x y.
           mouse_sender_pass touch (tp, d) = Some (tp\<lparr>mRunningTotalX := 0, mRunningTotalY := 0\<rparr>, d') \<and>
           wire d' = wire d @ fr \<and> (\<forall>s. snd (sketch_run False fr s) = [Mouse_move x y 0]) \<and>
           moves_by (mRunningTotalX tp) x \<and> moves_by (mRunningTotalY tp) y"
proof -
  let ?bx = "axis_byte (mRunningTotalX tp)" and ?by = "axis_byte (mRunningTotalY tp)"
  have "?bx \<noteq> 255" "?by \<noteq> 255"
    using assms(6-9) axis_byte_255 by auto
  then have "delivers d [255, 77, ?bx, ?by, 0] (sendMouse (d\<lparr>mouseBytes := [?bx, ?by, 0]\<rparr>))
      [Mouse_move (sint ?bx) (sint ?by) (sint (0 :: u8))]"
    using assms(1,2) by (intro delivers_mouse) auto
  with moves_by_axis [OF assms(6)] moves_by_axis [OF assms(8)] mouse_sender_pass_eq [OF assms(1,5,3), of touch] assms(4)
  show ?thesis
    unfolding delivers_def by (auto simp del: send_frames)
qed

theorem track_pad_move_witness:
  "\<exists>d' fr x y.
     mouse_sender_pass (\<lambda>i. if i = 5 then Some (9, 9) else None)
       (\<lparr>mRunningTotalX = 1 / 3, mRunningTotalY = - 300, tp_chat = True\<rparr>, dispatcher_init 3) =
       Some (\<lparr>mRunningTotalX = 0, mRunningTotalY = 0, tp_chat = True\<rparr>, d') \<and>
     wire d' = fr \<and> (\<forall>s. snd (sketch_run False fr s) = [Mouse_move x y 0]) \<and> x = 1 \<and> y = - 127"
  using track_pad_move [of "dispatcher_init 3" "\<lparr>mRunningTotalX = 1 / 3, mRunningTotalY = - 300, tp_chat = True\<rparr>"
      "\<lambda>i. if i = 5 then Some (9, 9) else None"]
  by (auto simp: dispatcher_init_def STATE_CONNECTED_def dispatcher_inv_def moves_by_def)

text \<open>
  C7. A movement of one step to the left is lost.  A negative horizontal total of at most one
  and a half becomes the byte 255, which the sketch takes for the start of a new frame: for every
  vertical total the sketch performs no mouse move, and when the vertical total rounds to 67, the
  code of a click command, the sketch clicks instead.  The comment in the dispatcher says 255 is a
  value that is never passed.
\<close>

theorem track_pad_left_step_lost:
  assumes "dispatcher_inv d" "mState d = STATE_CONNECTED" "tp_chat tp" "\<forall>i < 5. touch i = None"
    and "- 3 / 2 \<le> mRunningTotalX tp" "mRunningTotalX tp < 0"
  shows "\<exists>tp' d' fr. mouse_sender_pass touch (tp, d) = Some (tp', d') \<and> wire d' = wire d @ fr \<and>
           (\<forall>s x y w. Mouse_move x y w \<notin> set (snd (sketch_run False fr s))) \<and>
           (133 / 2 \<le> mRunningTotalY tp \<and> mRunningTotalY tp < 135 / 2 \<longrightarrow>
              (\<forall>s. snd (sketch_run False fr s) = [Mouse_click MOUSE_LEFT]))"
proof -
  have bx: "axis_byte (mRunningTotalX tp) = 255"
    using assms(5,6) by (subst axis_byte_255) auto
  have vert: "axis_byte (mRunningTotalY tp) = 67" if "133 / 2 \<le> mRunningTotalY tp" "mRunningTotalY tp < 135 / 2"
  proof -
    have "min_step (mRunningTotalY tp) = mRunningTotalY tp" "\<lfloor>mRunningTotalY tp + 1 / 2\<rfloor> = 67"
      using that by (simp_all add: min_step_cases floor_eq_iff)
    then show ?thesis
      by (simp add: axis_vel_round)
  qed
  show ?thesis
    using assms mouse_sender_pass_eq [of d tp touch] bx vert by (auto simp: loop_simps printError_def)
qed

theorem track_pad_left_step_lost_witness:
  "\<exists>tp' d' fr.
     mouse_sender_pass (\<lambda>_. None) (\<lparr>mRunningTotalX = - 1, mRunningTotalY = 67, tp_chat = True\<rparr>, dispatcher_init 3) =
       Some (tp', d') \<and> wire d' = fr \<and> (\<forall>s. snd (sketch_run False fr s) = [Mouse_click MOUSE_LEFT])"
  using track_pad_left_step_lost [of "dispatcher_init 3"
      "\<lparr>mRunningTotalX = - 1, mRunningTotalY = 67, tp_chat = True\<rparr>" "\<lambda>_. None"]
  by (auto simp add: dispatcher_init_def STATE_CONNECTED_def dispatcher_inv_def)

text \<open>
  C8. With a signed \<^verbatim>\<open>char\<close> (the default of the AVR compiler) no received byte compares
  equal to the start byte, so whatever bytes arrive, the sketch stays in its waiting state, reports
  one error per byte and never clicks, types or moves the mouse.
\<close>

theorem signed_char_never_starts:
  "sketch_run True bs sketch_init =
     (sketch_init, concat (map (\<lambda>b. snd (printError 0 (sint b) sketch_init)) bs))"
proof -
  have "loop True (Some b) sketch_init = printError 0 (sint b) sketch_init" for b
    using sint_lt [of b] by (simp add: loop_simps sketch_init_def)
  moreover have "fst (printError 0 i sketch_init) = sketch_init" for i
    by (simp add: printError_def sketch_init_def)
  ultimately show ?thesis
    by (induction bs) (simp_all add: split_beta Let_def)
qed

text \<open>
  C9. Sending a file that is read without an error and not cancelled: if no character of the
  file has low byte 255, the task sends the whole file and reports success, and the sketch types the low
  byte of each decoded character, in order; but the end-of-file mark is sent as one more key, whose
  byte 255 leaves the sketch in the middle of a frame.
\<close>

theorem send_file_types_file:
  assumes "dispatcher_inv d" "mState d = STATE_CONNECTED"
    and "list_all (\<lambda>c. ucast c \<noteq> (255 :: u8)) cs"
  shows "\<exists>d' fr. doInBackground (map char_pass cs @ [eof_pass]) d = (d', Some SENT_SUCCESSFULLY) \<and>
           wire d' = wire d @ fr @ [255, 75, 255] \<and>
           (\<forall>s. snd (sketch_run False (fr @ [255, 75, 255]) s) = map (\<lambda>c. Keyboard_print (ucast c)) cs \<and>
                currentState (fst (sketch_run False (fr @ [255, 75, 255]) s)) = STARTED)"
proof -
  let ?d1 = "sendString cs d" and ?fr = "concat (map (\<lambda>c. [255, 75, ucast c]) cs)"
  have del: "delivers d ?fr ?d1 (map (\<lambda>c. Keyboard_print (ucast c)) cs)"
    using assms by (rule delivers_string)
  then have inv1: "dispatcher_inv ?d1" "mState ?d1 = STATE_CONNECTED"
    by (auto simp: delivers_def)
  obtain fr where fr: "wire ?d1 = wire d @ fr"
      "\<And>s. snd (sketch_run False fr s) = map (\<lambda>c. Keyboard_print (ucast c)) cs"
    using del by (auto simp: delivers_def)
  have tail: "sketch_run False [255, 75, 255] s = (s\<lparr>currentState := STARTED\<rparr>, [])" for s
    by (simp add: loop_simps)
  have m1: "(- 1 :: u8) = 255"
    by simp
  have "doInBackground [eof_pass] ?d1 =
          (sendKeyboard (?d1\<lparr>keyBytes := [255]\<rparr>), Some SENT_SUCCESSFULLY)"
    using inv1 by (simp add: eof_pass_def read_int_def keyBytes_update m1 del: send_frames)
  then show ?thesis
    using inv1 fr doInBackground_chars [OF assms(1,3), of "[eof_pass]"] tail
    by (auto simp: sketch_run_append split_beta Let_def simp del: sketch_run.simps intro!: exI [of _ fr])
qed

theorem send_file_types_file_witness:
  "\<exists>d' fr. doInBackground [char_pass 104, char_pass 105, eof_pass] (dispatcher_init 3) =
              (d', Some SENT_SUCCESSFULLY) \<and>
     wire d' = fr @ [255, 75, 255] \<and>
     (\<forall>s. snd (sketch_run False (fr @ [255, 75, 255]) s) = [Keyboard_print 104, Keyboard_print 105])"
  using send_file_types_file [of "dispatcher_init 3" "[104, 105]"]
  by (auto simp add: dispatcher_init_def STATE_CONNECTED_def dispatcher_inv_def
      simp del: doInBackground.simps sketch_run.simps)

end
