(* ===== verification/Endianness.thy ===== *)
theory Endianness
  imports Prelude
begin

text \<open>
  Byte and bit order: \<^verbatim>\<open>LUFA/Common/Endianness.h\<close> and \<^verbatim>\<open>BitReverse\<close> of
  \<^verbatim>\<open>LUFA/Common/Common.h\<close>, for the little-endian AVR targets.  The compile-time macros and
  the run-time functions are separate definitions, as in the header; \<open>GCC_IS_COMPILE_CONST\<close> is
  an argument of the run-time functions, so that both of their branches are in the model.
\<close>

definition SWAPENDIAN_16 :: "u16 \<Rightarrow> u16" where
  "SWAPENDIAN_16 x = drop_bit 8 (x AND 0xFF00) OR push_bit 8 (x AND 0x00FF)"

definition SWAPENDIAN_32 :: "u32 \<Rightarrow> u32" where
  "SWAPENDIAN_32 x =
     drop_bit 24 (x AND 0xFF000000) OR drop_bit 8 (x AND 0x00FF0000) OR
     push_bit 8 (x AND 0x0000FF00) OR push_bit 24 (x AND 0x000000FF)"

text \<open>The run-time functions exchange the bytes of a union.\<close>

definition SwapEndian_16 :: "bool \<Rightarrow> u16 \<Rightarrow> u16" where
  "SwapEndian_16 compile_const w =
     (if compile_const then SWAPENDIAN_16 w
      else let Bytes = [byte0 w, byte1 w];
               Temp = Bytes ! 0;
               Bytes = Bytes[0 := Bytes ! 1];
               Bytes = Bytes[1 := Temp]
           in word16_of (Bytes ! 0) (Bytes ! 1))"

definition SwapEndian_32 :: "bool \<Rightarrow> u32 \<Rightarrow> u32" where
  "SwapEndian_32 compile_const w =
     (if compile_const then SWAPENDIAN_32 w
      else let Bytes = [byte0 w, byte1 w, byte2 w, byte3 w];
               Temp = Bytes ! 0;
               Bytes = Bytes[0 := Bytes ! 3];
               Bytes = Bytes[3 := Temp];
               Temp = Bytes ! 1;
               Bytes = Bytes[1 := Bytes ! 2];
               Bytes = Bytes[2 := Temp]
           in word32_of (Bytes ! 0) (Bytes ! 1) (Bytes ! 2) (Bytes ! 3))"

text \<open>The loop of \<^verbatim>\<open>SwapEndian_n\<close>; \<open>p\<close> is \<^verbatim>\<open>CurrDataPos\<close>.\<close>

fun swap_loop :: "nat \<Rightarrow> nat \<Rightarrow> bytes \<Rightarrow> bytes option" where
  "swap_loop p (Suc (Suc n)) m = do {
     Temp \<leftarrow> rd8 m p;
     Last \<leftarrow> rd8 m (p + Suc (Suc n) - 1);
     m \<leftarrow> wr8 m p Last;
     m \<leftarrow> wr8 m (p + Suc (Suc n) - 1) Temp;
     swap_loop (p + 1) n m
   }"
| "swap_loop p n m = Some m"

definition SwapEndian_n :: "nat \<Rightarrow> u8 \<Rightarrow> bytes \<Rightarrow> bytes option" where
  "SwapEndian_n p Length m = swap_loop p (unat Length) m"

definition BitReverse :: "u8 \<Rightarrow> u8" where
  "BitReverse b =
     (let b = drop_bit 4 (b AND 0xF0) OR push_bit 4 (b AND 0x0F);
          b = drop_bit 2 (b AND 0xCC) OR push_bit 2 (b AND 0x33)
      in drop_bit 1 (b AND 0xAA) OR push_bit 1 (b AND 0x55))"

text \<open>The conversions the network code uses, on the little-endian target.\<close>

definition be16_to_cpu :: "u16 \<Rightarrow> u16" where
  "be16_to_cpu w = SwapEndian_16 False w"

definition cpu_to_be16 :: "u16 \<Rightarrow> u16" where
  "cpu_to_be16 w = SwapEndian_16 False w"

section \<open>Lemmas\<close>

lemma mask_bytes_16: "(0xFF00 :: u16) = push_bit 8 (mask 8)" "(0x00FF :: u16) = mask 8"
  by (simp_all add: mask_eq_exp_minus_1 push_bit_eq_mult)

lemma mask_bytes_32:
  "(0xFF000000 :: u32) = push_bit 24 (mask 8)" "(0x00FF0000 :: u32) = push_bit 16 (mask 8)"
  "(0x0000FF00 :: u32) = push_bit 8 (mask 8)" "(0x000000FF :: u32) = mask 8"
  by (simp_all add: mask_eq_exp_minus_1 push_bit_eq_mult)

lemma SWAPENDIAN_16_bytes: "SWAPENDIAN_16 w = word16_of (byte1 w) (byte0 w)"
  unfolding SWAPENDIAN_16_def mask_bytes_16 word16_of_def byte0_def byte1_def
  by (rule bit_word_eqI) (auto simp: bit_simps)

lemma SWAPENDIAN_32_bytes: "SWAPENDIAN_32 w = word32_of (byte3 w) (byte2 w) (byte1 w) (byte0 w)"
proof (rule bit_word_eqI)
  fix n
  assume "n < LENGTH(32)"
  then consider "n < 8" | "8 \<le> n" "n < 16" | "16 \<le> n" "n < 24" | "24 \<le> n" "n < 32"
    by fastforce
  then show "bit (SWAPENDIAN_32 w) n = bit (word32_of (byte3 w) (byte2 w) (byte1 w) (byte0 w)) n"
    unfolding SWAPENDIAN_32_def mask_bytes_32 word32_of_def byte0_def byte1_def byte2_def byte3_def
    by cases (auto simp: bit_simps less_diff_conv2)
qed

lemma SwapEndian_16_bytes [simp]: "SwapEndian_16 c w = word16_of (byte1 w) (byte0 w)"
  by (simp add: SwapEndian_16_def SWAPENDIAN_16_bytes)

lemma SwapEndian_32_bytes [simp]: "SwapEndian_32 c w = word32_of (byte3 w) (byte2 w) (byte1 w) (byte0 w)"
  by (simp add: SwapEndian_32_def SWAPENDIAN_32_bytes numeral_3_eq_3 numeral_2_eq_2)

lemma swap_loop_rev:
  assumes "p + n \<le> length m"
  shows "swap_loop p n m = Some (take p m @ rev (take n (drop p m)) @ drop (p + n) m)"
  using assms
proof (induction p n m rule: swap_loop.induct)
  case (1 p n m)
  let ?m = "m[p := m ! (p + Suc n), p + Suc n := m ! p]"
  have len: "p + Suc n < length m"
    using "1.prems" by simp
  have "swap_loop p (Suc (Suc n)) m = swap_loop (Suc p) n ?m"
    using len by (simp add: rd8_def wr8_def)
  also have "\<dots> = Some (take (Suc p) ?m @ rev (take n (drop (Suc p) ?m)) @ drop (Suc p + n) ?m)"
    using "1.IH" [of "m ! p" "m ! (p + Suc n)" "m[p := m ! (p + Suc n)]" ?m] len
    by (simp add: rd8_def wr8_def)
  also have "take (Suc p) ?m = take p m @ [m ! (p + Suc n)]"
    using len by (simp add: take_Suc_conv_app_nth nth_list_update)
  also have "take n (drop (Suc p) ?m) = take n (drop (Suc p) m)"
    using len by (simp add: drop_update_swap take_update_swap list_update_beyond)
  also have "drop (Suc p + n) ?m = m ! p # drop (p + Suc (Suc n)) m"
    using len by (simp add: drop_update_swap Cons_nth_drop_Suc [symmetric])
  also have "rev (take n (drop (Suc p) m)) @ m ! p # drop (p + Suc (Suc n)) m =
      rev (m ! p # take n (drop (Suc p) m)) @ drop (p + Suc (Suc n)) m"
    by simp
  finally have "swap_loop p (Suc (Suc n)) m =
      Some ((take p m @ [m ! (p + Suc n)]) @ rev (m ! p # take n (drop (Suc p) m)) @
        drop (p + Suc (Suc n)) m)" .
  moreover have "take (Suc (Suc n)) (drop p m) = m ! p # take n (drop (Suc p) m) @ [m ! (p + Suc n)]"
    using len Cons_nth_drop_Suc [of p m, symmetric] take_Suc_conv_app_nth [of n "drop (Suc p) m"]
    by simp
  ultimately show ?case
    by simp
qed (auto simp: take_Suc_conv_app_nth id_take_nth_drop)

lemma bit_times_2: "bit (w * 2) n \<longleftrightarrow> 0 < n \<and> n < 8 \<and> bit w (n - 1)" for w :: u8
  using bit_push_bit_iff [of 1 w n] by (auto simp: push_bit_eq_mult bit_imp_le_length)

lemma BitReverse_bit:
  assumes "i < 8"
  shows "bit (BitReverse b) i = bit b (7 - i)"
proof -
  from assms consider "i = 0" | "i = 1" | "i = 2" | "i = 3" | "i = 4" | "i = 5" | "i = 6" | "i = 7"
    by linarith
  then show ?thesis
    by cases (simp_all add: BitReverse_def Let_def bit_simps bit_times_2)
qed

section \<open>Properties\<close>

text \<open>
  C10. \<^verbatim>\<open>SwapEndian_n\<close> reverses the given number of bytes in place, for every length
  (odd lengths and lengths zero and one included), touches nothing else, and never accesses memory
  outside the block.
\<close>

theorem SwapEndian_n_reverses:
  assumes "p + unat Length \<le> length m"
  shows "SwapEndian_n p Length m =
           Some (take p m @ rev (take (unat Length) (drop p m)) @ drop (p + unat Length) m)"
  using swap_loop_rev [OF assms] by (simp add: SwapEndian_n_def)

theorem SwapEndian_n_reverses_witness:
  "SwapEndian_n 1 5 [9, 1, 2, 3, 4, 5, 9] = Some [9, 5, 4, 3, 2, 1, 9]"
  using SwapEndian_n_reverses [of 1 5 "[9, 1, 2, 3, 4, 5, 9]"] by simp

text \<open>
  C11. The compile-time macros and both branches of the run-time functions agree, a 16-bit and a
  32-bit swap are the two- and four-byte cases of \<^verbatim>\<open>SwapEndian_n\<close>, swapping twice is the
  identity, and \<^verbatim>\<open>BitReverse\<close> exchanges bit \<open>i\<close> with bit \<open>7 - i\<close>.
\<close>

theorem byte_order_functions_agree:
  fixes w :: u16 and d :: u32 and b :: u8
  shows "SwapEndian_16 c w = SWAPENDIAN_16 w \<and> SwapEndian_32 c d = SWAPENDIAN_32 d \<and>
         SwapEndian_16 c (SwapEndian_16 c w) = w \<and> SwapEndian_32 c (SwapEndian_32 c d) = d \<and>
         SwapEndian_n 0 2 [byte0 w, byte1 w] =
           Some [byte0 (SwapEndian_16 c w), byte1 (SwapEndian_16 c w)] \<and>
         SwapEndian_n 0 4 [byte0 d, byte1 d, byte2 d, byte3 d] =
           Some [byte0 (SwapEndian_32 c d), byte1 (SwapEndian_32 c d),
                 byte2 (SwapEndian_32 c d), byte3 (SwapEndian_32 c d)] \<and>
         map (bit (BitReverse b)) [0..<8] = rev (map (bit b) [0..<8])"
proof -
  have "map (bit (BitReverse b)) [0..<8] = rev (map (bit b) [0..<8])"
    by (rule nth_equalityI) (auto simp: rev_nth BitReverse_bit)
  moreover have "SwapEndian_n 0 2 [byte0 w, byte1 w] = Some [byte1 w, byte0 w]"
    "SwapEndian_n 0 4 [byte0 d, byte1 d, byte2 d, byte3 d] = Some [byte3 d, byte2 d, byte1 d, byte0 d]"
    using swap_loop_rev [of 0 2 "[byte0 w, byte1 w]"]
      swap_loop_rev [of 0 4 "[byte0 d, byte1 d, byte2 d, byte3 d]"]
    by (simp_all add: SwapEndian_n_def)
  ultimately show ?thesis
    by (simp add: SWAPENDIAN_16_bytes SWAPENDIAN_32_bytes)
qed

end
