(* ===== verification/Config_Descriptors.thy ===== *)
theory Config_Descriptors
  imports Prelude
begin

text \<open>
  Walking a USB configuration descriptor: \<^verbatim>\<open>LUFA/Drivers/USB/Core/ConfigDescriptors.c\<close> and
  the inline \<^verbatim>\<open>USB_GetNextDescriptor\<close> of the header.  The block a device returned is byte
  memory, \<^verbatim>\<open>*CurrConfigLoc\<close> an offset into it and \<^verbatim>\<open>*BytesRem\<close> a 16-bit counter.  The
  search loops are partial functions: an access outside the memory, and a search that never ends,
  have the value \<^term>\<open>None\<close>.  Comparator routines are a parameter of the search that calls
  them.
\<close>

section \<open>Model\<close>

definition DESCRIPTOR_SIZE :: "bytes \<Rightarrow> nat \<Rightarrow> u8 option" where
  "DESCRIPTOR_SIZE mem loc = rd8 mem loc"

definition DESCRIPTOR_TYPE :: "bytes \<Rightarrow> nat \<Rightarrow> u8 option" where
  "DESCRIPTOR_TYPE mem loc = rd8 mem (loc + 1)"

definition DTYPE_Configuration :: u8 where "DTYPE_Configuration = 0x02"

definition DTYPE_Interface :: u8 where "DTYPE_Interface = 0x04"

definition DTYPE_Endpoint :: u8 where "DTYPE_Endpoint = 0x05"

definition DESCRIPTOR_SEARCH_Found :: u8 where "DESCRIPTOR_SEARCH_Found = 0"

definition DESCRIPTOR_SEARCH_Fail :: u8 where "DESCRIPTOR_SEARCH_Fail = 1"

definition DESCRIPTOR_SEARCH_NotFound :: u8 where "DESCRIPTOR_SEARCH_NotFound = 2"

definition DESCRIPTOR_SEARCH_COMP_EndOfDescriptor :: u8 where
  "DESCRIPTOR_SEARCH_COMP_EndOfDescriptor = 2"

lemmas search_codes = DESCRIPTOR_SEARCH_Found_def DESCRIPTOR_SEARCH_Fail_def
  DESCRIPTOR_SEARCH_NotFound_def DESCRIPTOR_SEARCH_COMP_EndOfDescriptor_def

definition USB_GetNextDescriptor :: "bytes \<Rightarrow> u16 \<Rightarrow> nat \<Rightarrow> (u16 \<times> nat) option" where
  "USB_GetNextDescriptor mem BytesRem loc = do {
     sz \<leftarrow> DESCRIPTOR_SIZE mem loc;
     let CurrDescriptorSize = ucast sz;
     let CurrDescriptorSize = (if BytesRem < CurrDescriptorSize then BytesRem else CurrDescriptorSize);
     Some (BytesRem - CurrDescriptorSize, loc + unat CurrDescriptorSize)
   }"

partial_function (option) USB_GetNextDescriptorOfType ::
  "u8 \<Rightarrow> bytes \<Rightarrow> u16 \<Rightarrow> nat \<Rightarrow> (u16 \<times> nat) option" where
  "USB_GetNextDescriptorOfType Type mem BytesRem loc =
     (if BytesRem = 0 then Some (BytesRem, loc)
      else do {
        (BytesRem, loc) \<leftarrow> USB_GetNextDescriptor mem BytesRem loc;
        t \<leftarrow> DESCRIPTOR_TYPE mem loc;
        if t = Type then Some (BytesRem, loc)
        else USB_GetNextDescriptorOfType Type mem BytesRem loc
      })"

partial_function (option) USB_GetNextDescriptorOfTypeBefore ::
  "u8 \<Rightarrow> u8 \<Rightarrow> bytes \<Rightarrow> u16 \<Rightarrow> nat \<Rightarrow> (u16 \<times> nat) option" where
  "USB_GetNextDescriptorOfTypeBefore Type BeforeType mem BytesRem loc =
     (if BytesRem = 0 then Some (BytesRem, loc)
      else do {
        (BytesRem, loc) \<leftarrow> USB_GetNextDescriptor mem BytesRem loc;
        t \<leftarrow> DESCRIPTOR_TYPE mem loc;
        if t = Type then Some (BytesRem, loc)
        else if t = BeforeType then Some (0, loc)
        else USB_GetNextDescriptorOfTypeBefore Type BeforeType mem BytesRem loc
      })"

definition USB_GetNextDescriptorOfTypeAfter ::
  "u8 \<Rightarrow> u8 \<Rightarrow> bytes \<Rightarrow> u16 \<Rightarrow> nat \<Rightarrow> (u16 \<times> nat) option" where
  "USB_GetNextDescriptorOfTypeAfter Type AfterType mem BytesRem loc = do {
     (BytesRem, loc) \<leftarrow> USB_GetNextDescriptorOfType AfterType mem BytesRem loc;
     if BytesRem \<noteq> 0 then USB_GetNextDescriptorOfType Type mem BytesRem loc
     else Some (BytesRem, loc)
   }"

text \<open>The comparator search returns the code and the two cursor variables.\<close>

type_synonym comparator = "bytes \<Rightarrow> nat \<Rightarrow> u8 option"

partial_function (option) USB_GetNextDescriptorComp ::
  "comparator \<Rightarrow> bytes \<Rightarrow> u16 \<Rightarrow> nat \<Rightarrow> (u8 \<times> u16 \<times> nat) option" where
  "USB_GetNextDescriptorComp ComparatorRoutine mem BytesRem loc =
     (if BytesRem = 0 then Some (DESCRIPTOR_SEARCH_COMP_EndOfDescriptor, BytesRem, loc)
      else do {
        let PrevDescLoc = loc;
        let PrevBytesRem = BytesRem;
        (BytesRem, loc) \<leftarrow> USB_GetNextDescriptor mem BytesRem loc;
        ErrorCode \<leftarrow> ComparatorRoutine mem loc;
        if ErrorCode \<noteq> DESCRIPTOR_SEARCH_NotFound then
          (if ErrorCode = DESCRIPTOR_SEARCH_Fail then Some (ErrorCode, PrevBytesRem, PrevDescLoc)
           else Some (ErrorCode, BytesRem, loc))
        else USB_GetNextDescriptorComp ComparatorRoutine mem BytesRem loc
      })"

section \<open>Well-formed descriptor blocks\<close>

text \<open>
  A descriptor is at least its two-byte header long, and its first byte is its length.
  \<open>desc_chain mem loc ds\<close> says the descriptors \<open>ds\<close> stand one after the other at \<open>loc\<close>.
\<close>

definition valid_desc :: "bytes \<Rightarrow> bool" where
  "valid_desc d \<longleftrightarrow> 2 \<le> length d \<and> length d < 256 \<and> d ! 0 = of_nat (length d)"

fun desc_chain :: "bytes \<Rightarrow> nat \<Rightarrow> bytes list \<Rightarrow> bool" where
  "desc_chain mem loc [] = True"
| "desc_chain mem loc (d # ds) =
     (valid_desc d \<and> loc + length d \<le> length mem \<and> take (length d) (drop loc mem) = d \<and>
      desc_chain mem (loc + length d) ds)"

abbreviation total_len :: "bytes list \<Rightarrow> nat" where
  "total_len ds \<equiv> length (concat ds)"

lemma desc_chain_nth:
  assumes "desc_chain mem loc (d # ds)" "i < length d"
  shows "loc + i < length mem" "mem ! (loc + i) = d ! i"
proof -
  show "loc + i < length mem"
    using assms by simp
  have "take (length d) (drop loc mem) ! i = d ! i"
    using assms by simp
  then show "mem ! (loc + i) = d ! i"
    using assms by simp
qed

lemma DESCRIPTOR_TYPE_chain:
  assumes "desc_chain mem loc (d # ds)"
  shows "DESCRIPTOR_TYPE mem loc = Some (d ! 1)"
  using desc_chain_nth [OF assms, of 1] assms by (simp add: DESCRIPTOR_TYPE_def rd8_def valid_desc_def)

lemma USB_GetNextDescriptor_chain:
  assumes chain: "desc_chain mem loc (d # ds)" and small: "total_len (d # ds) < 2 ^ 16"
  shows "USB_GetNextDescriptor mem (of_nat (total_len (d # ds))) loc =
           Some (of_nat (total_len ds), loc + length d)"
proof -
  have d: "2 \<le> length d" "length d < 256" "d ! 0 = of_nat (length d)"
    using chain by (auto simp: valid_desc_def)
  have size: "DESCRIPTOR_SIZE mem loc = Some (of_nat (length d))"
    using desc_chain_nth [OF chain, of 0] d by (cases d) (auto simp: DESCRIPTOR_SIZE_def rd8_def)
  have sz: "ucast (of_nat (length d) :: u8) = (of_nat (length d) :: u16)"
    using d(2) by (intro word_unat_eq_iff [THEN iffD2])
      (simp add: unsigned_ucast_eq unsigned_of_nat take_bit_nat_eq_self)
  have "\<not> (of_nat (total_len (d # ds)) :: u16) < of_nat (length d)"
    using unat_u16 [OF small] unat_u16 [of "length d"] small
    by (simp add: word_less_nat_alt del: of_nat_add)
  moreover have "unat (of_nat (length d) :: u16) = length d"
    using d(2) by (simp add: unat_of_nat)
  ultimately show ?thesis
    using size sz by (simp add: USB_GetNextDescriptor_def Let_def)
qed

lemma of_nat_total_nonzero:
  assumes "desc_chain mem loc (d # ds)" "total_len (d # ds) < 2 ^ 16"
  shows "(of_nat (total_len (d # ds)) :: u16) \<noteq> 0"
proof -
  have "total_len (d # ds) \<noteq> 0"
    using assms(1) by (auto simp: valid_desc_def)
  then show ?thesis
    using unat_u16 [OF assms(2)] by (metis unat_0)
qed

section \<open>Searching\<close>

text \<open>
  The three search loops share a shape: step to the next descriptor, look at it, and either stop
  with a result or go on.  The locale fixes a search and the verdict it passes on each descriptor
  (\<open>judge\<close>, given the cursor before and after the step), and derives what the search returns on a
  well-formed block.
\<close>

locale descriptor_search =
  fixes search :: "bytes \<Rightarrow> u16 \<Rightarrow> nat \<Rightarrow> 'r option"
    and judge :: "bytes \<Rightarrow> u16 \<times> nat \<Rightarrow> u16 \<times> nat \<Rightarrow> 'r option option"
    and finish :: "nat \<Rightarrow> 'r"
  assumes search_end: "search mem 0 loc = Some (finish loc)"
    and search_step: "rem \<noteq> 0 \<Longrightarrow> search mem rem loc = do {
          cur \<leftarrow> USB_GetNextDescriptor mem rem loc;
          v \<leftarrow> judge mem (rem, loc) cur;
          case v of None \<Rightarrow> search mem (fst cur) (snd cur) | Some r \<Rightarrow> Some r
        }"
begin

definition cursor :: "nat \<Rightarrow> bytes list \<Rightarrow> u16 \<times> nat" where
  "cursor loc ds = (of_nat (total_len ds), loc)"

text \<open>
  What a search from the descriptor \<open>d\<close>, with the descriptors \<open>ds\<close> behind it, comes to.  The
  last step leaves the block: the verdict is then passed on whatever lies behind it.
\<close>

fun verdict :: "bytes \<Rightarrow> nat \<Rightarrow> bytes \<Rightarrow> bytes list \<Rightarrow> 'r option" where
  "verdict mem loc d [] = do {
     v \<leftarrow> judge mem (cursor loc [d]) (cursor (loc + length d) []);
     case v of None \<Rightarrow> Some (finish (loc + length d)) | Some r \<Rightarrow> Some r
   }"
| "verdict mem loc d (e # es) = do {
     v \<leftarrow> judge mem (cursor loc (d # e # es)) (cursor (loc + length d) (e # es));
     case v of None \<Rightarrow> verdict mem (loc + length d) e es | Some r \<Rightarrow> Some r
   }"

lemma search_chain_step:
  assumes "desc_chain mem loc (d # ds)" "total_len (d # ds) < 2 ^ 16"
  shows "search mem (of_nat (total_len (d # ds))) loc = do {
           v \<leftarrow> judge mem (cursor loc (d # ds)) (cursor (loc + length d) ds);
           case v of None \<Rightarrow> search mem (of_nat (total_len ds)) (loc + length d) | Some r \<Rightarrow> Some r
         }"
  using search_step [OF of_nat_total_nonzero [OF assms], of mem loc] USB_GetNextDescriptor_chain [OF assms]
  by (simp add: cursor_def)

lemma search_verdict:
  assumes "desc_chain mem loc (d # ds)" "total_len (d # ds) < 2 ^ 16"
  shows "search mem (of_nat (total_len (d # ds))) loc = verdict mem loc d ds"
  using assms
proof (induction ds arbitrary: d loc)
  case Nil
  then show ?case
    using search_chain_step [of mem loc d "[]"] by (simp add: search_end)
next
  case (Cons e es)
  then have "search mem (of_nat (total_len (e # es))) (loc + length d) = verdict mem (loc + length d) e es"
    by (intro Cons.IH) auto
  with search_chain_step [OF Cons.prems] show ?case
    by (simp only: verdict.simps)
qed

end

subsection \<open>The three searches as instances\<close>

definition judge_type :: "u8 \<Rightarrow> bytes \<Rightarrow> u16 \<times> nat \<Rightarrow> u16 \<times> nat \<Rightarrow> (u16 \<times> nat) option option" where
  "judge_type Type mem prev cur = do {
     t \<leftarrow> DESCRIPTOR_TYPE mem (snd cur);
     Some (if t = Type then Some cur else None)
   }"

definition judge_before ::
  "u8 \<Rightarrow> u8 \<Rightarrow> bytes \<Rightarrow> u16 \<times> nat \<Rightarrow> u16 \<times> nat \<Rightarrow> (u16 \<times> nat) option option" where
  "judge_before Type BeforeType mem prev cur = do {
     t \<leftarrow> DESCRIPTOR_TYPE mem (snd cur);
     Some (if t = Type then Some cur else if t = BeforeType then Some (0, snd cur) else None)
   }"

definition judge_comp ::
  "comparator \<Rightarrow> bytes \<Rightarrow> u16 \<times> nat \<Rightarrow> u16 \<times> nat \<Rightarrow> (u8 \<times> u16 \<times> nat) option option" where
  "judge_comp cmp mem prev cur = do {
     code \<leftarrow> cmp mem (snd cur);
     Some (if code = DESCRIPTOR_SEARCH_NotFound then None
           else if code = DESCRIPTOR_SEARCH_Fail then Some (code, prev)
           else Some (code, cur))
   }"

interpretation of_type: descriptor_search
  "USB_GetNextDescriptorOfType Type" "judge_type Type" "\<lambda>loc. (0, loc)" for Type
proof
  fix mem rem loc
  show "USB_GetNextDescriptorOfType Type mem 0 loc = Some (0, loc)"
    by (subst USB_GetNextDescriptorOfType.simps) simp
  assume "rem \<noteq> (0 :: u16)"
  then show "USB_GetNextDescriptorOfType Type mem rem loc = do {
      cur \<leftarrow> USB_GetNextDescriptor mem rem loc;
      v \<leftarrow> judge_type Type mem (rem, loc) cur;
      case v of None \<Rightarrow> USB_GetNextDescriptorOfType Type mem (fst cur) (snd cur) | Some r \<Rightarrow> Some r
    }"
    by (subst USB_GetNextDescriptorOfType.simps)
      (auto simp: judge_type_def split_beta intro!: Option.bind_cong)
qed

interpretation before: descriptor_search
  "USB_GetNextDescriptorOfTypeBefore Type BeforeType" "judge_before Type BeforeType" "\<lambda>loc. (0, loc)"
  for Type BeforeType
proof
  fix mem rem loc
  show "USB_GetNextDescriptorOfTypeBefore Type BeforeType mem 0 loc = Some (0, loc)"
    by (subst USB_GetNextDescriptorOfTypeBefore.simps) simp
  assume "rem \<noteq> (0 :: u16)"
  then show "USB_GetNextDescriptorOfTypeBefore Type BeforeType mem rem loc = do {
      cur \<leftarrow> USB_GetNextDescriptor mem rem loc;
      v \<leftarrow> judge_before Type BeforeType mem (rem, loc) cur;
      case v of None \<Rightarrow> USB_GetNextDescriptorOfTypeBefore Type BeforeType mem (fst cur) (snd cur)
              | Some r \<Rightarrow> Some r
    }"
    by (subst USB_GetNextDescriptorOfTypeBefore.simps)
      (auto simp: judge_before_def split_beta intro!: Option.bind_cong)
qed

interpretation comp: descriptor_search
  "USB_GetNextDescriptorComp cmp" "judge_comp cmp"
  "\<lambda>loc. (DESCRIPTOR_SEARCH_COMP_EndOfDescriptor, 0, loc)" for cmp
proof
  fix mem rem loc
  show "USB_GetNextDescriptorComp cmp mem 0 loc = Some (DESCRIPTOR_SEARCH_COMP_EndOfDescriptor, 0, loc)"
    by (subst USB_GetNextDescriptorComp.simps) simp
  assume "rem \<noteq> (0 :: u16)"
  then show "USB_GetNextDescriptorComp cmp mem rem loc = do {
      cur \<leftarrow> USB_GetNextDescriptor mem rem loc;
      v \<leftarrow> judge_comp cmp mem (rem, loc) cur;
      case v of None \<Rightarrow> USB_GetNextDescriptorComp cmp mem (fst cur) (snd cur) | Some r \<Rightarrow> Some r
    }"
    by (subst USB_GetNextDescriptorComp.simps)
      (auto simp: judge_comp_def split_beta Let_def intro!: Option.bind_cong)
qed

lemma judge_type_at:
  assumes "DESCRIPTOR_TYPE mem l = Some t"
  shows "judge_type Type mem prev (r, l) = Some (if t = Type then Some (r, l) else None)"
  using assms by (simp add: judge_type_def)

lemma judge_before_at:
  assumes "DESCRIPTOR_TYPE mem l = Some t"
  shows "judge_before Type BeforeType mem prev (r, l) =
           Some (if t = Type then Some (r, l) else if t = BeforeType then Some (0, l) else None)"
  using assms by (simp add: judge_before_def)

text \<open>With two readable bytes behind the block, the type searches are decided by the block alone.\<close>

lemma verdict_type:
  assumes "desc_chain mem loc (d # ds)" "loc + total_len (d # ds) + 2 \<le> length mem"
  shows "of_type.verdict Type mem loc d ds =
           (let r = dropWhile (\<lambda>e. e ! 1 \<noteq> Type) ds
            in Some (of_nat (total_len r), loc + total_len (d # ds) - total_len r))"
  using assms
proof (induction ds arbitrary: d loc)
  case Nil
  then obtain t where "DESCRIPTOR_TYPE mem (loc + length d) = Some t"
    by (auto simp: DESCRIPTOR_TYPE_def rd8_def)
  then show ?case
    by (simp add: judge_type_at of_type.cursor_def)
next
  case (Cons e es)
  have "of_type.verdict Type mem (loc + length d) e es =
      (let r = dropWhile (\<lambda>e. e ! 1 \<noteq> Type) es
       in Some (of_nat (total_len r), loc + length d + total_len (e # es) - total_len r))"
    using Cons.prems by (intro Cons.IH) auto
  moreover have "DESCRIPTOR_TYPE mem (loc + length d) = Some (e ! 1)"
    using Cons.prems by (intro DESCRIPTOR_TYPE_chain [of _ _ _ es]) auto
  ultimately show ?case
    by (auto simp: judge_type_at of_type.cursor_def Let_def add.assoc)
qed

lemma search_type:
  assumes "desc_chain mem loc (d # ds)" "total_len (d # ds) < 2 ^ 16"
    and "loc + total_len (d # ds) + 2 \<le> length mem"
  shows "USB_GetNextDescriptorOfType Type mem (of_nat (total_len (d # ds))) loc =
           (let r = dropWhile (\<lambda>e. e ! 1 \<noteq> Type) ds
            in Some (of_nat (total_len r), loc + total_len (d # ds) - total_len r))"
  using of_type.search_verdict [OF assms(1,2)] verdict_type [OF assms(1,3)] by simp

lemma verdict_before:
  assumes "desc_chain mem loc (d # ds)" "loc + total_len (d # ds) + 2 \<le> length mem"
  shows "before.verdict Type BeforeType mem loc d ds =
           (let r = dropWhile (\<lambda>e. e ! 1 \<noteq> Type \<and> e ! 1 \<noteq> BeforeType) ds
            in Some (if r \<noteq> [] \<and> hd r ! 1 = Type then of_nat (total_len r) else 0,
                     loc + total_len (d # ds) - total_len r))"
  using assms
proof (induction ds arbitrary: d loc)
  case Nil
  then obtain t where "DESCRIPTOR_TYPE mem (loc + length d) = Some t"
    by (auto simp: DESCRIPTOR_TYPE_def rd8_def)
  then show ?case
    by (simp add: judge_before_at before.cursor_def)
next
  case (Cons e es)
  have "before.verdict Type BeforeType mem (loc + length d) e es =
      (let r = dropWhile (\<lambda>e. e ! 1 \<noteq> Type \<and> e ! 1 \<noteq> BeforeType) es
       in Some (if r \<noteq> [] \<and> hd r ! 1 = Type then of_nat (total_len r) else 0,
                loc + length d + total_len (e # es) - total_len r))"
    using Cons.prems by (intro Cons.IH) auto
  moreover have "DESCRIPTOR_TYPE mem (loc + length d) = Some (e ! 1)"
    using Cons.prems by (intro DESCRIPTOR_TYPE_chain [of _ _ _ es]) auto
  ultimately show ?case
    by (simp add: judge_before_at before.cursor_def Let_def add.assoc)
qed

lemma chain_dropWhile:
  assumes "desc_chain mem loc ds"
  shows "desc_chain mem (loc + total_len ds - total_len (dropWhile P ds)) (dropWhile P ds)"
  using assms
proof (induction ds arbitrary: loc)
  case (Cons d ds)
  then show ?case
    using Cons.IH [of "loc + length d"] by (auto simp: add.assoc)
qed simp

lemma total_dropWhile: "total_len (dropWhile P ds) \<le> total_len ds"
  by (induction ds) auto

text \<open>The comparator search, skipping and stopping.\<close>

lemma judge_comp_at:
  assumes "cmp mem l = Some code"
  shows "judge_comp cmp mem prev (r, l) =
           Some (if code = DESCRIPTOR_SEARCH_NotFound then None
                 else if code = DESCRIPTOR_SEARCH_Fail then Some (code, prev)
                 else Some (code, r, l))"
  using assms by (simp add: judge_comp_def)

lemma verdict_comp_stops:
  assumes "\<forall>k < length es. cmp mem (loc + total_len (d # take k es)) = Some DESCRIPTOR_SEARCH_NotFound"
    and "cmp mem (loc + total_len (d # es)) = Some code" "code \<noteq> DESCRIPTOR_SEARCH_NotFound"
  shows "comp.verdict cmp mem loc d (es @ e # post) =
           Some (if code = DESCRIPTOR_SEARCH_Fail
                 then (code, of_nat (total_len (last (d # es) # e # post)), loc + total_len (butlast (d # es)))
                 else (code, of_nat (total_len (e # post)), loc + total_len (d # es)))"
  using assms
proof (induction es arbitrary: d loc)
  case Nil
  then show ?case
    by (simp add: judge_comp_at comp.cursor_def)
next
  case (Cons x es)
  have "cmp mem (loc + length d) = Some DESCRIPTOR_SEARCH_NotFound"
    using Cons.prems(1) by (auto dest: spec [of _ 0])
  moreover have "comp.verdict cmp mem (loc + length d) x (es @ e # post) =
      Some (if code = DESCRIPTOR_SEARCH_Fail
            then (code, of_nat (total_len (last (x # es) # e # post)),
                  loc + length d + total_len (butlast (x # es)))
            else (code, of_nat (total_len (e # post)), loc + length d + total_len (x # es)))"
  proof (intro Cons.IH allI impI)
    fix k assume "k < length es"
    then show "cmp mem (loc + length d + total_len (x # take k es)) = Some DESCRIPTOR_SEARCH_NotFound"
      using Cons.prems(1) [rule_format, of "Suc k"] by (simp add: add.assoc)
  qed (use Cons.prems in \<open>simp_all add: add.assoc\<close>)
  ultimately show ?case
    by (simp add: judge_comp_at comp.cursor_def add.assoc)
qed

lemma verdict_comp_runs_off:
  assumes "\<forall>k < length es. cmp mem (loc + total_len (d # take k es)) = Some DESCRIPTOR_SEARCH_NotFound"
    and "cmp mem (loc + total_len (d # es)) = Some code"
  shows "comp.verdict cmp mem loc d es =
           Some (if code = DESCRIPTOR_SEARCH_Fail
                 then (code, of_nat (length (last (d # es))), loc + total_len (butlast (d # es)))
                 else (code, 0, loc + total_len (d # es)))"
  using assms
proof (induction es arbitrary: d loc)
  case Nil
  then show ?case
    unfolding comp.verdict.simps by (auto simp: judge_comp_at comp.cursor_def search_codes)
next
  case (Cons x es)
  have "cmp mem (loc + length d) = Some DESCRIPTOR_SEARCH_NotFound"
    using Cons.prems(1) by (auto dest: spec [of _ 0])
  moreover have "comp.verdict cmp mem (loc + length d) x es =
      Some (if code = DESCRIPTOR_SEARCH_Fail
            then (code, of_nat (length (last (x # es))), loc + length d + total_len (butlast (x # es)))
            else (code, 0, loc + length d + total_len (x # es)))"
  proof (intro Cons.IH allI impI)
    fix k assume "k < length es"
    then show "cmp mem (loc + length d + total_len (x # take k es)) = Some DESCRIPTOR_SEARCH_NotFound"
      using Cons.prems(1) [rule_format, of "Suc k"] by (simp add: add.assoc)
  qed (use Cons.prems in \<open>simp_all add: add.assoc\<close>)
  ultimately show ?case
    by (simp add: judge_comp_at comp.cursor_def add.assoc)
qed

section \<open>Properties\<close>

text \<open>
  C12. On a well-formed block (every descriptor at least its header long) with two readable bytes
  behind it, the type searches terminate, never read outside the memory, and leave the cursor on the
  first matching descriptor behind the current one, with the bytes from there on remaining; with no
  match the remaining count is zero and the cursor is at the end.  The bounded search reports failure
  by a zero count when the bounding type comes first; the two-stage search looks for the second type
  behind the first match of the first.
\<close>

theorem descriptor_type_searches:
  assumes "desc_chain mem loc (d # ds)" "total_len (d # ds) < 2 ^ 16"
    and "loc + total_len (d # ds) + 2 \<le> length mem"
  shows "USB_GetNextDescriptorOfType Type mem (of_nat (total_len (d # ds))) loc =
           (let r = dropWhile (\<lambda>e. e ! 1 \<noteq> Type) ds
            in Some (of_nat (total_len r), loc + total_len (d # ds) - total_len r)) \<and>
         USB_GetNextDescriptorOfTypeBefore Type Other mem (of_nat (total_len (d # ds))) loc =
           (let r = dropWhile (\<lambda>e. e ! 1 \<noteq> Type \<and> e ! 1 \<noteq> Other) ds
            in Some (if r \<noteq> [] \<and> hd r ! 1 = Type then of_nat (total_len r) else 0,
                     loc + total_len (d # ds) - total_len r)) \<and>
         USB_GetNextDescriptorOfTypeAfter Type Other mem (of_nat (total_len (d # ds))) loc =
           (let r = dropWhile (\<lambda>e. e ! 1 \<noteq> Other) ds;
                r' = dropWhile (\<lambda>e. e ! 1 \<noteq> Type) (tl r)
            in Some (of_nat (total_len r'), loc + total_len (d # ds) - total_len r'))"
proof (intro conjI)
  show "USB_GetNextDescriptorOfType Type mem (of_nat (total_len (d # ds))) loc =
           (let r = dropWhile (\<lambda>e. e ! 1 \<noteq> Type) ds
            in Some (of_nat (total_len r), loc + total_len (d # ds) - total_len r))"
    using assms by (rule search_type)
  show "USB_GetNextDescriptorOfTypeBefore Type Other mem (of_nat (total_len (d # ds))) loc =
           (let r = dropWhile (\<lambda>e. e ! 1 \<noteq> Type \<and> e ! 1 \<noteq> Other) ds
            in Some (if r \<noteq> [] \<and> hd r ! 1 = Type then of_nat (total_len r) else 0,
                     loc + total_len (d # ds) - total_len r))"
    using before.search_verdict [OF assms(1,2)] verdict_before [OF assms(1,3)] by simp
  let ?r = "dropWhile (\<lambda>e. e ! 1 \<noteq> Other) ds"
  let ?loc = "loc + total_len (d # ds) - total_len ?r"
  note le = total_dropWhile [of "\<lambda>e. e ! 1 \<noteq> Other" ds]
  have first: "USB_GetNextDescriptorOfType Other mem (of_nat (total_len (d # ds))) loc =
      Some (of_nat (total_len ?r), ?loc)"
    using search_type [OF assms, of Other] by (simp add: Let_def)
  show "USB_GetNextDescriptorOfTypeAfter Type Other mem (of_nat (total_len (d # ds))) loc =
           (let r = ?r; r' = dropWhile (\<lambda>e. e ! 1 \<noteq> Type) (tl r)
            in Some (of_nat (total_len r'), loc + total_len (d # ds) - total_len r'))"
  proof (cases ?r)
    case Nil
    show ?thesis
      using first unfolding Nil by (simp add: USB_GetNextDescriptorOfTypeAfter_def)
  next
    case (Cons x xs)
    have chain: "desc_chain mem ?loc (x # xs)"
      using chain_dropWhile [of mem "loc + length d" ds "\<lambda>e. e ! 1 \<noteq> Other"] assms(1)
      unfolding Cons by (simp add: add.assoc)
    have small: "total_len (x # xs) < 2 ^ 16"
      using le assms(2) Cons by simp
    have at: "?loc + total_len (x # xs) = loc + total_len (d # ds)"
      using le Cons by simp
    show ?thesis
      using search_type [OF chain small, of Type] first assms(3) at
        of_nat_total_nonzero [OF chain small]
      unfolding Cons by (simp add: USB_GetNextDescriptorOfTypeAfter_def)
  qed
qed

text \<open>A configuration, an interface and two endpoint descriptors, cut down to their headers.\<close>

definition sample_block :: bytes where
  "sample_block = [3, 2, 0, 2, 4, 4, 5, 1, 2, 3, 5, 7, 0, 0]"

theorem descriptor_type_searches_witness:
  "USB_GetNextDescriptorOfType 5 sample_block 12 0 = Some (7, 5) \<and>
   USB_GetNextDescriptorOfTypeBefore 5 4 sample_block 12 0 = Some (0, 3) \<and>
   USB_GetNextDescriptorOfTypeAfter 5 4 sample_block 12 0 = Some (7, 5)"
  using descriptor_type_searches
    [of sample_block 0 "[3, 2, 0]" "[[2, 4], [4, 5, 1, 2], [3, 5, 7]]" 5 4]
  by (simp add: sample_block_def valid_desc_def)

text \<open>
  C13. The comparator search stops at the first descriptor the comparator does not reject, and
  returns its code: the cursor is on that descriptor, or, when the comparator failed the search, on
  the descriptor before it, so that a second search meets the failing descriptor again.
\<close>

theorem comparator_search_stops:
  assumes "desc_chain mem loc (d # es @ e # post)" "total_len (d # es @ e # post) < 2 ^ 16"
    and "\<forall>k < length es. cmp mem (loc + total_len (d # take k es)) = Some DESCRIPTOR_SEARCH_NotFound"
    and "cmp mem (loc + total_len (d # es)) = Some code" "code \<noteq> DESCRIPTOR_SEARCH_NotFound"
  shows "USB_GetNextDescriptorComp cmp mem (of_nat (total_len (d # es @ e # post))) loc =
           Some (if code = DESCRIPTOR_SEARCH_Fail
                 then (code, of_nat (total_len (last (d # es) # e # post)), loc + total_len (butlast (d # es)))
                 else (code, of_nat (total_len (e # post)), loc + total_len (d # es)))"
  using comp.search_verdict [OF assms(1,2)] verdict_comp_stops [of es cmp mem loc d code e post] assms(3-5) by metis

definition find_endpoint :: comparator where
  "find_endpoint mem loc = do {
     t \<leftarrow> DESCRIPTOR_TYPE mem loc;
     Some (if t = DTYPE_Endpoint then DESCRIPTOR_SEARCH_Found else DESCRIPTOR_SEARCH_NotFound)
   }"

theorem comparator_search_stops_witness:
  "USB_GetNextDescriptorComp find_endpoint sample_block 12 0 = Some (DESCRIPTOR_SEARCH_Found, 7, 5)"
  using comparator_search_stops
    [of sample_block 0 "[3, 2, 0]" "[[2, 4]]" "[4, 5, 1, 2]" "[[3, 5, 7]]" find_endpoint 0]
  by (simp add: sample_block_def valid_desc_def find_endpoint_def DESCRIPTOR_TYPE_def rd8_def
      search_codes DTYPE_Endpoint_def)

text \<open>
  C14. When no descriptor of the block matches, the comparator is still called once more, on the
  bytes behind the block, and its answer there is the answer of the search: stale bytes that look
  like a match are reported as found, with no bytes remaining.
\<close>

theorem comparator_search_reads_past_block:
  assumes "desc_chain mem loc (d # es)" "total_len (d # es) < 2 ^ 16"
    and "\<forall>k < length es. cmp mem (loc + total_len (d # take k es)) = Some DESCRIPTOR_SEARCH_NotFound"
    and "cmp mem (loc + total_len (d # es)) = Some DESCRIPTOR_SEARCH_Found"
  shows "USB_GetNextDescriptorComp cmp mem (of_nat (total_len (d # es))) loc =
           Some (DESCRIPTOR_SEARCH_Found, 0, loc + total_len (d # es))"
  using comp.search_verdict [OF assms(1,2), of cmp] verdict_comp_runs_off [of es cmp mem loc d 0] assms(3,4)
  by (simp add: search_codes)

theorem comparator_search_reads_past_block_witness:
  "USB_GetNextDescriptorComp find_endpoint [3, 2, 0, 2, 4, 9, 5] 5 0 = Some (DESCRIPTOR_SEARCH_Found, 0, 5)"
  using comparator_search_reads_past_block
    [of "[3, 2, 0, 2, 4, 9, 5]" 0 "[3, 2, 0]" "[[2, 4]]" find_endpoint]
  by (simp add: valid_desc_def find_endpoint_def DESCRIPTOR_TYPE_def rd8_def search_codes
      DTYPE_Endpoint_def)

lemma zero_length_search_loops:
  assumes "USB_GetNextDescriptorOfType Type mem rem loc = Some r"
  shows "rem \<noteq> 0 \<longrightarrow> rd8 mem loc = Some 0 \<longrightarrow> rd8 mem (loc + 1) \<noteq> None \<longrightarrow> rd8 mem (loc + 1) = Some Type"
proof (rule USB_GetNextDescriptorOfType.raw_induct [OF _ assms, where P =
      "\<lambda>Type mem rem loc r. rem \<noteq> 0 \<longrightarrow> rd8 mem loc = Some 0 \<longrightarrow> rd8 mem (loc + 1) \<noteq> None \<longrightarrow>
         rd8 mem (loc + 1) = Some Type"], intro impI)
  fix search Type mem rem loc r
  assume IH: "\<And>Type mem rem loc r. search Type mem rem loc = Some r \<Longrightarrow>
      rem \<noteq> 0 \<longrightarrow> rd8 mem loc = Some 0 \<longrightarrow> rd8 mem (loc + 1) \<noteq> None \<longrightarrow> rd8 mem (loc + 1) = Some Type"
    and run: "(if rem = 0 then Some (rem, loc)
      else do {
        (rem, loc) \<leftarrow> USB_GetNextDescriptor mem rem loc;
        t \<leftarrow> DESCRIPTOR_TYPE mem loc;
        if t = Type then Some (rem, loc) else search Type mem rem loc
      }) = Some r"
    and rem: "rem \<noteq> 0" and z: "rd8 mem loc = Some 0" and t: "rd8 mem (loc + 1) \<noteq> None"
  have "USB_GetNextDescriptor mem rem loc = Some (rem, loc)"
    using z rem by (simp add: USB_GetNextDescriptor_def DESCRIPTOR_SIZE_def Let_def word_less_nat_alt)
  then show "rd8 mem (loc + 1) = Some Type"
    using IH [of Type mem rem loc r] run rem z t
    by (auto simp: DESCRIPTOR_TYPE_def split: if_splits)
qed

text \<open>
  C15. A descriptor of length zero and of another type than the one wanted makes the type search
  run forever: the search has no result, although every access it makes is inside the memory.
\<close>

theorem zero_length_descriptor_hangs:
  assumes "rem \<noteq> 0" "rd8 mem loc = Some 0" "rd8 mem (loc + 1) = Some t" "t \<noteq> Type"
  shows "USB_GetNextDescriptor mem rem loc = Some (rem, loc) \<and>
         USB_GetNextDescriptorOfType Type mem rem loc = None"
proof -
  have "USB_GetNextDescriptor mem rem loc = Some (rem, loc)"
    using assms by (simp add: USB_GetNextDescriptor_def DESCRIPTOR_SIZE_def Let_def word_less_nat_alt)
  moreover have "USB_GetNextDescriptorOfType Type mem rem loc = None"
    using zero_length_search_loops [of Type mem rem loc] assms
    by (cases "USB_GetNextDescriptorOfType Type mem rem loc") auto
  ultimately show ?thesis ..
qed

theorem zero_length_descriptor_hangs_witness:
  "USB_GetNextDescriptorOfType 5 [0, 4, 7, 5, 0, 0, 0, 0, 0] 9 0 = None"
  using zero_length_descriptor_hangs [of 9 "[0, 4, 7, 5, 0, 0, 0, 0, 0]" 0 4 5] by (simp add: rd8_def)

end
