(* ===== verification/HID_Parser.thy ===== *)
theory HID_Parser
  imports Prelude
begin

text \<open>
  The HID report descriptor parser of the host library:
  \<^verbatim>\<open>LUFA/Drivers/USB/Class/Common/HIDParser.c\<close>, with the structures of
  \<^verbatim>\<open>HIDParser.h\<close> and the item codes of \<^verbatim>\<open>HIDReportData.h\<close>.

  Pointers into the arrays of the parser are indices (\<^term>\<open>None\<close> is the null pointer).  One
  definition stands for each case of the item switch.  The callback that filters report items
  belongs to the application and is a parameter, and so are the stack bytes the parser reads before
  it has written them (\<open>hid_env\<close>).  Reading or writing outside an array, and a \<^verbatim>\<open>memcpy\<close>
  whose ranges overlap or leave an array, have the value \<^term>\<open>None\<close>.
\<close>

section \<open>Data\<close>

definition HID_STATETABLE_STACK_DEPTH :: nat where "HID_STATETABLE_STACK_DEPTH = 2"

definition HID_USAGE_STACK_DEPTH :: nat where "HID_USAGE_STACK_DEPTH = 8"

definition HID_MAX_COLLECTIONS :: nat where "HID_MAX_COLLECTIONS = 10"

definition HID_MAX_REPORTITEMS :: nat where "HID_MAX_REPORTITEMS = 20"

definition HID_MAX_REPORT_IDS :: nat where "HID_MAX_REPORT_IDS = 10"

lemmas hid_limits = HID_STATETABLE_STACK_DEPTH_def HID_USAGE_STACK_DEPTH_def
  HID_MAX_COLLECTIONS_def HID_MAX_REPORTITEMS_def HID_MAX_REPORT_IDS_def

datatype hid_code =
    HID_PARSE_Successful
  | HID_PARSE_HIDStackOverflow
  | HID_PARSE_HIDStackUnderflow
  | HID_PARSE_InsufficientReportItems
  | HID_PARSE_UnexpectedEndCollection
  | HID_PARSE_InsufficientCollectionPaths
  | HID_PARSE_UsageListOverflow
  | HID_PARSE_InsufficientReportIDItems
  | HID_PARSE_NoUnfilteredReportItems

record HID_MinMax_t =
  mm_Minimum :: u32
  mm_Maximum :: u32

record HID_Unit_t =
  un_Type :: u32
  un_Exponent :: u8

record HID_Usage_t =
  us_Page :: u16
  us_Usage :: u16

record HID_CollectionPath_t =
  cp_Type :: u8
  cp_Usage :: HID_Usage_t
  cp_Parent :: "nat option"

record HID_ReportItem_Attributes_t =
  at_BitSize :: u8
  at_Usage :: HID_Usage_t
  at_Unit :: HID_Unit_t
  at_Logical :: HID_MinMax_t
  at_Physical :: HID_MinMax_t

record HID_ReportItem_t =
  ri_BitOffset :: u16
  ri_ItemType :: nat
  ri_ItemFlags :: u16
  ri_ReportID :: u8
  ri_CollectionPath :: "nat option"
  ri_Attributes :: HID_ReportItem_Attributes_t
  ri_Value :: u32
  ri_PreviousValue :: u32

record HID_ReportSizeInfo_t =
  rs_ReportID :: u8
  rs_ReportSizeBits :: "u16 list"

record HID_ReportInfo_t =
  TotalReportItems :: nat
  ReportItems :: "HID_ReportItem_t list"
  CollectionPaths :: "HID_CollectionPath_t list"
  TotalDeviceReports :: nat
  ReportIDSizes :: "HID_ReportSizeInfo_t list"
  LargestReportSizeBits :: u16
  UsingReportIDs :: bool

record HID_StateTable_t =
  st_Attributes :: HID_ReportItem_Attributes_t
  st_ReportCount :: u8
  st_ReportID :: u8

text \<open>The structures after \<^verbatim>\<open>memset(..., 0, ...)\<close>.\<close>

definition zero_minmax :: HID_MinMax_t where
  "zero_minmax = \<lparr>mm_Minimum = 0, mm_Maximum = 0\<rparr>"

definition zero_usage :: HID_Usage_t where
  "zero_usage = \<lparr>us_Page = 0, us_Usage = 0\<rparr>"

definition zero_attributes :: HID_ReportItem_Attributes_t where
  "zero_attributes = \<lparr>at_BitSize = 0, at_Usage = zero_usage,
     at_Unit = \<lparr>un_Type = 0, un_Exponent = 0\<rparr>, at_Logical = zero_minmax, at_Physical = zero_minmax\<rparr>"

definition zero_item :: HID_ReportItem_t where
  "zero_item = \<lparr>ri_BitOffset = 0, ri_ItemType = 0, ri_ItemFlags = 0, ri_ReportID = 0,
     ri_CollectionPath = None, ri_Attributes = zero_attributes, ri_Value = 0, ri_PreviousValue = 0\<rparr>"

definition zero_size_info :: HID_ReportSizeInfo_t where
  "zero_size_info = \<lparr>rs_ReportID = 0, rs_ReportSizeBits = [0, 0, 0]\<rparr>"

definition zero_state :: HID_StateTable_t where
  "zero_state = \<lparr>st_Attributes = zero_attributes, st_ReportCount = 0, st_ReportID = 0\<rparr>"

definition zero_info :: HID_ReportInfo_t where
  "zero_info = \<lparr>TotalReportItems = 0, ReportItems = replicate HID_MAX_REPORTITEMS zero_item,
     CollectionPaths = replicate HID_MAX_COLLECTIONS \<lparr>cp_Type = 0, cp_Usage = zero_usage, cp_Parent = None\<rparr>,
     TotalDeviceReports = 0, ReportIDSizes = replicate HID_MAX_REPORT_IDS zero_size_info,
     LargestReportSizeBits = 0, UsingReportIDs = False\<rparr>"

text \<open>
  Sizes of two structures on the AVR, where structures have no padding and pointers two bytes:
  the attributes take \<open>1 + 4 + 5 + 8 + 8\<close> bytes.
\<close>

definition sizeof_Attributes :: nat where
  "sizeof_Attributes = 1 + (2 + 2) + (4 + 1) + (4 + 4) + (4 + 4)"

definition sizeof_StateTable :: nat where
  "sizeof_StateTable = sizeof_Attributes + 1 + 1"

definition sizeof_ReportItem :: nat where
  "sizeof_ReportItem = 2 + 1 + 2 + 1 + 2 + sizeof_Attributes + 4 + 4"

section \<open>The parser\<close>

record hid_env =
  env_filter :: "HID_ReportItem_t \<Rightarrow> bool"
  env_state :: HID_StateTable_t
  env_usages :: "u16 list"
  env_item :: HID_ReportItem_t

text \<open>The local variables of \<^verbatim>\<open>USB_ProcessHIDReport\<close> and the output structure.\<close>

record hid_parser =
  StateTable :: "HID_StateTable_t list"
  CurrStateTable :: nat
  CurrCollectionPath :: "nat option"
  CurrReportIDInfo :: nat
  UsageList :: "u16 list"
  UsageListSize :: nat
  UsageMinMax :: HID_MinMax_t
  ParserData :: HID_ReportInfo_t

datatype hid_outcome = Return hid_code hid_parser | Next hid_parser

definition parser_init :: "hid_env \<Rightarrow> hid_parser" where
  "parser_init env =
     \<lparr>StateTable = zero_state # replicate (HID_STATETABLE_STACK_DEPTH - 1) (env_state env),
      CurrStateTable = 0, CurrCollectionPath = None, CurrReportIDInfo = 0,
      UsageList = env_usages env, UsageListSize = 0, UsageMinMax = zero_minmax,
      ParserData = zero_info\<lparr>TotalDeviceReports := 1\<rparr>\<rparr>"

text \<open>
  The bytes of a state table slot, in the order of the structure's members, and \<^verbatim>\<open>memcpy\<close> inside one
  object: ranges that leave it or overlap have no defined result.
\<close>

definition le16 :: "u16 \<Rightarrow> bytes" where
  "le16 w = [byte0 w, byte1 w]"

definition le32 :: "u32 \<Rightarrow> bytes" where
  "le32 w = [byte0 w, byte1 w, byte2 w, byte3 w]"

definition enc_state :: "HID_StateTable_t \<Rightarrow> bytes" where
  "enc_state s = (let a = st_Attributes s in
     [at_BitSize a] @ le16 (us_Page (at_Usage a)) @ le16 (us_Usage (at_Usage a)) @
     le32 (un_Type (at_Unit a)) @ [un_Exponent (at_Unit a)] @
     le32 (mm_Minimum (at_Logical a)) @ le32 (mm_Maximum (at_Logical a)) @
     le32 (mm_Minimum (at_Physical a)) @ le32 (mm_Maximum (at_Physical a)) @ [st_ReportCount s, st_ReportID s])"

definition dec_state :: "bytes \<Rightarrow> HID_StateTable_t" where
  "dec_state m = (let w = (\<lambda>i. word32_of (m ! i) (m ! (i + 1)) (m ! (i + 2)) (m ! (i + 3))) in
     \<lparr>st_Attributes = \<lparr>at_BitSize = m ! 0,
        at_Usage = \<lparr>us_Page = word16_of (m ! 1) (m ! 2), us_Usage = word16_of (m ! 3) (m ! 4)\<rparr>,
        at_Unit = \<lparr>un_Type = w 5, un_Exponent = m ! 9\<rparr>,
        at_Logical = \<lparr>mm_Minimum = w 10, mm_Maximum = w 14\<rparr>,
        at_Physical = \<lparr>mm_Minimum = w 18, mm_Maximum = w 22\<rparr>\<rparr>,
      st_ReportCount = m ! 26, st_ReportID = m ! 27\<rparr>)"

definition memcpy_inside :: "bytes \<Rightarrow> nat \<Rightarrow> nat \<Rightarrow> nat \<Rightarrow> bytes option" where
  "memcpy_inside m dst src n =
     (if src < dst + n \<and> dst < src + n then None
      else do { bs \<leftarrow> rdn m src n; wrn m dst bs })"

text \<open>\<^verbatim>\<open>memcpy\<close> of \<open>n\<close> bytes from slot \<open>i\<close> of the state table to slot \<open>i + 1\<close>.\<close>

definition copy_slot :: "nat \<Rightarrow> HID_StateTable_t list \<Rightarrow> nat \<Rightarrow> HID_StateTable_t list option" where
  "copy_slot n table i = do {
     m \<leftarrow> memcpy_inside (concat (map enc_state table)) ((i + 1) * sizeof_StateTable) (i * sizeof_StateTable) n;
     Some (map (\<lambda>k. dec_state (take sizeof_StateTable (drop (k * sizeof_StateTable) m))) [0..<length table])
   }"

definition item_push :: "hid_parser \<Rightarrow> hid_outcome option" where
  "item_push p =
     (if CurrStateTable p = HID_STATETABLE_STACK_DEPTH - 1
      then Some (Return HID_PARSE_HIDStackOverflow p)
      else do {
        table \<leftarrow> copy_slot sizeof_ReportItem (StateTable p) (CurrStateTable p);
        Some (Next (p\<lparr>StateTable := table, CurrStateTable := CurrStateTable p + 1\<rparr>))
      })"

definition item_pop :: "hid_parser \<Rightarrow> hid_outcome option" where
  "item_pop p =
     (if CurrStateTable p = 0 then Some (Return HID_PARSE_HIDStackUnderflow p)
      else Some (Next (p\<lparr>CurrStateTable := CurrStateTable p - 1\<rparr>)))"

text \<open>Assignments through \<^verbatim>\<open>CurrStateTable\<close>.\<close>

definition upd_state :: "(HID_StateTable_t \<Rightarrow> HID_StateTable_t) \<Rightarrow> hid_parser \<Rightarrow> hid_parser option" where
  "upd_state f p = do {
     s \<leftarrow> arr_rd (StateTable p) (CurrStateTable p);
     table \<leftarrow> arr_wr (StateTable p) (CurrStateTable p) (f s);
     Some (p\<lparr>StateTable := table\<rparr>)
   }"

definition upd_attr ::
  "(HID_ReportItem_Attributes_t \<Rightarrow> HID_ReportItem_Attributes_t) \<Rightarrow> hid_parser \<Rightarrow> hid_outcome option" where
  "upd_attr f p = do {
     p \<leftarrow> upd_state (\<lambda>s. s\<lparr>st_Attributes := f (st_Attributes s)\<rparr>) p;
     Some (Next p)
   }"

definition set_page :: "u32 \<Rightarrow> HID_ReportItem_Attributes_t \<Rightarrow> HID_ReportItem_Attributes_t" where
  "set_page v a = a\<lparr>at_Usage := (at_Usage a)\<lparr>us_Page := ucast v\<rparr>\<rparr>"

definition item_usage_page :: "u8 \<Rightarrow> u32 \<Rightarrow> hid_parser \<Rightarrow> hid_outcome option" where
  "item_usage_page HIDReportItem ReportItemData p =
     upd_attr (\<lambda>a.
       let a = (if HIDReportItem AND 0x03 = 0x03 then set_page (drop_bit 16 ReportItemData) a else a)
       in set_page ReportItemData a) p"

text \<open>The remaining global items each set one field.\<close>

definition set_global :: "u8 \<Rightarrow> u32 \<Rightarrow> HID_ReportItem_Attributes_t \<Rightarrow> HID_ReportItem_Attributes_t" where
  "set_global tag v a =
     (if tag = 0x14 then a\<lparr>at_Logical := (at_Logical a)\<lparr>mm_Minimum := v\<rparr>\<rparr>
      else if tag = 0x24 then a\<lparr>at_Logical := (at_Logical a)\<lparr>mm_Maximum := v\<rparr>\<rparr>
      else if tag = 0x34 then a\<lparr>at_Physical := (at_Physical a)\<lparr>mm_Minimum := v\<rparr>\<rparr>
      else if tag = 0x44 then a\<lparr>at_Physical := (at_Physical a)\<lparr>mm_Maximum := v\<rparr>\<rparr>
      else if tag = 0x54 then a\<lparr>at_Unit := (at_Unit a)\<lparr>un_Exponent := ucast v\<rparr>\<rparr>
      else if tag = 0x64 then a\<lparr>at_Unit := (at_Unit a)\<lparr>un_Type := v\<rparr>\<rparr>
      else a\<lparr>at_BitSize := ucast v\<rparr>)"

fun find_report_id :: "u8 \<Rightarrow> HID_ReportSizeInfo_t list \<Rightarrow> nat \<Rightarrow> nat \<Rightarrow> nat option option" where
  "find_report_id rid sizes i 0 = Some None"
| "find_report_id rid [] i (Suc n) = None"
| "find_report_id rid (s # ss) i (Suc n) =
     (if rs_ReportID s = rid then Some (Some i) else find_report_id rid ss (i + 1) n)"

definition set_report_id :: "u8 \<Rightarrow> hid_parser \<Rightarrow> hid_outcome option" where
  "set_report_id rid p = do {
     let pd = ParserData p;
     s \<leftarrow> arr_rd (ReportIDSizes pd) (CurrReportIDInfo p);
     sizes \<leftarrow> arr_wr (ReportIDSizes pd) (CurrReportIDInfo p) (s\<lparr>rs_ReportID := rid\<rparr>);
     Some (Next (p\<lparr>ParserData := pd\<lparr>UsingReportIDs := True, ReportIDSizes := sizes\<rparr>\<rparr>))
   }"

definition item_report_id :: "u32 \<Rightarrow> hid_parser \<Rightarrow> hid_outcome option" where
  "item_report_id ReportItemData p = do {
     p \<leftarrow> upd_state (\<lambda>s. s\<lparr>st_ReportID := ucast ReportItemData\<rparr>) p;
     let pd = ParserData p;
     let rid = (ucast ReportItemData :: u8);
     if UsingReportIDs pd then do {
       found \<leftarrow> find_report_id rid (ReportIDSizes pd) 0 (TotalDeviceReports pd);
       case found of
         Some i \<Rightarrow> set_report_id rid (p\<lparr>CurrReportIDInfo := i\<rparr>)
       | None \<Rightarrow>
           if TotalDeviceReports pd = HID_MAX_REPORT_IDS
           then Some (Return HID_PARSE_InsufficientReportIDItems p)
           else do {
             sizes \<leftarrow> arr_wr (ReportIDSizes pd) (TotalDeviceReports pd) zero_size_info;
             set_report_id rid (p\<lparr>CurrReportIDInfo := TotalDeviceReports pd,
               ParserData := pd\<lparr>TotalDeviceReports := TotalDeviceReports pd + 1,
                                ReportIDSizes := sizes\<rparr>\<rparr>)
           }
     }
     else set_report_id rid p
   }"

definition item_usage :: "u32 \<Rightarrow> hid_parser \<Rightarrow> hid_outcome option" where
  "item_usage ReportItemData p =
     (if UsageListSize p = HID_USAGE_STACK_DEPTH then Some (Return HID_PARSE_UsageListOverflow p)
      else do {
        us \<leftarrow> arr_wr (UsageList p) (UsageListSize p) (ucast ReportItemData);
        Some (Next (p\<lparr>UsageList := us, UsageListSize := UsageListSize p + 1\<rparr>))
      })"

text \<open>
  Taking the next usage, code the collection and the main items share: the head of the usage list
  (which is shifted down by one, the element behind the last used one included), or the next value
  of the usage range, or no usage at all.
\<close>

fun shift_usages :: "nat \<Rightarrow> nat \<Rightarrow> u16 list \<Rightarrow> u16 list option" where
  "shift_usages i 0 us = Some us"
| "shift_usages i (Suc n) us = do {
     u \<leftarrow> arr_rd us (i + 1);
     us \<leftarrow> arr_wr us i u;
     shift_usages (i + 1) n us
   }"

definition next_usage :: "hid_parser \<Rightarrow> (u16 option \<times> hid_parser) option" where
  "next_usage p =
     (if UsageListSize p \<noteq> 0 then do {
        u \<leftarrow> arr_rd (UsageList p) 0;
        us \<leftarrow> shift_usages 0 (UsageListSize p) (UsageList p);
        Some (Some u, p\<lparr>UsageList := us, UsageListSize := UsageListSize p - 1\<rparr>)
      }
      else if mm_Minimum (UsageMinMax p) \<le> mm_Maximum (UsageMinMax p) then
        Some (Some (ucast (mm_Minimum (UsageMinMax p))),
              p\<lparr>UsageMinMax := (UsageMinMax p)\<lparr>mm_Minimum := mm_Minimum (UsageMinMax p) + 1\<rparr>\<rparr>)
      else Some (None, p))"

text \<open>Collections: the walk over the path array for a free slot, and the two collection items.\<close>

fun free_path :: "HID_CollectionPath_t list \<Rightarrow> nat \<Rightarrow> nat option option" where
  "free_path [] i = None"
| "free_path (c # cs) i =
     (if cp_Parent c = None then Some (Some i)
      else if i = HID_MAX_COLLECTIONS - 1 then Some None
      else free_path cs (i + 1))"

definition fill_path :: "nat \<Rightarrow> u32 \<Rightarrow> hid_parser \<Rightarrow> hid_outcome option" where
  "fill_path i ReportItemData p = do {
     st \<leftarrow> arr_rd (StateTable p) (CurrStateTable p);
     c \<leftarrow> arr_rd (CollectionPaths (ParserData p)) i;
     let c = c\<lparr>cp_Type := ucast ReportItemData,
               cp_Usage := (cp_Usage c)\<lparr>us_Page := us_Page (at_Usage (st_Attributes st))\<rparr>\<rparr>;
     (u, p) \<leftarrow> next_usage p;
     let c = (case u of Some u \<Rightarrow> c\<lparr>cp_Usage := (cp_Usage c)\<lparr>us_Usage := u\<rparr>\<rparr> | None \<Rightarrow> c);
     paths \<leftarrow> arr_wr (CollectionPaths (ParserData p)) i c;
     Some (Next (p\<lparr>CurrCollectionPath := Some i, ParserData := (ParserData p)\<lparr>CollectionPaths := paths\<rparr>\<rparr>))
   }"

definition item_collection :: "u32 \<Rightarrow> hid_parser \<Rightarrow> hid_outcome option" where
  "item_collection ReportItemData p =
     (case CurrCollectionPath p of
        None \<Rightarrow> fill_path 0 ReportItemData p
      | Some parent \<Rightarrow> do {
          free \<leftarrow> free_path (drop 1 (CollectionPaths (ParserData p))) 1;
          case free of
            None \<Rightarrow> Some (Return HID_PARSE_InsufficientCollectionPaths p)
          | Some i \<Rightarrow> do {
              c \<leftarrow> arr_rd (CollectionPaths (ParserData p)) i;
              paths \<leftarrow> arr_wr (CollectionPaths (ParserData p)) i (c\<lparr>cp_Parent := Some parent\<rparr>);
              fill_path i ReportItemData (p\<lparr>ParserData := (ParserData p)\<lparr>CollectionPaths := paths\<rparr>\<rparr>)
            }
        })"

definition item_end_collection :: "hid_parser \<Rightarrow> hid_outcome option" where
  "item_end_collection p =
     (case CurrCollectionPath p of
        None \<Rightarrow> Some (Return HID_PARSE_UnexpectedEndCollection p)
      | Some i \<Rightarrow> do {
          c \<leftarrow> arr_rd (CollectionPaths (ParserData p)) i;
          Some (Next (p\<lparr>CurrCollectionPath := cp_Parent c\<rparr>))
        })"

text \<open>One pass of the loop over the report count, and the loop.\<close>

definition item_type_of :: "u8 \<Rightarrow> nat" where
  "item_type_of HIDReportItem =
     (let ItemTypeTag = HIDReportItem AND 0xFC
      in if ItemTypeTag = 0x80 then 0 else if ItemTypeTag = 0x90 then 1 else 2)"

definition main_one :: "hid_env \<Rightarrow> u8 \<Rightarrow> u32 \<Rightarrow> hid_parser \<Rightarrow> hid_outcome option" where
  "main_one env HIDReportItem ReportItemData p = do {
     st \<leftarrow> arr_rd (StateTable p) (CurrStateTable p);
     let item = (env_item env)\<lparr>ri_Attributes := st_Attributes st, ri_ItemFlags := ucast ReportItemData,
                               ri_CollectionPath := CurrCollectionPath p, ri_ReportID := st_ReportID st\<rparr>;
     (u, p) \<leftarrow> next_usage p;
     let item = (case u of
         Some u \<Rightarrow> item\<lparr>ri_Attributes := (ri_Attributes item)\<lparr>
           at_Usage := (at_Usage (ri_Attributes item))\<lparr>us_Usage := u\<rparr>\<rparr>\<rparr>
       | None \<Rightarrow> item);
     let t = item_type_of HIDReportItem;
     let item = item\<lparr>ri_ItemType := t\<rparr>;
     let pd = ParserData p;
     info \<leftarrow> arr_rd (ReportIDSizes pd) (CurrReportIDInfo p);
     bits \<leftarrow> arr_rd (rs_ReportSizeBits info) t;
     let item = item\<lparr>ri_BitOffset := bits\<rparr>;
     let bits = bits + ucast (at_BitSize (st_Attributes st));
     sb \<leftarrow> arr_wr (rs_ReportSizeBits info) t bits;
     sizes \<leftarrow> arr_wr (ReportIDSizes pd) (CurrReportIDInfo p) (info\<lparr>rs_ReportSizeBits := sb\<rparr>);
     let pd = pd\<lparr>ReportIDSizes := sizes, LargestReportSizeBits := max (LargestReportSizeBits pd) bits\<rparr>;
     if TotalReportItems pd = HID_MAX_REPORTITEMS
     then Some (Return HID_PARSE_InsufficientReportItems (p\<lparr>ParserData := pd\<rparr>))
     else do {
       items \<leftarrow> arr_wr (ReportItems pd) (TotalReportItems pd) item;
       let pd = pd\<lparr>ReportItems := items\<rparr>;
       let keep = (ReportItemData AND 0x01 = 0 \<and> env_filter env item);
       Some (Next (p\<lparr>ParserData := (if keep then pd\<lparr>TotalReportItems := TotalReportItems pd + 1\<rparr> else pd)\<rparr>))
     }
   }"

fun main_loop :: "hid_env \<Rightarrow> u8 \<Rightarrow> u32 \<Rightarrow> nat \<Rightarrow> hid_parser \<Rightarrow> hid_outcome option" where
  "main_loop env HIDReportItem ReportItemData 0 p = Some (Next p)"
| "main_loop env HIDReportItem ReportItemData (Suc n) p = do {
     r \<leftarrow> main_one env HIDReportItem ReportItemData p;
     case r of
       Return code p \<Rightarrow> Some (Return code p)
     | Next p \<Rightarrow> main_loop env HIDReportItem ReportItemData n p
   }"

definition item_main :: "hid_env \<Rightarrow> u8 \<Rightarrow> u32 \<Rightarrow> hid_parser \<Rightarrow> hid_outcome option" where
  "item_main env HIDReportItem ReportItemData p = do {
     st \<leftarrow> arr_rd (StateTable p) (CurrStateTable p);
     main_loop env HIDReportItem ReportItemData (unat (st_ReportCount st)) p
   }"

text \<open>The item switch, and what follows it for main items.\<close>

definition item_switch :: "hid_env \<Rightarrow> u8 \<Rightarrow> u32 \<Rightarrow> hid_parser \<Rightarrow> hid_outcome option" where
  "item_switch env HIDReportItem ReportItemData p =
     (let tag = HIDReportItem AND 0xFC in
      if tag = 0xA4 then item_push p
      else if tag = 0xB4 then item_pop p
      else if tag = 0x04 then item_usage_page HIDReportItem ReportItemData p
      else if tag \<in> {0x14, 0x24, 0x34, 0x44, 0x54, 0x64, 0x74} then
        upd_attr (set_global tag ReportItemData) p
      else if tag = 0x94 then do {
        p \<leftarrow> upd_state (\<lambda>s. s\<lparr>st_ReportCount := ucast ReportItemData\<rparr>) p;
        Some (Next p)
      }
      else if tag = 0x84 then item_report_id ReportItemData p
      else if tag = 0x08 then item_usage ReportItemData p
      else if tag = 0x18 then
        Some (Next (p\<lparr>UsageMinMax := (UsageMinMax p)\<lparr>mm_Minimum := ReportItemData\<rparr>\<rparr>))
      else if tag = 0x28 then
        Some (Next (p\<lparr>UsageMinMax := (UsageMinMax p)\<lparr>mm_Maximum := ReportItemData\<rparr>\<rparr>))
      else if tag = 0xA0 then item_collection ReportItemData p
      else if tag = 0xC0 then item_end_collection p
      else if tag \<in> {0x80, 0x90, 0xB0} then item_main env HIDReportItem ReportItemData p
      else Some (Next p))"

definition clear_locals :: "u8 \<Rightarrow> hid_parser \<Rightarrow> hid_parser" where
  "clear_locals HIDReportItem p =
     (if HIDReportItem AND 0x0C = 0x00 then p\<lparr>UsageMinMax := zero_minmax, UsageListSize := 0\<rparr> else p)"

text \<open>The data of an item: its value and the number of bytes it takes.\<close>

definition item_data :: "bytes \<Rightarrow> nat \<Rightarrow> u8 \<Rightarrow> (u32 \<times> nat) option" where
  "item_data ReportData pos HIDReportItem =
     (if HIDReportItem AND 0x03 = 0x03 then do { v \<leftarrow> rd32 ReportData pos; Some (v, 4) }
      else if HIDReportItem AND 0x03 = 0x02 then do { v \<leftarrow> rd16 ReportData pos; Some (ucast v, 2) }
      else if HIDReportItem AND 0x03 = 0x01 then do { v \<leftarrow> rd8 ReportData pos; Some (ucast v, 1) }
      else Some (0, 0))"

function hid_loop :: "hid_env \<Rightarrow> bytes \<Rightarrow> nat \<Rightarrow> u16 \<Rightarrow> hid_parser \<Rightarrow> hid_outcome option" where
  "hid_loop env ReportData pos ReportSize p =
     (if ReportSize = 0 then Some (Next p)
      else if length ReportData \<le> pos then None
      else do {
        let HIDReportItem = ReportData ! pos;
        (ReportItemData, n) \<leftarrow> item_data ReportData (pos + 1) HIDReportItem;
        r \<leftarrow> item_switch env HIDReportItem ReportItemData p;
        case r of
          Return code p \<Rightarrow> Some (Return code p)
        | Next p \<Rightarrow>
            hid_loop env ReportData (pos + 1 + n) (ReportSize - 1 - of_nat n) (clear_locals HIDReportItem p)
      })"
  by pat_completeness auto
termination
  by (relation "measure (\<lambda>(env, ReportData, pos, ReportSize, p). length ReportData - pos)") auto

declare hid_loop.simps [simp del]

definition USB_ProcessHIDReport ::
  "hid_env \<Rightarrow> bytes \<Rightarrow> u16 \<Rightarrow> (hid_code \<times> HID_ReportInfo_t) option" where
  "USB_ProcessHIDReport env ReportData ReportSize = do {
     r \<leftarrow> hid_loop env ReportData 0 ReportSize (parser_init env);
     case r of
       Return code p \<Rightarrow> Some (code, ParserData p)
     | Next p \<Rightarrow>
         if TotalReportItems (ParserData p) = 0 then Some (HID_PARSE_NoUnfilteredReportItems, ParserData p)
         else Some (HID_PARSE_Successful, ParserData p)
   }"

section \<open>Reading and writing report items\<close>

fun get_bits :: "bytes \<Rightarrow> nat \<Rightarrow> nat \<Rightarrow> u16 \<Rightarrow> u32 \<Rightarrow> u32 \<Rightarrow> u32 option" where
  "get_bits ReportData base 0 CurrentBit BitMask v = Some v"
| "get_bits ReportData base (Suc n) CurrentBit BitMask v = do {
     b \<leftarrow> rd8 ReportData (base + unat CurrentBit div 8);
     let v = (if b AND push_bit (unat CurrentBit mod 8) 1 \<noteq> 0 then v OR BitMask else v);
     get_bits ReportData base n (CurrentBit + 1) (push_bit 1 BitMask) v
   }"

definition USB_GetHIDReportItemInfo ::
  "bytes \<Rightarrow> HID_ReportItem_t option \<Rightarrow> (bool \<times> HID_ReportItem_t option) option" where
  "USB_GetHIDReportItemInfo ReportData ReportItem =
     (case ReportItem of
        None \<Rightarrow> Some (False, None)
      | Some item \<Rightarrow> do {
          let extract = (\<lambda>base. do {
            v \<leftarrow> get_bits ReportData base (unat (at_BitSize (ri_Attributes item))) (ri_BitOffset item) 1 0;
            Some (True, Some (item\<lparr>ri_PreviousValue := ri_Value item, ri_Value := v\<rparr>))
          });
          if ri_ReportID item \<noteq> 0 then do {
            b \<leftarrow> rd8 ReportData 0;
            if ri_ReportID item \<noteq> b then Some (False, Some item) else extract 1
          }
          else extract 0
        })"

fun set_bits :: "bytes \<Rightarrow> nat \<Rightarrow> nat \<Rightarrow> u16 \<Rightarrow> u32 \<Rightarrow> u32 \<Rightarrow> bytes option" where
  "set_bits ReportData base 0 CurrentBit BitMask v = Some ReportData"
| "set_bits ReportData base (Suc n) CurrentBit BitMask v = do {
     ReportData \<leftarrow> (if v AND push_bit (unat CurrentBit mod 8) 1 \<noteq> 0 then do {
         b \<leftarrow> rd8 ReportData (base + unat CurrentBit div 8);
         wr8 ReportData (base + unat CurrentBit div 8) (b OR ucast BitMask)
       }
       else Some ReportData);
     set_bits ReportData base n (CurrentBit + 1) (push_bit 1 BitMask) v
   }"

definition USB_SetHIDReportItemInfo ::
  "bytes \<Rightarrow> HID_ReportItem_t option \<Rightarrow> (bytes \<times> HID_ReportItem_t option) option" where
  "USB_SetHIDReportItemInfo ReportData ReportItem =
     (case ReportItem of
        None \<Rightarrow> Some (ReportData, None)
      | Some item \<Rightarrow> do {
          (ReportData, base) \<leftarrow> (if ri_ReportID item \<noteq> 0 then do {
              ReportData \<leftarrow> wr8 ReportData 0 (ri_ReportID item);
              Some (ReportData, 1)
            }
            else Some (ReportData, 0));
          ReportData \<leftarrow> set_bits ReportData base (unat (at_BitSize (ri_Attributes item)))
            (ri_BitOffset item) 1 (ri_Value item);
          Some (ReportData, Some (item\<lparr>ri_PreviousValue := ri_Value item\<rparr>))
        })"

fun report_size_loop :: "HID_ReportSizeInfo_t list \<Rightarrow> u8 \<Rightarrow> nat \<Rightarrow> nat \<Rightarrow> u16 option" where
  "report_size_loop sizes ReportID ReportType 0 = Some 0"
| "report_size_loop [] ReportID ReportType (Suc n) = None"
| "report_size_loop (s # ss) ReportID ReportType (Suc n) = do {
     ReportSizeBits \<leftarrow> arr_rd (rs_ReportSizeBits s) ReportType;
     if rs_ReportID s = ReportID
     then Some (ReportSizeBits div 8 + (if ReportSizeBits mod 8 \<noteq> 0 then 1 else 0))
     else report_size_loop ss ReportID ReportType n
   }"

definition USB_GetHIDReportSize :: "HID_ReportInfo_t \<Rightarrow> u8 \<Rightarrow> nat \<Rightarrow> u16 option" where
  "USB_GetHIDReportSize pd ReportID ReportType =
     report_size_loop (ReportIDSizes pd) ReportID ReportType HID_MAX_REPORT_IDS"

section \<open>Descriptors as the encoding macros write them\<close>

text \<open>
  \<^verbatim>\<open>_HID_RI_ENTRY(Type, Tag, DataBits, Data)\<close>: a header byte followed by the data, low byte
  first.  A well-framed descriptor is a concatenation of such entries.
\<close>

datatype data_bits = Bits_0 | Bits_8 | Bits_16 | Bits_32

fun HID_RI_DATA_BITS :: "data_bits \<Rightarrow> u8" where
  "HID_RI_DATA_BITS Bits_0 = 0x00"
| "HID_RI_DATA_BITS Bits_8 = 0x01"
| "HID_RI_DATA_BITS Bits_16 = 0x02"
| "HID_RI_DATA_BITS Bits_32 = 0x03"

definition HID_RI_ENCODE_8 :: "u32 \<Rightarrow> bytes" where
  "HID_RI_ENCODE_8 v = [ucast (v AND 0xFF)]"

definition HID_RI_ENCODE_16 :: "u32 \<Rightarrow> bytes" where
  "HID_RI_ENCODE_16 v = HID_RI_ENCODE_8 v @ HID_RI_ENCODE_8 (drop_bit 8 v)"

definition HID_RI_ENCODE_32 :: "u32 \<Rightarrow> bytes" where
  "HID_RI_ENCODE_32 v = HID_RI_ENCODE_16 v @ HID_RI_ENCODE_16 (drop_bit 16 v)"

fun HID_RI_ENCODE :: "data_bits \<Rightarrow> u32 \<Rightarrow> bytes" where
  "HID_RI_ENCODE Bits_0 v = []"
| "HID_RI_ENCODE Bits_8 v = HID_RI_ENCODE_8 v"
| "HID_RI_ENCODE Bits_16 v = HID_RI_ENCODE_16 v"
| "HID_RI_ENCODE Bits_32 v = HID_RI_ENCODE_32 v"

record hid_item =
  hi_tag :: u8
  hi_bits :: data_bits
  hi_data :: u32

definition HID_RI_ENTRY :: "hid_item \<Rightarrow> bytes" where
  "HID_RI_ENTRY it = (hi_tag it OR HID_RI_DATA_BITS (hi_bits it)) # HID_RI_ENCODE (hi_bits it) (hi_data it)"

definition descriptor_of :: "hid_item list \<Rightarrow> bytes" where
  "descriptor_of its = concat (map HID_RI_ENTRY its)"

text \<open>What the parser should see of an item: the data cut to its width.\<close>

definition item_value :: "hid_item \<Rightarrow> u32" where
  "item_value it =
     (case hi_bits it of Bits_0 \<Rightarrow> 0 | Bits_8 \<Rightarrow> take_bit 8 (hi_data it)
        | Bits_16 \<Rightarrow> take_bit 16 (hi_data it) | Bits_32 \<Rightarrow> hi_data it)"

definition item_ok :: "hid_item \<Rightarrow> bool" where
  "item_ok it \<longleftrightarrow> hi_tag it AND 0x03 = 0"

abbreviation item_header :: "hid_item \<Rightarrow> u8" where
  "item_header it \<equiv> hi_tag it OR HID_RI_DATA_BITS (hi_bits it)"

fun run_items :: "hid_env \<Rightarrow> hid_item list \<Rightarrow> hid_parser \<Rightarrow> hid_outcome option" where
  "run_items env [] p = Some (Next p)"
| "run_items env (it # its) p = do {
     r \<leftarrow> item_switch env (item_header it) (item_value it) p;
     case r of
       Return code p \<Rightarrow> Some (Return code p)
     | Next p \<Rightarrow> run_items env its (clear_locals (item_header it) p)
   }"

lemma and_minus_one_255: "t AND 0xFF = t" for t :: u8
proof -
  have "(0xFF :: u8) = - 1" by simp
  then show ?thesis by (simp only: and.right_neutral)
qed

lemma tag_and_FC:
  assumes "t AND 0x03 = (0 :: u8)"
  shows "t AND 0xFC = t"
proof -
  have "t = (t AND 0xFC) OR (t AND 0x03)"
    by (simp add: bit.conj_disj_distrib [symmetric] and_minus_one_255)
  with assms show ?thesis by simp
qed

lemma header_bits:
  assumes "item_ok it"
  shows "item_header it AND 0x03 = HID_RI_DATA_BITS (hi_bits it)"
    and "item_header it AND 0xFC = hi_tag it"
    and "item_header it AND 0x0C = hi_tag it AND 0x0C"
  using assms tag_and_FC [of "hi_tag it"]
  by (cases "hi_bits it"; simp add: item_ok_def bit.conj_disj_distrib2)+

lemma ucast_and_FF: "ucast (v AND 0xFF) = byte0 v" for v :: u32
proof -
  have "(0xFF :: u32) = mask 8" by (simp add: mask_eq_exp_minus_1)
  then show ?thesis
    by (simp add: byte0_def bit_eq_iff bit_simps)
qed

lemma bytes_of_drop:
  "byte0 (drop_bit 8 v) = byte1 v" "byte0 (drop_bit 16 v) = byte2 v"
  "byte0 (drop_bit 24 v) = byte3 v" for v :: u32
  by (simp_all add: byte0_def byte1_def byte2_def byte3_def)

lemma encode_bytes:
  "HID_RI_ENCODE_8 v = [byte0 v]"
  "HID_RI_ENCODE_16 v = [byte0 v, byte1 v]"
  "HID_RI_ENCODE_32 v = [byte0 v, byte1 v, byte2 v, byte3 v]"
  by (simp_all add: HID_RI_ENCODE_8_def HID_RI_ENCODE_16_def HID_RI_ENCODE_32_def
      ucast_and_FF bytes_of_drop)

lemma ucast_word16_of_bytes: "ucast (word16_of (byte0 v) (byte1 v)) = take_bit 16 v" for v :: u32
  by (rule bit_word_eqI) (auto simp: word16_of_def byte0_def byte1_def bit_simps)

lemma ucast_byte0: "ucast (byte0 v) = take_bit 8 v" for v :: u32
  by (rule bit_word_eqI) (auto simp: byte0_def bit_simps)

lemma item_data_entry:
  assumes "item_ok it"
  shows "item_data (pre @ HID_RI_ENTRY it @ post) (length pre + 1) (item_header it) =
           Some (item_value it, length (HID_RI_ENCODE (hi_bits it) (hi_data it)))"
  using header_bits(1) [OF assms]
  by (cases "hi_bits it")
    (auto simp: item_data_def HID_RI_ENTRY_def item_value_def encode_bytes rd8_def rd16_def rd32_def
      nth_append ucast_word16_of_bytes ucast_byte0)

lemma length_entry:
  "length (HID_RI_ENTRY it) = 1 + length (HID_RI_ENCODE (hi_bits it) (hi_data it))"
  by (simp add: HID_RI_ENTRY_def)

text \<open>The byte loop on an encoded descriptor processes its items one by one, whatever follows them.\<close>

lemma hid_loop_step:
  assumes "sz \<noteq> 0" "pos < length m" "m ! pos = h" "item_data m (pos + 1) h = Some (v, n)"
  shows "hid_loop env m pos sz p =
    do {
      r \<leftarrow> item_switch env h v p;
      case r of
        Return code q \<Rightarrow> Some (Return code q)
      | Next q \<Rightarrow> hid_loop env m (pos + 1 + n) (sz - 1 - of_nat n) (clear_locals h q)
    }"
  using assms by (subst hid_loop.simps) simp

lemma hid_loop_prefix:
  assumes "list_all item_ok its" "length (descriptor_of its @ tail) < 2 ^ 16"
  shows "hid_loop env (pre @ descriptor_of its @ tail) (length pre) (of_nat (length (descriptor_of its @ tail))) p =
    do {
      r \<leftarrow> run_items env its p;
      case r of
        Return code q \<Rightarrow> Some (Return code q)
      | Next q \<Rightarrow> hid_loop env (pre @ descriptor_of its @ tail) (length (pre @ descriptor_of its)) (of_nat (length tail)) q
    }"
  using assms
proof (induction its arbitrary: pre p)
  case Nil
  then show ?case by (simp add: descriptor_of_def)
next
  case (Cons it its)
  let ?rest = "descriptor_of its @ tail" and ?n = "length (HID_RI_ENCODE (hi_bits it) (hi_data it))"
  let ?mem = "pre @ descriptor_of (it # its) @ tail"
  have mem: "?mem = pre @ HID_RI_ENTRY it @ ?rest" "?mem = (pre @ HID_RI_ENTRY it) @ ?rest"
    by (simp_all add: descriptor_of_def)
  have len: "length (descriptor_of (it # its) @ tail) = 1 + ?n + length ?rest"
    by (simp add: descriptor_of_def length_entry)
  have nz: "(of_nat (length (descriptor_of (it # its) @ tail)) :: u16) \<noteq> 0"
    using Cons.prems(2) len by (intro of_nat_u16_nonzero) auto
  have hd: "?mem ! length pre = item_header it" "length pre < length ?mem"
    by (simp_all add: mem(1) HID_RI_ENTRY_def)
  have size: "of_nat (length (descriptor_of (it # its) @ tail)) - 1 - of_nat ?n = (of_nat (length ?rest) :: u16)"
    unfolding len by simp
  have pos: "length pre + 1 + ?n = length (pre @ HID_RI_ENTRY it)"
    by (simp add: length_entry)
  have end_pos: "length (pre @ descriptor_of (it # its)) = length ((pre @ HID_RI_ENTRY it) @ descriptor_of its)"
    by (simp add: descriptor_of_def)
  have IH: "hid_loop env ?mem (length pre + 1 + ?n) (of_nat (length ?rest)) q =
    do {
      r \<leftarrow> run_items env its q;
      case r of
        Return code q \<Rightarrow> Some (Return code q)
      | Next q \<Rightarrow> hid_loop env ?mem (length (pre @ descriptor_of (it # its))) (of_nat (length tail)) q
    }" for q
    unfolding pos mem(2) end_pos using Cons.prems len by (intro Cons.IH) auto
  have data: "item_data ?mem (length pre + 1) (item_header it) = Some (item_value it, ?n)"
    unfolding mem(1) using Cons.prems(1) by (intro item_data_entry) simp
  show ?case
    unfolding hid_loop_step [OF nz hd(2,1) data] size IH run_items.simps
    by (cases "item_switch env (item_header it) (item_value it) p")
      (auto split: hid_outcome.split simp del: length_append)
qed

lemma hid_loop_items:
  assumes "list_all item_ok its" "length (descriptor_of its) < 2 ^ 16"
  shows "hid_loop env (pre @ descriptor_of its) (length pre) (of_nat (length (descriptor_of its))) p =
           run_items env its p"
proof -
  have "hid_loop env m pos 0 q = Some (Next q)" for m pos q
    by (simp add: hid_loop.simps)
  then show ?thesis
    using hid_loop_prefix [of its "[]" env pre p] assms
    by (cases "run_items env its p") (auto split: hid_outcome.split)
qed

section \<open>Well-formedness\<close>

definition info_wf :: "HID_ReportInfo_t \<Rightarrow> bool" where
  "info_wf pd \<longleftrightarrow>
     length (ReportItems pd) = HID_MAX_REPORTITEMS \<and> TotalReportItems pd \<le> HID_MAX_REPORTITEMS \<and>
     length (CollectionPaths pd) = HID_MAX_COLLECTIONS \<and>
     (\<forall>c \<in> set (CollectionPaths pd). \<forall>i. cp_Parent c = Some i \<longrightarrow> i < HID_MAX_COLLECTIONS) \<and>
     length (ReportIDSizes pd) = HID_MAX_REPORT_IDS \<and>
     1 \<le> TotalDeviceReports pd \<and> TotalDeviceReports pd \<le> HID_MAX_REPORT_IDS \<and>
     (\<forall>s \<in> set (ReportIDSizes pd). length (rs_ReportSizeBits s) = 3) \<and>
     (\<forall>k < TotalReportItems pd. ri_ItemType (ReportItems pd ! k) < 3 \<and>
        (\<forall>i. ri_CollectionPath (ReportItems pd ! k) = Some i \<longrightarrow> i < HID_MAX_COLLECTIONS))"

definition parser_wf :: "hid_parser \<Rightarrow> bool" where
  "parser_wf p \<longleftrightarrow>
     info_wf (ParserData p) \<and> length (StateTable p) = HID_STATETABLE_STACK_DEPTH \<and>
     CurrStateTable p < HID_STATETABLE_STACK_DEPTH \<and>
     (\<forall>i. CurrCollectionPath p = Some i \<longrightarrow> i < HID_MAX_COLLECTIONS) \<and>
     CurrReportIDInfo p < TotalDeviceReports (ParserData p) \<and>
     length (UsageList p) = HID_USAGE_STACK_DEPTH \<and> UsageListSize p \<le> HID_USAGE_STACK_DEPTH"

text \<open>
  \<open>safe Q m\<close>: the step \<open>m\<close> makes no undefined access; if it returns from the parser the output
  structure is well formed, and otherwise the parser goes on in a well-formed state with \<open>Q\<close>.
\<close>

definition safe :: "(hid_parser \<Rightarrow> bool) \<Rightarrow> hid_outcome option \<Rightarrow> bool" where
  "safe Q m \<longleftrightarrow>
     (case m of
        None \<Rightarrow> False
      | Some (Return code p) \<Rightarrow> info_wf (ParserData p)
      | Some (Next p) \<Rightarrow> parser_wf p \<and> Q p)"

lemma safe_simps [simp]:
  "safe Q (Some (Return code p)) \<longleftrightarrow> info_wf (ParserData p)"
  "safe Q (Some (Next p)) \<longleftrightarrow> parser_wf p \<and> Q p"
  by (simp_all add: safe_def)

lemma safe_bind:
  assumes "safe Q m" "\<And>p. parser_wf p \<Longrightarrow> Q p \<Longrightarrow> safe Q' (f p)"
  shows "safe Q' (do { r \<leftarrow> m; case r of Return code p \<Rightarrow> Some (Return code p) | Next p \<Rightarrow> f p })"
proof (cases m)
  case None
  with assms(1) show ?thesis by (simp add: safe_def)
next
  case (Some r)
  with assms show ?thesis by (cases r) auto
qed

lemma safe_mono:
  assumes "safe Q m" "\<And>p. Q p \<Longrightarrow> Q' p"
  shows "safe Q' m"
  using assms by (auto simp: safe_def split: option.splits hid_outcome.splits)

lemma parser_wfD:
  assumes "parser_wf p"
  shows "info_wf (ParserData p)" "length (StateTable p) = HID_STATETABLE_STACK_DEPTH"
    "CurrStateTable p < length (StateTable p)" "CurrReportIDInfo p < length (ReportIDSizes (ParserData p))"
    "CurrReportIDInfo p < TotalDeviceReports (ParserData p)"
    "length (ReportIDSizes (ParserData p)) = HID_MAX_REPORT_IDS"
    "TotalDeviceReports (ParserData p) \<le> HID_MAX_REPORT_IDS"
    "length (CollectionPaths (ParserData p)) = HID_MAX_COLLECTIONS"
    "length (ReportItems (ParserData p)) = HID_MAX_REPORTITEMS"
    "TotalReportItems (ParserData p) \<le> HID_MAX_REPORTITEMS"
    "length (UsageList p) = HID_USAGE_STACK_DEPTH" "UsageListSize p \<le> HID_USAGE_STACK_DEPTH"
  using assms by (auto simp: parser_wf_def info_wf_def)

lemma upd_state_eq:
  assumes "parser_wf p"
  shows "upd_state f p =
           Some (p\<lparr>StateTable := (StateTable p)[CurrStateTable p := f (StateTable p ! CurrStateTable p)]\<rparr>)"
  using parser_wfD(3) [OF assms] by (simp add: upd_state_def mem_simps)

lemma upd_state_wf:
  assumes "parser_wf p"
  shows "parser_wf (p\<lparr>StateTable := (StateTable p)[i := s]\<rparr>)"
  using assms by (simp add: parser_wf_def)

lemma item_pop_safe:
  assumes "parser_wf p"
  shows "safe (\<lambda>q. UsageListSize q = UsageListSize p) (item_pop p)"
  using assms by (auto simp: item_pop_def parser_wf_def)

lemma upd_attr_safe:
  assumes "parser_wf p"
  shows "safe (\<lambda>q. UsageListSize q = UsageListSize p) (upd_attr f p)"
  using assms by (simp add: upd_attr_def upd_state_eq upd_state_wf)

lemma find_report_id_bound:
  assumes "n \<le> length sizes"
  shows "\<exists>r. find_report_id rid sizes i n = Some r \<and>
           (\<forall>k. r = Some k \<longrightarrow> i \<le> k \<and> k < i + n \<and> rs_ReportID (sizes ! (k - i)) = rid) \<and>
           (r = None \<longrightarrow> (\<forall>k < n. rs_ReportID (sizes ! k) \<noteq> rid))"
  using assms
proof (induction sizes arbitrary: i n)
  case Nil
  then show ?case by simp
next
  case (Cons s ss)
  show ?case
  proof (cases n)
    case 0
    then show ?thesis by simp
  next
    case (Suc m)
    show ?thesis
    proof (cases "rs_ReportID s = rid")
      case True
      with Suc show ?thesis by simp
    next
      case False
      obtain r where r: "find_report_id rid ss (Suc i) m = Some r"
          "\<forall>k. r = Some k \<longrightarrow> Suc i \<le> k \<and> k < Suc i + m \<and> rs_ReportID (ss ! (k - Suc i)) = rid"
          "r = None \<longrightarrow> (\<forall>k < m. rs_ReportID (ss ! k) \<noteq> rid)"
        using Cons.IH [of m "Suc i"] Cons.prems Suc by auto
      then show ?thesis
        using False Suc by (auto simp: nth_Cons')
    qed
  qed
qed

lemma set_report_id_safe:
  assumes "parser_wf p"
  shows "safe (\<lambda>q. UsageListSize q = UsageListSize p) (set_report_id rid p)"
proof -
  have i: "CurrReportIDInfo p < length (ReportIDSizes (ParserData p))"
    using parser_wfD(4) [OF assms] .
  then have "length (rs_ReportSizeBits (ReportIDSizes (ParserData p) ! CurrReportIDInfo p)) = 3"
    using assms by (auto simp: parser_wf_def info_wf_def)
  then show ?thesis
    using assms i
    by (auto simp: set_report_id_def mem_simps Let_def parser_wf_def info_wf_def
        dest!: set_update_subset_insert [THEN subsetD])
qed

lemma item_report_id_safe:
  assumes "parser_wf p"
  shows "safe (\<lambda>q. UsageListSize q = UsageListSize p) (item_report_id v p)"
proof -
  let ?rid = "ucast v :: u8"
  define q where "q = p\<lparr>StateTable := (StateTable p)[CurrStateTable p :=
      (StateTable p ! CurrStateTable p)\<lparr>st_ReportID := ?rid\<rparr>]\<rparr>"
  have q: "parser_wf q" "UsageListSize q = UsageListSize p"
    using upd_state_wf [OF assms] by (simp_all add: q_def)
  let ?pd = "ParserData q"
  have step: "item_report_id v p = (if UsingReportIDs ?pd then do {
       found \<leftarrow> find_report_id ?rid (ReportIDSizes ?pd) 0 (TotalDeviceReports ?pd);
       case found of
         Some i \<Rightarrow> set_report_id ?rid (q\<lparr>CurrReportIDInfo := i\<rparr>)
       | None \<Rightarrow>
           if TotalDeviceReports ?pd = HID_MAX_REPORT_IDS
           then Some (Return HID_PARSE_InsufficientReportIDItems q)
           else do {
             sizes \<leftarrow> arr_wr (ReportIDSizes ?pd) (TotalDeviceReports ?pd) zero_size_info;
             set_report_id ?rid (q\<lparr>CurrReportIDInfo := TotalDeviceReports ?pd,
               ParserData := ?pd\<lparr>TotalDeviceReports := TotalDeviceReports ?pd + 1,
                                ReportIDSizes := sizes\<rparr>\<rparr>)
           }
     }
     else set_report_id ?rid q)"
    by (simp add: item_report_id_def upd_state_eq [OF assms] q_def Let_def)
  obtain r where r: "find_report_id ?rid (ReportIDSizes ?pd) 0 (TotalDeviceReports ?pd) = Some r"
      "\<forall>k. r = Some k \<longrightarrow> k < TotalDeviceReports ?pd"
    using find_report_id_bound [of "TotalDeviceReports ?pd" "ReportIDSizes ?pd" ?rid 0]
      parser_wfD(6,7) [OF q(1)] by auto
  have old: "safe (\<lambda>q'. UsageListSize q' = UsageListSize p) (set_report_id ?rid (q\<lparr>CurrReportIDInfo := i\<rparr>))"
    if "i < TotalDeviceReports ?pd" for i
    using set_report_id_safe [of "q\<lparr>CurrReportIDInfo := i\<rparr>" ?rid] q that
    by (simp add: parser_wf_def)
  have new: "safe (\<lambda>q'. UsageListSize q' = UsageListSize p)
      (set_report_id ?rid (q\<lparr>CurrReportIDInfo := TotalDeviceReports ?pd,
         ParserData := ?pd\<lparr>TotalDeviceReports := TotalDeviceReports ?pd + 1,
           ReportIDSizes := (ReportIDSizes ?pd)[TotalDeviceReports ?pd := zero_size_info]\<rparr>\<rparr>))"
    if "TotalDeviceReports ?pd \<noteq> HID_MAX_REPORT_IDS"
  proof -
    have "parser_wf (q\<lparr>CurrReportIDInfo := TotalDeviceReports ?pd,
         ParserData := ?pd\<lparr>TotalDeviceReports := TotalDeviceReports ?pd + 1,
           ReportIDSizes := (ReportIDSizes ?pd)[TotalDeviceReports ?pd := zero_size_info]\<rparr>\<rparr>)"
      using q(1) that
      by (auto simp: parser_wf_def info_wf_def zero_size_info_def
          dest!: set_update_subset_insert [THEN subsetD])
    from set_report_id_safe [OF this, of ?rid] q(2) show ?thesis by simp
  qed
  show ?thesis
    unfolding step using r old new parser_wfD(1,6,7) [OF q(1)] set_report_id_safe [OF q(1), of ?rid] q(2)
    by (cases r) (auto simp: mem_simps)
qed

lemma item_usage_safe:
  assumes "parser_wf p"
  shows "safe (\<lambda>q. UsageListSize q = Suc (UsageListSize p)) (item_usage v p)"
  using assms parser_wfD(1,11,12) [OF assms]
  by (auto simp: item_usage_def mem_simps parser_wf_def)

lemma shift_usages_length:
  assumes "i + n < length us"
  shows "\<exists>us'. shift_usages i n us = Some us' \<and> length us' = length us"
  using assms
proof (induction n arbitrary: i us)
  case (Suc n)
  then show ?case
    using Suc.IH [of "i + 1" "us[i := us ! (i + 1)]"] by (auto simp: mem_simps)
qed simp

lemma next_usage_safe:
  assumes "parser_wf p" "UsageListSize p < HID_USAGE_STACK_DEPTH"
  shows "\<exists>u q. next_usage p = Some (u, q) \<and> parser_wf q \<and> UsageListSize q \<le> UsageListSize p \<and>
           ParserData q = ParserData p \<and> StateTable q = StateTable p \<and> CurrStateTable q = CurrStateTable p \<and>
           CurrCollectionPath q = CurrCollectionPath p \<and> CurrReportIDInfo q = CurrReportIDInfo p"
proof (cases "UsageListSize p = 0")
  case True
  then show ?thesis
    using assms by (simp add: next_usage_def parser_wf_def)
next
  case False
  obtain us where us: "shift_usages 0 (UsageListSize p) (UsageList p) = Some us"
      "length us = length (UsageList p)"
    using shift_usages_length [of 0 "UsageListSize p" "UsageList p"] assms parser_wfD(11) [OF assms(1)] by auto
  have "UsageList p \<noteq> []"
    using parser_wfD(11) [OF assms(1)] by (auto simp: hid_limits)
  then show ?thesis
    using False us assms by (auto simp: next_usage_def mem_simps parser_wf_def)
qed

lemma fill_path_safe:
  assumes "parser_wf p" "UsageListSize p < HID_USAGE_STACK_DEPTH" "i < HID_MAX_COLLECTIONS"
  shows "safe (\<lambda>q. True) (fill_path i v p)"
proof -
  obtain u q where q: "next_usage p = Some (u, q)" "parser_wf q" "ParserData q = ParserData p"
    using next_usage_safe [OF assms(1,2)] by blast
  let ?paths = "CollectionPaths (ParserData p)"
  have i: "i < length ?paths"
    using assms(3) parser_wfD(8) [OF assms(1)] by simp
  have parent: "cp_Parent (?paths ! i) = Some k \<Longrightarrow> k < HID_MAX_COLLECTIONS" for k
    using i assms(1) unfolding parser_wf_def info_wf_def by (meson nth_mem)
  have wf: "parser_wf (q\<lparr>CurrCollectionPath := Some i, ParserData := (ParserData q)\<lparr>CollectionPaths := ?paths[i := c]\<rparr>\<rparr>)"
    if "cp_Parent c = cp_Parent (?paths ! i)" for c
    using q(2,3) assms(3) parent that
    by (auto simp: parser_wf_def info_wf_def dest!: set_update_subset_insert [THEN subsetD])
  show ?thesis
    using q i parser_wfD(3) [OF assms(1)] wf
    by (auto simp: fill_path_def mem_simps Let_def split: option.splits)
qed

lemma free_path_bound:
  assumes "i + length cs = HID_MAX_COLLECTIONS" "cs \<noteq> []"
  shows "\<exists>r. free_path cs i = Some r \<and> (\<forall>k. r = Some k \<longrightarrow> i \<le> k \<and> k < HID_MAX_COLLECTIONS)"
  using assms
proof (induction cs arbitrary: i)
  case (Cons c cs)
  show ?case
  proof (cases "cs = []")
    case True
    then show ?thesis using Cons.prems by (auto simp: hid_limits)
  next
    case False
    then show ?thesis using Cons.IH [of "i + 1"] Cons.prems by auto
  qed
qed simp

lemma item_collection_safe:
  assumes "parser_wf p" "UsageListSize p < HID_USAGE_STACK_DEPTH"
  shows "safe (\<lambda>q. True) (item_collection v p)"
proof (cases "CurrCollectionPath p")
  case None
  then show ?thesis
    using fill_path_safe [OF assms, of 0] by (simp add: item_collection_def hid_limits)
next
  case (Some parent)
  let ?paths = "CollectionPaths (ParserData p)"
  have len: "length ?paths = HID_MAX_COLLECTIONS"
    using parser_wfD(8) [OF assms(1)] .
  obtain r where r: "free_path (drop 1 ?paths) 1 = Some r"
      "\<forall>k. r = Some k \<longrightarrow> k < HID_MAX_COLLECTIONS"
    using free_path_bound [of 1 "drop 1 ?paths"] len by (auto simp: hid_limits)
  show ?thesis
  proof (cases r)
    case None
    then show ?thesis
      using r Some parser_wfD(1) [OF assms(1)] by (simp add: item_collection_def)
  next
    case i: (Some i)
    let ?q = "p\<lparr>ParserData := (ParserData p)\<lparr>CollectionPaths := ?paths[i := (?paths ! i)\<lparr>cp_Parent := Some parent\<rparr>]\<rparr>\<rparr>"
    have "parent < HID_MAX_COLLECTIONS"
      using Some assms(1) by (auto simp: parser_wf_def)
    then have "parser_wf ?q"
      using assms(1) by (auto simp: parser_wf_def info_wf_def dest!: set_update_subset_insert [THEN subsetD])
    then have "safe (\<lambda>q. True) (fill_path i v ?q)"
      using assms(2) r i by (intro fill_path_safe) auto
    then show ?thesis
      using r i Some len by (simp add: item_collection_def mem_simps)
  qed
qed

lemma item_end_collection_safe:
  assumes "parser_wf p"
  shows "safe (\<lambda>q. True) (item_end_collection p)"
proof (cases "CurrCollectionPath p")
  case None
  then show ?thesis using assms by (simp add: item_end_collection_def parser_wf_def)
next
  case (Some i)
  then have i: "i < length (CollectionPaths (ParserData p))"
    using assms by (simp add: parser_wf_def info_wf_def)
  then have "\<forall>k. cp_Parent (CollectionPaths (ParserData p) ! i) = Some k \<longrightarrow> k < HID_MAX_COLLECTIONS"
    using assms unfolding parser_wf_def info_wf_def by (meson nth_mem)
  then show ?thesis
    using Some i assms by (simp add: item_end_collection_def mem_simps parser_wf_def)
qed

text \<open>
  One pass over a main item in closed form: the item it makes, the report sizes it grows, and the
  item array it writes.
\<close>

abbreviation curr_state :: "hid_parser \<Rightarrow> HID_StateTable_t" where
  "curr_state p \<equiv> StateTable p ! CurrStateTable p"

abbreviation curr_info :: "hid_parser \<Rightarrow> HID_ReportSizeInfo_t" where
  "curr_info p \<equiv> ReportIDSizes (ParserData p) ! CurrReportIDInfo p"

definition made_item :: "hid_env \<Rightarrow> u8 \<Rightarrow> u32 \<Rightarrow> hid_parser \<Rightarrow> u16 option \<Rightarrow> HID_ReportItem_t" where
  "made_item env h v p u =
     (let item = (env_item env)\<lparr>ri_Attributes := st_Attributes (curr_state p), ri_ItemFlags := ucast v,
                    ri_CollectionPath := CurrCollectionPath p, ri_ReportID := st_ReportID (curr_state p)\<rparr>;
          item = (case u of
              Some u \<Rightarrow> item\<lparr>ri_Attributes := (ri_Attributes item)\<lparr>
                at_Usage := (at_Usage (ri_Attributes item))\<lparr>us_Usage := u\<rparr>\<rparr>\<rparr>
            | None \<Rightarrow> item)
      in item\<lparr>ri_ItemType := item_type_of h,
              ri_BitOffset := rs_ReportSizeBits (curr_info p) ! item_type_of h\<rparr>)"

definition grown_bits :: "u8 \<Rightarrow> hid_parser \<Rightarrow> u16" where
  "grown_bits h p = rs_ReportSizeBits (curr_info p) ! item_type_of h +
     ucast (at_BitSize (st_Attributes (curr_state p)))"

definition grown_info :: "u8 \<Rightarrow> hid_parser \<Rightarrow> HID_ReportInfo_t" where
  "grown_info h p = (ParserData p)\<lparr>
     ReportIDSizes := (ReportIDSizes (ParserData p))[CurrReportIDInfo p :=
       (curr_info p)\<lparr>rs_ReportSizeBits := (rs_ReportSizeBits (curr_info p))[item_type_of h := grown_bits h p]\<rparr>],
     LargestReportSizeBits := max (LargestReportSizeBits (ParserData p)) (grown_bits h p)\<rparr>"

definition stored_info :: "hid_env \<Rightarrow> u8 \<Rightarrow> u32 \<Rightarrow> hid_parser \<Rightarrow> u16 option \<Rightarrow> HID_ReportInfo_t" where
  "stored_info env h v p u =
     (let pd = grown_info h p; it = made_item env h v p u;
          pd = pd\<lparr>ReportItems := (ReportItems pd)[TotalReportItems pd := it]\<rparr>
      in if v AND 0x01 = 0 \<and> env_filter env it
         then pd\<lparr>TotalReportItems := TotalReportItems pd + 1\<rparr> else pd)"

lemma item_type_of_less: "item_type_of h < 3"
  by (simp add: item_type_of_def Let_def)

lemma size_bits_length:
  assumes "parser_wf p"
  shows "length (rs_ReportSizeBits (curr_info p)) = 3"
  using assms parser_wfD(4) [OF assms] by (auto simp: parser_wf_def info_wf_def)

lemma main_one_eq:
  assumes "parser_wf p" "next_usage p = Some (u, q)"
    and same: "ParserData q = ParserData p" "CurrReportIDInfo q = CurrReportIDInfo p"
  shows "main_one env h v p =
           (if TotalReportItems (ParserData p) = HID_MAX_REPORTITEMS
            then Some (Return HID_PARSE_InsufficientReportItems (q\<lparr>ParserData := grown_info h p\<rparr>))
            else Some (Next (q\<lparr>ParserData := stored_info env h v p u\<rparr>)))"
  using parser_wfD [OF assms(1)] size_bits_length [OF assms(1)] item_type_of_less [of h] assms(2) same
  by (cases u) (simp_all add: main_one_def made_item_def grown_info_def grown_bits_def stored_info_def
      mem_simps Let_def)

lemma grown_info_wf:
  assumes "parser_wf p"
  shows "info_wf (grown_info h p)"
  using assms parser_wfD(4) [OF assms] size_bits_length [OF assms]
  by (auto simp: grown_info_def info_wf_def parser_wf_def dest!: set_update_subset_insert [THEN subsetD])

lemma stored_info_wf:
  assumes "parser_wf p" "TotalReportItems (ParserData p) \<noteq> HID_MAX_REPORTITEMS"
  shows "info_wf (stored_info env h v p u)"
proof -
  have "ri_ItemType (made_item env h v p u) < 3"
    "\<forall>i. ri_CollectionPath (made_item env h v p u) = Some i \<longrightarrow> i < HID_MAX_COLLECTIONS"
    using assms item_type_of_less by (auto simp: made_item_def Let_def parser_wf_def split: option.splits)
  moreover have "TotalReportItems (grown_info h p) = TotalReportItems (ParserData p)"
    "ReportItems (grown_info h p) = ReportItems (ParserData p)"
    by (simp_all add: grown_info_def)
  ultimately show ?thesis
    using grown_info_wf [OF assms(1), of h] assms(2) parser_wfD(9,10) [OF assms(1)]
    by (auto simp: stored_info_def info_wf_def Let_def nth_list_update less_Suc_eq)
qed

lemma main_one_safe:
  assumes "parser_wf p" "UsageListSize p < HID_USAGE_STACK_DEPTH"
  shows "safe (\<lambda>q. UsageListSize q < HID_USAGE_STACK_DEPTH) (main_one env h v p)"
proof -
  obtain u q where q: "next_usage p = Some (u, q)" "parser_wf q" "UsageListSize q \<le> UsageListSize p"
      "ParserData q = ParserData p" "CurrReportIDInfo q = CurrReportIDInfo p"
    using next_usage_safe [OF assms] by blast
  have "TotalDeviceReports (stored_info env h v p u) = TotalDeviceReports (ParserData p)"
    by (simp add: stored_info_def grown_info_def Let_def)
  then show ?thesis
    using main_one_eq [OF assms(1) q(1,4,5)] grown_info_wf [OF assms(1)] stored_info_wf [OF assms(1)] q assms(2)
    by (auto simp: parser_wf_def)
qed

lemma main_loop_safe:
  assumes "parser_wf p" "UsageListSize p < HID_USAGE_STACK_DEPTH"
  shows "safe (\<lambda>q. UsageListSize q < HID_USAGE_STACK_DEPTH) (main_loop env h v n p)"
  using assms
proof (induction n arbitrary: p)
  case (Suc n)
  show ?case
    unfolding main_loop.simps using main_one_safe [OF Suc.prems] Suc.IH by (rule safe_bind)
qed simp

lemma item_main_safe:
  assumes "parser_wf p" "UsageListSize p < HID_USAGE_STACK_DEPTH"
  shows "safe (\<lambda>q. True) (item_main env h v p)"
  using safe_mono [OF main_loop_safe [OF assms]] parser_wfD(3) [OF assms(1)]
  by (simp add: item_main_def mem_simps)

text \<open>
  Descriptors on which the parser is safe: no \<^verbatim>\<open>PUSH\<close> item, and never exactly as many
  pending usages as the usage list holds when a main item takes one.
\<close>

fun usages_ok :: "nat \<Rightarrow> hid_item list \<Rightarrow> bool" where
  "usages_ok n [] = True"
| "usages_ok n (it # its) =
     (if hi_tag it = 0x08 then n = HID_USAGE_STACK_DEPTH \<or> usages_ok (n + 1) its
      else if hi_tag it AND 0x0C = 0 then n < HID_USAGE_STACK_DEPTH \<and> usages_ok 0 its
      else usages_ok n its)"

definition safe_descriptor :: "hid_item list \<Rightarrow> bool" where
  "safe_descriptor its \<longleftrightarrow>
     list_all item_ok its \<and> list_all (\<lambda>it. hi_tag it \<noteq> 0xA4) its \<and> usages_ok 0 its \<and>
     length (descriptor_of its) < 2 ^ 16"

definition pending_after :: "hid_item \<Rightarrow> hid_parser \<Rightarrow> hid_parser \<Rightarrow> bool" where
  "pending_after it p q \<longleftrightarrow>
     (if hi_tag it = 0x08 then UsageListSize q = Suc (UsageListSize p)
      else hi_tag it AND 0x0C = 0 \<or> UsageListSize q = UsageListSize p)"

lemma item_switch_safe:
  assumes ok: "item_ok it" and push: "hi_tag it \<noteq> 0xA4" and wf: "parser_wf p"
    and pend: "hi_tag it AND 0x0C = 0 \<Longrightarrow> UsageListSize p < HID_USAGE_STACK_DEPTH"
  shows "safe (pending_after it p) (item_switch env (item_header it) v p)"
proof -
  note same = safe_mono [where Q = "\<lambda>q. UsageListSize q = UsageListSize p"]
  note any = safe_mono [where Q = "\<lambda>q. True"]
  have upd: "safe (\<lambda>q. UsageListSize q = UsageListSize p) (upd_attr f p)" for f
    using upd_attr_safe [OF wf] .
  have count: "safe (\<lambda>q. UsageListSize q = UsageListSize p) (do { p \<leftarrow> upd_state f p; Some (Next p) })" for f
    by (simp add: upd_state_eq [OF wf] upd_state_wf [OF wf])
  have range: "parser_wf (p\<lparr>UsageMinMax := m\<rparr>)" for m
    using wf by (simp add: parser_wf_def)
  have main: "safe (\<lambda>q. True) (item_main env h v p)" "safe (\<lambda>q. True) (item_collection v p)"
    "safe (\<lambda>q. True) (item_end_collection p)" if "hi_tag it AND 0x0C = 0" for h
    using item_main_safe item_collection_safe item_end_collection_safe wf pend [OF that] by auto
  show ?thesis
    unfolding item_switch_def Let_def header_bits(2) [OF ok]
    using push wf range
    by (auto simp: pending_after_def item_usage_page_def
        intro: same [OF item_pop_safe [OF wf]] same [OF upd] same [OF count] same [OF item_report_id_safe [OF wf]]
          safe_mono [OF item_usage_safe [OF wf]] any [OF main(1)] any [OF main(2)] any [OF main(3)])
qed

lemma clear_locals_wf:
  assumes "parser_wf p"
  shows "parser_wf (clear_locals h p)"
  using assms by (simp add: clear_locals_def parser_wf_def)

lemma run_items_safe:
  assumes "list_all item_ok its" "list_all (\<lambda>it. hi_tag it \<noteq> 0xA4) its"
    and "parser_wf p" "usages_ok (UsageListSize p) its"
  shows "safe (\<lambda>q. True) (run_items env its p)"
  using assms
proof (induction its arbitrary: p)
  case (Cons it its)
  have head: "safe (pending_after it p) (item_switch env (item_header it) (item_value it) p)"
    using Cons.prems by (intro item_switch_safe) (auto split: if_splits)
  have rest: "safe (\<lambda>q. True) (run_items env its (clear_locals (item_header it) q))"
    if "parser_wf q" "pending_after it p q" for q
  proof (intro Cons.IH clear_locals_wf [OF that(1)])
    have "item_header it AND 0x0C = hi_tag it AND 0x0C"
      using Cons.prems(1) header_bits(3) by simp
    moreover have "UsageListSize q \<le> HID_USAGE_STACK_DEPTH"
      using that(1) by (simp add: parser_wf_def)
    ultimately show "usages_ok (UsageListSize (clear_locals (item_header it) q)) its"
      using that(2) Cons.prems(4)
      by (auto simp: clear_locals_def pending_after_def split: if_splits)
  qed (use Cons.prems in auto)
  show ?case
    unfolding run_items.simps using head rest by (rule safe_bind)
qed simp

lemma parser_init_wf:
  assumes "length (env_usages env) = HID_USAGE_STACK_DEPTH"
  shows "parser_wf (parser_init env)"
  using assms
  by (auto simp: parser_wf_def info_wf_def parser_init_def zero_info_def zero_size_info_def hid_limits)

text \<open>A three-button mouse with two movement axes.\<close>

definition mouse_items :: "hid_item list" where
  "mouse_items =
     [\<lparr>hi_tag = 0x04, hi_bits = Bits_8, hi_data = 0x01\<rparr>, \<lparr>hi_tag = 0x08, hi_bits = Bits_8, hi_data = 0x02\<rparr>,
      \<lparr>hi_tag = 0xA0, hi_bits = Bits_8, hi_data = 0x01\<rparr>,
      \<lparr>hi_tag = 0x18, hi_bits = Bits_8, hi_data = 0x01\<rparr>, \<lparr>hi_tag = 0x28, hi_bits = Bits_8, hi_data = 0x03\<rparr>,
      \<lparr>hi_tag = 0x94, hi_bits = Bits_8, hi_data = 0x03\<rparr>, \<lparr>hi_tag = 0x74, hi_bits = Bits_8, hi_data = 0x01\<rparr>,
      \<lparr>hi_tag = 0x80, hi_bits = Bits_8, hi_data = 0x02\<rparr>,
      \<lparr>hi_tag = 0x94, hi_bits = Bits_8, hi_data = 0x01\<rparr>, \<lparr>hi_tag = 0x74, hi_bits = Bits_8, hi_data = 0x05\<rparr>,
      \<lparr>hi_tag = 0x80, hi_bits = Bits_8, hi_data = 0x01\<rparr>,
      \<lparr>hi_tag = 0x94, hi_bits = Bits_8, hi_data = 0x02\<rparr>, \<lparr>hi_tag = 0x74, hi_bits = Bits_8, hi_data = 0x08\<rparr>,
      \<lparr>hi_tag = 0x80, hi_bits = Bits_8, hi_data = 0x06\<rparr>,
      \<lparr>hi_tag = 0xC0, hi_bits = Bits_0, hi_data = 0\<rparr>]"

definition mouse_env :: hid_env where
  "mouse_env = \<lparr>env_filter = (\<lambda>_. True), env_state = zero_state, env_usages = replicate 8 0, env_item = zero_item\<rparr>"

lemma mouse_safe: "safe_descriptor mouse_items"
  by (simp add: safe_descriptor_def mouse_items_def item_ok_def descriptor_of_def HID_RI_ENTRY_def
      encode_bytes hid_limits)

text \<open>No early return reports success.\<close>

definition honest :: "hid_outcome option \<Rightarrow> bool" where
  "honest m \<longleftrightarrow> (\<forall>q. m \<noteq> Some (Return HID_PARSE_Successful q))"

lemma honest_simps [simp]:
  "honest None" "honest (Some (Next q))" "honest (Some (Return c q)) \<longleftrightarrow> c \<noteq> HID_PARSE_Successful"
  by (auto simp: honest_def)

lemma honest_bind:
  assumes "\<And>x. m = Some x \<Longrightarrow> honest (f x)"
  shows "honest (Option.bind m f)"
  using assms by (cases m) auto

lemma honest_steps:
  "honest (item_push p)" "honest (item_pop p)" "honest (upd_attr f p)" "honest (set_report_id rid p)"
  "honest (item_usage v p)" "honest (fill_path i v p)" "honest (item_end_collection p)" "honest (main_one env h v p)"
  by (auto simp: item_push_def item_pop_def upd_attr_def set_report_id_def item_usage_def fill_path_def
      item_end_collection_def main_one_def Let_def intro!: honest_bind split: option.split)

lemma honest_more:
  "honest (item_report_id v p)" "honest (item_collection v p)" "honest (item_usage_page h v p)"
  by (auto simp: item_report_id_def item_collection_def item_usage_page_def Let_def honest_steps
      intro!: honest_bind split: option.split)

lemma honest_main: "honest (main_loop env h v n p)"
proof (induction n arbitrary: p)
  case (Suc n)
  show ?case
  proof (cases "main_one env h v p")
    case (Some r)
    with Suc honest_steps(8) [of env h v p] show ?thesis by (cases r) auto
  qed simp
qed simp

lemma honest_switch: "honest (item_switch env h v p)"
  by (auto simp: item_switch_def item_main_def Let_def honest_steps honest_more honest_main intro!: honest_bind)

lemma no_early_success:
  assumes "run_items env its p = Some r"
  shows "honest (Some r)"
  using assms
proof (induction its arbitrary: p)
  case (Cons it its)
  then obtain r' where r': "item_switch env (item_header it) (item_value it) p = Some r'"
    by (auto simp: bind_Some_conv)
  then show ?case
    using Cons honest_switch [of env "item_header it" "item_value it" p] by (cases r') auto
qed auto

text \<open>Taking a usage from a full list reads behind it.\<close>

lemma shift_usages_full:
  assumes "length us \<le> i + n" "0 < n"
  shows "shift_usages i n us = None"
  using assms
proof (induction n arbitrary: i us)
  case (Suc n)
  show ?case
  proof (cases "i + 1 < length us")
    case True
    then have "shift_usages (i + 1) n (us[i := us ! (i + 1)]) = None"
      using Suc.prems by (intro Suc.IH) auto
    with True show ?thesis by (simp add: mem_simps)
  next
    case False
    then show ?thesis by (simp add: arr_rd_def)
  qed
qed simp

lemma next_usage_full:
  assumes "parser_wf p" "UsageListSize p = HID_USAGE_STACK_DEPTH"
  shows "next_usage p = None"
  using assms shift_usages_full [of "UsageList p" 0 HID_USAGE_STACK_DEPTH]
  by (simp add: next_usage_def parser_wf_def hid_limits bind_eq_None_conv)

lemma full_collection:
  assumes "parser_wf p" "UsageListSize p = HID_USAGE_STACK_DEPTH" "CurrCollectionPath p = None"
  shows "item_collection v p = None"
  using next_usage_full [OF assms(1,2)] assms(3) by (simp add: item_collection_def fill_path_def bind_eq_None_conv Let_def)

lemma full_main:
  assumes "parser_wf p" "UsageListSize p = HID_USAGE_STACK_DEPTH" "st_ReportCount (StateTable p ! CurrStateTable p) \<noteq> 0"
  shows "item_main env h v p = None"
proof -
  obtain n where "unat (st_ReportCount (StateTable p ! CurrStateTable p)) = Suc n"
    using assms(3) by (metis not0_implies_Suc unat_eq_zero)
  then show ?thesis
    using next_usage_full [OF assms(1,2)] parser_wfD(3) [OF assms(1)]
    by (simp add: item_main_def main_one_def mem_simps Let_def)
qed

text \<open>A copy of more bytes than a slot has overlaps its source.\<close>

lemma push_overlaps:
  assumes "CurrStateTable p = 0"
  shows "item_push p = None"
  using assms by (simp add: item_push_def copy_slot_def memcpy_inside_def sizeof_StateTable_def sizeof_ReportItem_def
      sizeof_Attributes_def hid_limits)

text \<open>Without \<^verbatim>\<open>PUSH\<close> the parser stays in the first slot.\<close>

definition same_slot :: "hid_parser \<Rightarrow> hid_outcome option \<Rightarrow> bool" where
  "same_slot p m = (\<forall>q. m = Some (Next q) \<longrightarrow> CurrStateTable q = CurrStateTable p)"

lemma next_usage_slot: "next_usage p = Some (u, q) \<Longrightarrow> CurrStateTable q = CurrStateTable p"
  by (auto simp: next_usage_def bind_Some_conv split: if_splits)

lemma upd_state_slot: "upd_state f p = Some q \<Longrightarrow> CurrStateTable q = CurrStateTable p"
  by (auto simp: upd_state_def bind_Some_conv)

lemma fill_path_slot: "same_slot p (fill_path i v p)"
  using next_usage_slot by (auto simp: same_slot_def fill_path_def bind_Some_conv Let_def)

lemma item_collection_slot: "same_slot p (item_collection v p)"
proof (cases "CurrCollectionPath p")
  case None
  then show ?thesis
    using fill_path_slot by (simp add: item_collection_def)
next
  case (Some parent)
  then show ?thesis
    using fill_path_slot by (auto simp: same_slot_def item_collection_def bind_Some_conv split: option.splits)
qed

lemma set_report_id_slot: "same_slot p (set_report_id rid p)"
  by (auto simp: same_slot_def set_report_id_def bind_Some_conv Let_def)

lemma same_slot_of:
  assumes "same_slot q m" "CurrStateTable q = CurrStateTable p"
  shows "same_slot p m"
  using assms by (simp add: same_slot_def)

lemma same_slot_bind:
  assumes "\<And>x. m = Some x \<Longrightarrow> same_slot p (f x)"
  shows "same_slot p (Option.bind m f)"
  using assms by (cases m) (auto simp: same_slot_def)

lemma same_slot_simps [simp]:
  "same_slot p (Some (Return code q))" "same_slot p None"
  "same_slot p (Some (Next q)) \<longleftrightarrow> CurrStateTable q = CurrStateTable p"
  by (simp_all add: same_slot_def)

lemma item_report_id_slot: "same_slot p (item_report_id v p)"
  unfolding item_report_id_def Let_def
  by (auto intro!: same_slot_bind same_slot_of [OF set_report_id_slot] simp: upd_state_slot split: option.split)

lemma main_one_slot: "same_slot p (main_one env h v p)"
  unfolding main_one_def Let_def
  by (auto intro!: same_slot_bind simp: next_usage_slot)

lemma main_loop_slot: "same_slot p (main_loop env h v n p)"
proof (induction n arbitrary: p)
  case (Suc n)
  show ?case
    using main_one_slot [of p env h v] Suc.IH
    by (auto intro!: same_slot_bind same_slot_of [OF Suc.IH] split: hid_outcome.split)
qed simp

lemma item_switch_slot:
  assumes "CurrStateTable p = 0" "h AND 0xFC \<noteq> 0xA4"
  shows "same_slot p (item_switch env h v p)"
proof -
  have "same_slot p (upd_attr f p)" for f
    by (auto simp: upd_attr_def upd_state_slot intro!: same_slot_bind)
  moreover have "same_slot p (item_end_collection p)" "same_slot p (item_usage v p)"
    by (auto simp: item_end_collection_def item_usage_def intro!: same_slot_bind split: option.split)
  ultimately show ?thesis
    using assms unfolding item_switch_def item_usage_page_def item_main_def item_pop_def Let_def
    by (auto intro!: same_slot_bind simp: upd_state_slot item_report_id_slot item_collection_slot main_loop_slot)
qed

lemma run_items_slot:
  assumes "list_all item_ok its" "list_all (\<lambda>it. hi_tag it \<noteq> 0xA4) its" "CurrStateTable p = 0"
    and "run_items env its p = Some (Next q)"
  shows "CurrStateTable q = 0"
  using assms
proof (induction its arbitrary: p)
  case (Cons it its)
  then obtain r where r: "item_switch env (item_header it) (item_value it) p = Some (Next r)"
    and q: "run_items env its (clear_locals (item_header it) r) = Some (Next q)"
    by (cases "item_switch env (item_header it) (item_value it) p") (auto split: hid_outcome.splits)
  have "CurrStateTable r = 0"
    using item_switch_slot [of p "item_header it" env "item_value it"] header_bits(2) Cons.prems r by simp
  then have "CurrStateTable (clear_locals (item_header it) r) = 0"
    by (simp add: clear_locals_def)
  then show ?case
    using Cons.IH [OF _ _ _ q] Cons.prems by simp
qed simp

text \<open>
  The bytes that make the parser leave its memory in the state \<open>p\<close>: a \<^verbatim>\<open>PUSH\<close> item, an item with
  fewer data bytes than its header announces, and a root collection or a main item that takes a
  usage from a full list.
\<close>

definition data_size :: "u8 \<Rightarrow> nat" where
  "data_size h = (if h AND 0x03 = 0x03 then 4 else unat (h AND 0x03))"

definition bad_tail :: "hid_parser \<Rightarrow> bytes \<Rightarrow> bool" where
  "bad_tail p tail \<longleftrightarrow>
     (case tail of
        [] \<Rightarrow> False
      | h # rest \<Rightarrow>
          length rest < data_size h \<or> h AND 0xFC = 0xA4 \<or>
          UsageListSize p = HID_USAGE_STACK_DEPTH \<and>
          (h AND 0xFC = 0xA0 \<and> CurrCollectionPath p = None \<or>
           h AND 0xFC \<in> {0x80, 0x90, 0xB0} \<and> st_ReportCount (StateTable p ! CurrStateTable p) \<noteq> 0))"

lemma item_data_truncated:
  assumes "length rest < data_size h"
  shows "item_data (pre @ h # rest) (Suc (length pre)) h = None"
proof -
  have "unat (h AND 0x03) \<in> {0, 1, 2, 3}"
    using word_and_le1 [of h 3] by (auto simp: word_le_nat_alt)
  then have "h AND 0x03 = 0x00 \<or> h AND 0x03 = 0x01 \<or> h AND 0x03 = 0x02 \<or> h AND 0x03 = 0x03"
    by (auto simp: word_unat_eq_iff)
  then show ?thesis
    using assms by (auto simp: item_data_def data_size_def rd8_def rd16_def rd32_def)
qed

lemma bad_tail_switch:
  assumes "parser_wf p" "CurrStateTable p = 0" "bad_tail p (h # rest)" "data_size h \<le> length rest"
  shows "item_switch env h v p = None"
  using assms push_overlaps [OF assms(2)] full_collection [OF assms(1), of v] full_main [OF assms(1), of env h v]
  by (auto simp: bad_tail_def item_switch_def Let_def)

lemma bad_tail_stops:
  assumes "parser_wf p" "CurrStateTable p = 0" "bad_tail p tail" "length tail < 2 ^ 16"
  shows "hid_loop env (pre @ tail) (length pre) (of_nat (length tail)) p = None"
proof -
  obtain h rest where t: "tail = h # rest"
    using assms(3) by (cases tail) (auto simp: bad_tail_def)
  have nz: "(of_nat (length tail) :: u16) \<noteq> 0"
    using assms(4) t by (intro of_nat_u16_nonzero) auto
  show ?thesis
  proof (cases "length rest < data_size h")
    case True
    then show ?thesis
      using nz item_data_truncated [of rest h pre] unfolding t by (subst hid_loop.simps) simp
  next
    case False
    then show ?thesis
      using nz bad_tail_switch [of p h rest env] assms(1-3) unfolding t
      by (subst hid_loop.simps) (cases "item_data (pre @ h # rest) (Suc (length pre)) h", auto)
  qed
qed

text \<open>Concrete parses for the properties below.\<close>

definition eight_usages :: "hid_item list" where
  "eight_usages = map (\<lambda>u. \<lparr>hi_tag = 0x08, hi_bits = Bits_8, hi_data = u\<rparr>) [1, 2, 3, 4, 5, 6, 7, 8]"

lemma mouse_gets_through:
  "case run_items mouse_env mouse_items (parser_init mouse_env) of
     Some (Next p) \<Rightarrow> length (descriptor_of mouse_items) < 1000
   | Some (Return code p) \<Rightarrow> False | None \<Rightarrow> False"
  by code_simp

lemma eight_usages_pending:
  "case run_items mouse_env eight_usages (parser_init mouse_env) of
     Some (Next p) \<Rightarrow> bad_tail p [0xA1, 0x01]
   | Some (Return code p) \<Rightarrow> False | None \<Rightarrow> False"
  by code_simp

lemma eight_usages_length: "length (descriptor_of eight_usages) = 16"
  by code_simp

lemma eight_usages_safe: "safe_descriptor eight_usages"
  by (simp add: safe_descriptor_def eight_usages_length) (simp add: eight_usages_def item_ok_def hid_limits)

section \<open>Properties\<close>

text \<open>
  C16. The parser is safe on hostile input.  On every well-framed descriptor without a
  \<^verbatim>\<open>PUSH\<close> item and without eight pending usages at a main item, whatever its tags, sizes,
  counts and nesting, and whatever the filter decides, the parser returns, makes no access outside
  its arrays, and leaves counts, indices and item types within their bounds; it reports success only
  when it stored an item.
\<close>

theorem hid_parser_safe:
  assumes "safe_descriptor its" "length (env_usages env) = HID_USAGE_STACK_DEPTH"
  shows "\<exists>code pd. USB_ProcessHIDReport env (descriptor_of its) (of_nat (length (descriptor_of its))) = Some (code, pd) \<and>
           info_wf pd \<and> (code = HID_PARSE_Successful \<longrightarrow> 0 < TotalReportItems pd)"
proof -
  let ?p = "parser_init env"
  have pre: "list_all item_ok its" "list_all (\<lambda>it. hi_tag it \<noteq> 0xA4) its" "usages_ok (UsageListSize ?p) its"
    "length (descriptor_of its) < 2 ^ 16"
    using assms(1) by (auto simp: safe_descriptor_def parser_init_def)
  have loop: "hid_loop env (descriptor_of its) 0 (of_nat (length (descriptor_of its))) ?p = run_items env its ?p"
    using hid_loop_items [OF pre(1,4), of env "[]"] by simp
  have "safe (\<lambda>q. True) (run_items env its ?p)"
    using run_items_safe [OF pre(1,2) parser_init_wf [OF assms(2)] pre(3)] .
  then obtain r where r: "run_items env its ?p = Some r" "safe (\<lambda>q. True) (Some r)"
    by (cases "run_items env its ?p") (auto simp: safe_def)
  show ?thesis
    using r no_early_success [OF r(1)] parser_wfD(1) unfolding USB_ProcessHIDReport_def loop by (cases r) auto
qed

theorem hid_parser_safe_witness:
  "\<exists>code pd. USB_ProcessHIDReport mouse_env (descriptor_of mouse_items) (of_nat (length (descriptor_of mouse_items))) =
       Some (code, pd) \<and> info_wf pd"
  using hid_parser_safe [OF mouse_safe, of mouse_env] by (auto simp: mouse_env_def hid_limits)

text \<open>
  C19. What the encoding macros write is what the parser reads: on the bytes of any list of
  encoded items the parser performs exactly one step per item, with the item's tag and its data cut
  to the encoded width, whatever the state it starts from.
\<close>

theorem hid_items_roundtrip:
  assumes "list_all item_ok its" "length (descriptor_of its) < 2 ^ 16"
  shows "hid_loop env (descriptor_of its) 0 (of_nat (length (descriptor_of its))) p = run_items env its p \<and>
         list_all (\<lambda>it. (hi_tag it OR HID_RI_DATA_BITS (hi_bits it)) AND 0xFC = hi_tag it) its"
  using hid_loop_items [OF assms, of env "[]" p] header_bits(2) assms(1) by (auto simp: list_all_iff)

theorem hid_items_roundtrip_witness:
  "hid_loop mouse_env (descriptor_of mouse_items) 0 (of_nat (length (descriptor_of mouse_items))) (parser_init mouse_env) =
     run_items mouse_env mouse_items (parser_init mouse_env)"
  using hid_items_roundtrip [of mouse_items mouse_env "parser_init mouse_env"] mouse_safe
  by (simp add: safe_descriptor_def)

text \<open>
  C20. What the parser does not survive.  Let a safe descriptor be followed by any bytes, and let the
  parser get through the safe part to a state \<open>p\<close>.  If the next bytes are a \<^verbatim>\<open>PUSH\<close> item (its
  \<^verbatim>\<open>memcpy\<close> of the 42 bytes of a report item from one state table slot of 28 bytes to the next
  overlaps and leaves the table), an item with fewer data bytes than its header announces, or a root
  collection or a main item with a nonzero report count while eight usages are pending (the shift
  reads behind the usage list, although eight is its limit), then the parse makes an undefined
  access, whatever comes after.
\<close>

theorem hid_parser_undefined_accesses:
  assumes "safe_descriptor its" "length (env_usages env) = HID_USAGE_STACK_DEPTH"
    and "run_items env its (parser_init env) = Some (Next p)" "bad_tail p tail"
    and "length (descriptor_of its @ tail) < 2 ^ 16"
  shows "USB_ProcessHIDReport env (descriptor_of its @ tail) (of_nat (length (descriptor_of its @ tail))) = None"
proof -
  have ok: "list_all item_ok its" "list_all (\<lambda>it. hi_tag it \<noteq> 0xA4) its" "usages_ok (UsageListSize (parser_init env)) its"
    using assms(1) by (auto simp: safe_descriptor_def parser_init_def)
  have "parser_wf p"
    using run_items_safe [OF ok(1,2) parser_init_wf [OF assms(2)] ok(3), of env] assms(3) by simp
  moreover have "CurrStateTable p = 0"
    using run_items_slot [OF ok(1,2) _ assms(3)] by (simp add: parser_init_def)
  ultimately have "hid_loop env (descriptor_of its @ tail) (length (descriptor_of its)) (of_nat (length tail)) p = None"
    using bad_tail_stops [OF _ _ assms(4)] assms(5) by simp
  then show ?thesis
    using hid_loop_prefix [OF ok(1) assms(5), of env "[]" "parser_init env"] assms(3)
    by (simp add: USB_ProcessHIDReport_def)
qed

theorem hid_parser_undefined_accesses_witness:
  "USB_ProcessHIDReport mouse_env (descriptor_of mouse_items @ [0xA4]) (of_nat (length (descriptor_of mouse_items @ [0xA4]))) = None \<and>
   USB_ProcessHIDReport mouse_env (descriptor_of [] @ [0x06, 0x01]) (of_nat (length (descriptor_of [] @ [0x06, 0x01]))) = None \<and>
   USB_ProcessHIDReport mouse_env (descriptor_of eight_usages @ [0xA1, 0x01])
     (of_nat (length (descriptor_of eight_usages @ [0xA1, 0x01]))) = None"
proof (intro conjI)
  have u: "length (env_usages mouse_env) = HID_USAGE_STACK_DEPTH"
    by (simp add: mouse_env_def hid_limits)
  obtain p where p: "run_items mouse_env mouse_items (parser_init mouse_env) = Some (Next p)"
      "length (descriptor_of mouse_items) < 1000"
    using mouse_gets_through by (auto split: option.splits hid_outcome.splits)
  show "USB_ProcessHIDReport mouse_env (descriptor_of mouse_items @ [0xA4])
      (of_nat (length (descriptor_of mouse_items @ [0xA4]))) = None"
    using p(2) by (intro hid_parser_undefined_accesses [OF mouse_safe u p(1)]) (simp_all add: bad_tail_def)
  show "USB_ProcessHIDReport mouse_env (descriptor_of [] @ [0x06, 0x01])
      (of_nat (length (descriptor_of [] @ [0x06, 0x01]))) = None"
    by (intro hid_parser_undefined_accesses [OF _ u, of "[]" "parser_init mouse_env"])
      (simp_all add: bad_tail_def safe_descriptor_def data_size_def descriptor_of_def)
  obtain q where q: "run_items mouse_env eight_usages (parser_init mouse_env) = Some (Next q)" "bad_tail q [0xA1, 0x01]"
    using eight_usages_pending by (auto split: option.splits hid_outcome.splits)
  show "USB_ProcessHIDReport mouse_env (descriptor_of eight_usages @ [0xA1, 0x01])
      (of_nat (length (descriptor_of eight_usages @ [0xA1, 0x01]))) = None"
    by (intro hid_parser_undefined_accesses [OF eight_usages_safe u q]) (simp add: eight_usages_length)
qed

text \<open>
  A second top-level collection overwrites the first.  In this descriptor a mouse and a
  keyboard collection each hold one item; after the parse both items name path zero, and path zero
  describes the keyboard.
\<close>

theorem hid_second_root_overwrites_first:
  "(case USB_ProcessHIDReport mouse_env
      [0x05, 0x01, 0x75, 0x08, 0x95, 0x01,
       0x09, 0x02, 0xA1, 0x01, 0x81, 0x02, 0xC0,
       0x09, 0x06, 0xA1, 0x01, 0x81, 0x02, 0xC0] 20 of
      Some (code, pd) \<Rightarrow> code = HID_PARSE_Successful \<and> TotalReportItems pd = 2 \<and>
        ri_CollectionPath (ReportItems pd ! 0) = Some 0 \<and> ri_CollectionPath (ReportItems pd ! 1) = Some 0 \<and>
        us_Usage (cp_Usage (CollectionPaths pd ! 0)) = 0x06
    | None \<Rightarrow> False)"
  by code_simp

end
