(* ===== verification/HID_Layout.thy ===== *)
theory HID_Layout
  imports HID_Parser
begin

text \<open>
  Where the HID parser puts the report items: the bit ranges of the items of one report do not
  overlap, lie inside the report size the library reports, and reading an item from a report of
  that size yields exactly its bits.
\<close>

section \<open>Layout of the report items\<close>

text \<open>
  How many report bits a descriptor asks for: the sum of report count times report size over its
  main items.  The layout statements assume this fits the 16-bit counters of the parser.
\<close>

fun total_bits :: "u8 \<Rightarrow> u8 \<Rightarrow> hid_item list \<Rightarrow> nat" where
  "total_bits sz count [] = 0"
| "total_bits sz count (it # its) =
     (if hi_tag it = 0x74 then total_bits (ucast (item_value it)) count its
      else if hi_tag it = 0x94 then total_bits sz (ucast (item_value it)) its
      else if hi_tag it \<in> {0x80, 0x90, 0xB0} then unat count * unat sz + total_bits sz count its
      else total_bits sz count its)"

text \<open>
  Report items with a report identifier, and all items of a device that does not use identifiers,
  belong to the report with their identifier.
\<close>

definition item_end :: "HID_ReportItem_t \<Rightarrow> nat" where
  "item_end it = unat (ri_BitOffset it) + unat (at_BitSize (ri_Attributes it))"

definition owned :: "HID_ReportInfo_t \<Rightarrow> HID_ReportItem_t \<Rightarrow> bool" where
  "owned pd it \<longleftrightarrow> ri_ReportID it \<noteq> 0 \<or> \<not> UsingReportIDs pd"

abbreviation report_bits :: "HID_ReportInfo_t \<Rightarrow> nat \<Rightarrow> nat \<Rightarrow> nat" where
  "report_bits pd k t \<equiv> unat (rs_ReportSizeBits (ReportIDSizes pd ! k) ! t)"

definition layout_ok :: "hid_env \<Rightarrow> HID_ReportInfo_t \<Rightarrow> bool" where
  "layout_ok env pd \<longleftrightarrow>
     (\<forall>i < TotalReportItems pd. ri_ItemFlags (ReportItems pd ! i) AND 1 = 0 \<and>
        env_filter env (ReportItems pd ! i)) \<and>
     (\<forall>i < TotalDeviceReports pd. \<forall>j < i.
        rs_ReportID (ReportIDSizes pd ! j) \<noteq> rs_ReportID (ReportIDSizes pd ! i)) \<and>
     (\<forall>i < TotalReportItems pd. owned pd (ReportItems pd ! i) \<longrightarrow>
        (\<exists>k < TotalDeviceReports pd.
           rs_ReportID (ReportIDSizes pd ! k) = ri_ReportID (ReportItems pd ! i) \<and>
           item_end (ReportItems pd ! i) \<le> report_bits pd k (ri_ItemType (ReportItems pd ! i)))) \<and>
     (\<forall>i < TotalReportItems pd. \<forall>j < i. owned pd (ReportItems pd ! i) \<longrightarrow>
        ri_ReportID (ReportItems pd ! j) = ri_ReportID (ReportItems pd ! i) \<longrightarrow>
        ri_ItemType (ReportItems pd ! j) = ri_ItemType (ReportItems pd ! i) \<longrightarrow>
        item_end (ReportItems pd ! j) \<le> unat (ri_BitOffset (ReportItems pd ! i)))"

text \<open>The invariant that carries it: \<open>B\<close> is the number of bits still to come.\<close>

definition layout_inv :: "hid_env \<Rightarrow> nat \<Rightarrow> hid_parser \<Rightarrow> bool" where
  "layout_inv env B p \<longleftrightarrow>
     parser_wf p \<and> CurrStateTable p = 0 \<and> layout_ok env (ParserData p) \<and>
     (\<forall>k < HID_MAX_REPORT_IDS. \<forall>t < 3. report_bits (ParserData p) k t + B < 2 ^ 16) \<and>
     (if UsingReportIDs (ParserData p)
      then rs_ReportID (curr_info p) = st_ReportID (curr_state p)
      else TotalDeviceReports (ParserData p) = 1 \<and> CurrReportIDInfo p = 0 \<and>
           rs_ReportID (curr_info p) = 0 \<and> st_ReportID (curr_state p) = 0 \<and>
           (\<forall>i < TotalReportItems (ParserData p). ri_ReportID (ReportItems (ParserData p) ! i) = 0))"

lemma layout_invD:
  assumes "layout_inv env B p"
  shows "parser_wf p" "CurrStateTable p = 0" "layout_ok env (ParserData p)"
    "\<And>k t. k < HID_MAX_REPORT_IDS \<Longrightarrow> t < 3 \<Longrightarrow> report_bits (ParserData p) k t + B < 2 ^ 16"
    "rs_ReportID (curr_info p) = st_ReportID (curr_state p)"
    "\<not> UsingReportIDs (ParserData p) \<Longrightarrow> TotalDeviceReports (ParserData p) = 1 \<and> CurrReportIDInfo p = 0 \<and>
       st_ReportID (curr_state p) = 0 \<and>
       (\<forall>i < TotalReportItems (ParserData p). ri_ReportID (ReportItems (ParserData p) ! i) = 0)"
  using assms by (auto simp: layout_inv_def split: if_splits)

text \<open>Steps that leave alone what the layout depends on.\<close>

definition same_layout :: "hid_parser \<Rightarrow> hid_parser \<Rightarrow> bool" where
  "same_layout p q \<longleftrightarrow>
     ReportItems (ParserData q) = ReportItems (ParserData p) \<and>
     TotalReportItems (ParserData q) = TotalReportItems (ParserData p) \<and>
     ReportIDSizes (ParserData q) = ReportIDSizes (ParserData p) \<and>
     TotalDeviceReports (ParserData q) = TotalDeviceReports (ParserData p) \<and>
     UsingReportIDs (ParserData q) = UsingReportIDs (ParserData p) \<and>
     CurrReportIDInfo q = CurrReportIDInfo p \<and> CurrStateTable q = CurrStateTable p \<and>
     st_ReportID (curr_state q) = st_ReportID (curr_state p)"

lemma same_layout_refl [simp]: "same_layout p p"
  by (simp add: same_layout_def)

lemma same_layout_ok:
  assumes "same_layout p q"
  shows "layout_ok env (ParserData q) = layout_ok env (ParserData p)"
  using assms unfolding same_layout_def layout_ok_def owned_def by simp

lemma same_layout_inv:
  assumes "same_layout p q" "layout_inv env B p" "parser_wf q"
  shows "layout_inv env B q"
  using assms same_layout_ok [OF assms(1), of env] unfolding layout_inv_def
  by (auto simp: same_layout_def split: if_splits)

text \<open>\<open>keeps P m\<close>: whatever state the step ends in satisfies \<open>P\<close>.\<close>

definition keeps :: "(hid_parser \<Rightarrow> bool) \<Rightarrow> hid_outcome option \<Rightarrow> bool" where
  "keeps P m \<longleftrightarrow> (\<forall>q. m = Some (Next q) \<longrightarrow> P q) \<and> (\<forall>c q. m = Some (Return c q) \<longrightarrow> P q)"

lemma keeps_simps [simp]:
  "keeps P None" "keeps P (Some (Next q)) \<longleftrightarrow> P q" "keeps P (Some (Return c q)) \<longleftrightarrow> P q"
  by (auto simp: keeps_def)

lemma next_usage_same:
  assumes "next_usage p = Some (u, q)"
  shows "ParserData q = ParserData p \<and> StateTable q = StateTable p \<and> CurrStateTable q = CurrStateTable p \<and>
    CurrReportIDInfo q = CurrReportIDInfo p \<and> CurrCollectionPath q = CurrCollectionPath p"
  using assms by (auto simp: next_usage_def bind_Some_conv split: if_splits)

lemma upd_attr_keeps:
  assumes "parser_wf p"
  shows "keeps (same_layout p) (upd_attr f p)"
  using parser_wfD(3) [OF assms] by (simp add: upd_attr_def upd_state_eq [OF assms] same_layout_def)

lemma item_usage_keeps: "keeps (same_layout p) (item_usage v p)"
  by (auto simp: item_usage_def keeps_def same_layout_def bind_Some_conv)

lemma fill_path_keeps: "keeps (same_layout p) (fill_path i v p)"
  by (auto simp: fill_path_def keeps_def bind_Some_conv Let_def same_layout_def dest!: next_usage_same)

lemma item_collection_keeps: "keeps (same_layout p) (item_collection v p)"
proof (cases "CurrCollectionPath p")
  case None
  then show ?thesis by (simp add: item_collection_def fill_path_keeps)
next
  case (Some parent)
  have "keeps (same_layout p) (fill_path i v (p\<lparr>ParserData := (ParserData p)\<lparr>CollectionPaths := ps\<rparr>\<rparr>))" for i ps
  proof -
    have "same_layout (p\<lparr>ParserData := (ParserData p)\<lparr>CollectionPaths := ps\<rparr>\<rparr>) = same_layout p"
      by (simp add: same_layout_def fun_eq_iff)
    then show ?thesis
      using fill_path_keeps [of "p\<lparr>ParserData := (ParserData p)\<lparr>CollectionPaths := ps\<rparr>\<rparr>" i v] by simp
  qed
  then show ?thesis
    using Some by (auto simp: item_collection_def keeps_def bind_Some_conv split: option.splits)
qed

lemma item_end_collection_keeps: "keeps (same_layout p) (item_end_collection p)"
  by (auto simp: item_end_collection_def keeps_def same_layout_def bind_Some_conv split: option.splits)

text \<open>
  \<open>laid env B m\<close>: a step that ends in the parser loop keeps the invariant with \<open>B\<close> bits to come,
  and one that returns leaves a sound layout.
\<close>

definition laid :: "hid_env \<Rightarrow> nat \<Rightarrow> hid_outcome option \<Rightarrow> bool" where
  "laid env B m \<longleftrightarrow>
     (\<forall>q. m = Some (Next q) \<longrightarrow> layout_inv env B q) \<and>
     (\<forall>c q. m = Some (Return c q) \<longrightarrow> layout_ok env (ParserData q))"

lemma laid_simps [simp]:
  "laid env B None" "laid env B (Some (Next q)) \<longleftrightarrow> layout_inv env B q"
  "laid env B (Some (Return c q)) \<longleftrightarrow> layout_ok env (ParserData q)"
  by (auto simp: laid_def)

lemma keeps_laid:
  assumes "keeps (same_layout p) m" "layout_inv env B p" "safe Q m"
  shows "laid env B m"
proof (cases m)
  case m: (Some r)
  show ?thesis
  proof (cases r)
    case (Return c q)
    with m assms(1) same_layout_ok [of p q env] layout_invD(3) [OF assms(2)] show ?thesis by simp
  next
    case (Next q)
    with m assms same_layout_inv [of p q env B] show ?thesis by simp
  qed
qed simp

lemma set_report_id_eq:
  assumes "CurrReportIDInfo p < length (ReportIDSizes (ParserData p))"
  shows "set_report_id rid p = Some (Next (p\<lparr>ParserData := (ParserData p)\<lparr>UsingReportIDs := True,
           ReportIDSizes := (ReportIDSizes (ParserData p))[CurrReportIDInfo p := (curr_info p)\<lparr>rs_ReportID := rid\<rparr>]\<rparr>\<rparr>))"
  using assms by (simp add: set_report_id_def mem_simps Let_def)

lemma set_report_id_used:
  assumes "CurrReportIDInfo p < length (ReportIDSizes (ParserData p))" "UsingReportIDs (ParserData p)"
  shows "set_report_id rid p = Some (Next (p\<lparr>ParserData := (ParserData p)\<lparr>
           ReportIDSizes := (ReportIDSizes (ParserData p))[CurrReportIDInfo p := (curr_info p)\<lparr>rs_ReportID := rid\<rparr>]\<rparr>\<rparr>))"
  using set_report_id_eq [OF assms(1), of rid] assms(2) by (cases "ParserData p") simp

lemma set_report_id_known:
  assumes "CurrReportIDInfo p < length (ReportIDSizes (ParserData p))" "UsingReportIDs (ParserData p)"
    and "rs_ReportID (curr_info p) = rid"
  shows "set_report_id rid p = Some (Next p)"
proof -
  have "(curr_info p)\<lparr>rs_ReportID := rid\<rparr> = curr_info p"
    using assms(3) by (cases "curr_info p") simp
  then show ?thesis
    using set_report_id_used [OF assms(1,2), of rid] by simp
qed

text \<open>Giving the only report its identifier.\<close>

lemma laid_first_id:
  assumes inv: "layout_inv env B p" and first: "\<not> UsingReportIDs (ParserData p)"
    and q: "parser_wf q" "q = p\<lparr>StateTable := st, ParserData := (ParserData p)\<lparr>UsingReportIDs := True,
        ReportIDSizes := (ReportIDSizes (ParserData p))[0 := (curr_info p)\<lparr>rs_ReportID := rid\<rparr>]\<rparr>\<rparr>"
    and st: "st_ReportID (st ! 0) = rid"
  shows "layout_inv env B q"
proof -
  note D = layout_invD [OF inv]
  have one: "TotalDeviceReports (ParserData p) = 1" "CurrReportIDInfo p = 0"
    "\<forall>i < TotalReportItems (ParserData p). ri_ReportID (ReportItems (ParserData p) ! i) = 0"
    using D(6) first by auto
  have len: "0 < length (ReportIDSizes (ParserData p))"
    using parser_wfD(6) [OF D(1)] by (simp add: hid_limits)
  then have bits: "rs_ReportSizeBits (ReportIDSizes (ParserData q) ! k) =
      rs_ReportSizeBits (ReportIDSizes (ParserData p) ! k)" for k
    using q(2) one(2) by (cases k) simp_all
  have kept: "\<forall>i < TotalReportItems (ParserData p). ri_ItemFlags (ReportItems (ParserData p) ! i) AND 1 = 0 \<and>
      env_filter env (ReportItems (ParserData p) ! i)"
    using D(3) by (simp add: layout_ok_def)
  have "\<not> owned (ParserData q) (ReportItems (ParserData q) ! i)" if "i < TotalReportItems (ParserData q)" for i
    using that one(3) q(2) by (simp add: owned_def)
  then have "layout_ok env (ParserData q)"
    using kept one(1) q(2) by (simp add: layout_ok_def)
  moreover have "rs_ReportID (curr_info q) = st_ReportID (curr_state q)"
    using q(2) one(2) len st D(2) by simp
  ultimately show ?thesis
    using D(2,4) q bits by (simp add: layout_inv_def)
qed

text \<open>Opening a new report.\<close>

lemma laid_new_id:
  assumes inv: "layout_inv env B p" and used: "UsingReportIDs (ParserData p)"
    and fresh: "\<forall>k < TotalDeviceReports (ParserData p). rs_ReportID (ReportIDSizes (ParserData p) ! k) \<noteq> rid"
    and room: "TotalDeviceReports (ParserData p) < HID_MAX_REPORT_IDS"
    and q: "parser_wf q" "q = p\<lparr>StateTable := st, CurrReportIDInfo := TotalDeviceReports (ParserData p),
        ParserData := (ParserData p)\<lparr>TotalDeviceReports := TotalDeviceReports (ParserData p) + 1,
          ReportIDSizes := (ReportIDSizes (ParserData p))[TotalDeviceReports (ParserData p) :=
             zero_size_info\<lparr>rs_ReportID := rid\<rparr>]\<rparr>\<rparr>"
    and st: "st_ReportID (st ! 0) = rid"
  shows "layout_inv env B q"
proof -
  note D = layout_invD [OF inv]
  let ?pd = "ParserData p" and ?n = "TotalDeviceReports (ParserData p)"
  have len: "?n < length (ReportIDSizes ?pd)"
    using parser_wfD(6) [OF D(1)] room by simp
  have "B < 2 ^ 16"
    using D(4) [of 0 0] by (simp add: hid_limits)
  then have bits: "report_bits (ParserData q) k t + B < 2 ^ 16" if "k < HID_MAX_REPORT_IDS" "t < 3" for k t
  proof -
    have "[0, 0, 0] ! t = (0 :: u16)" using that(2) by (auto simp: less_Suc_eq numeral_3_eq_3)
    then show ?thesis
      using D(4) [OF that] \<open>B < 2 ^ 16\<close> q(2) len that
      by (cases "k = ?n") (auto simp: zero_size_info_def)
  qed
  have sizes: "ReportIDSizes (ParserData q) ! k = ReportIDSizes ?pd ! k" if "k < ?n" for k
    using that q(2) by simp
  have "layout_ok env (ParserData q)"
    unfolding layout_ok_def
  proof (intro conjI)
    show "\<forall>i<TotalDeviceReports (ParserData q). \<forall>j<i.
        rs_ReportID (ReportIDSizes (ParserData q) ! j) \<noteq> rs_ReportID (ReportIDSizes (ParserData q) ! i)"
      using D(3) fresh len q(2) by (auto simp: layout_ok_def less_Suc_eq)
    show "\<forall>i<TotalReportItems (ParserData q). owned (ParserData q) (ReportItems (ParserData q) ! i) \<longrightarrow>
        (\<exists>k<TotalDeviceReports (ParserData q).
           rs_ReportID (ReportIDSizes (ParserData q) ! k) = ri_ReportID (ReportItems (ParserData q) ! i) \<and>
           item_end (ReportItems (ParserData q) ! i) \<le>
             report_bits (ParserData q) k (ri_ItemType (ReportItems (ParserData q) ! i)))"
    proof (intro allI impI)
      fix i assume "i < TotalReportItems (ParserData q)" "owned (ParserData q) (ReportItems (ParserData q) ! i)"
      then obtain k where "k < ?n" "rs_ReportID (ReportIDSizes ?pd ! k) = ri_ReportID (ReportItems ?pd ! i)"
          "item_end (ReportItems ?pd ! i) \<le> report_bits ?pd k (ri_ItemType (ReportItems ?pd ! i))"
        using D(3) q(2) by (auto simp: layout_ok_def owned_def)
      then show "\<exists>k<TotalDeviceReports (ParserData q).
           rs_ReportID (ReportIDSizes (ParserData q) ! k) = ri_ReportID (ReportItems (ParserData q) ! i) \<and>
           item_end (ReportItems (ParserData q) ! i) \<le>
             report_bits (ParserData q) k (ri_ItemType (ReportItems (ParserData q) ! i))"
        using sizes q(2) by (intro exI [of _ k]) auto
    qed
  qed (use D(3) q(2) in \<open>auto simp: layout_ok_def owned_def\<close>)
  then show ?thesis
    using D(2) used q st len bits by (simp add: layout_inv_def)
qed

text \<open>Going back to a report that is already known.\<close>

lemma laid_known_id:
  assumes inv: "layout_inv env B p" and used: "UsingReportIDs (ParserData p)"
    and i: "i < TotalDeviceReports (ParserData p)" "rs_ReportID (ReportIDSizes (ParserData p) ! i) = rid"
    and q: "parser_wf q" "q = p\<lparr>StateTable := st, CurrReportIDInfo := i\<rparr>"
    and st: "st_ReportID (st ! 0) = rid"
  shows "layout_inv env B q"
  using layout_invD(2-4) [OF inv] used i q st by (simp add: layout_inv_def)

text \<open>The four ways a report identifier item can go.\<close>

lemma item_report_id_cases:
  fixes p :: hid_parser and v :: u32
  assumes wf: "parser_wf p" and top: "CurrStateTable p = 0"
  defines "rid \<equiv> ucast v :: u8" and "pd \<equiv> ParserData p"
  defines "q \<equiv> p\<lparr>StateTable := (StateTable p)[0 := (StateTable p ! 0)\<lparr>st_ReportID := ucast v\<rparr>]\<rparr>"
  obtains
    (first) "\<not> UsingReportIDs pd" "item_report_id v p = set_report_id rid q"
  | (known) i where "UsingReportIDs pd" "i < TotalDeviceReports pd"
      "rs_ReportID (ReportIDSizes pd ! i) = rid" "item_report_id v p = Some (Next (q\<lparr>CurrReportIDInfo := i\<rparr>))"
  | (full) "item_report_id v p = Some (Return HID_PARSE_InsufficientReportIDItems q)"
  | (new) "UsingReportIDs pd" "\<forall>k < TotalDeviceReports pd. rs_ReportID (ReportIDSizes pd ! k) \<noteq> rid"
      "TotalDeviceReports pd < HID_MAX_REPORT_IDS"
      "item_report_id v p = Some (Next (q\<lparr>CurrReportIDInfo := TotalDeviceReports pd,
         ParserData := pd\<lparr>TotalDeviceReports := TotalDeviceReports pd + 1,
           ReportIDSizes := (ReportIDSizes pd)[TotalDeviceReports pd := zero_size_info\<lparr>rs_ReportID := rid\<rparr>]\<rparr>\<rparr>))"
proof -
  note W = parser_wfD [OF wf, folded pd_def]
  have upd: "upd_state (\<lambda>s. s\<lparr>st_ReportID := rid\<rparr>) p = Some q" and pd: "ParserData q = pd"
    using upd_state_eq [OF wf] top by (simp_all add: q_def rid_def pd_def)
  obtain r where r: "find_report_id rid (ReportIDSizes pd) 0 (TotalDeviceReports pd) = Some r"
      "\<forall>k. r = Some k \<longrightarrow> k < TotalDeviceReports pd \<and> rs_ReportID (ReportIDSizes pd ! k) = rid"
      "r = None \<longrightarrow> (\<forall>k < TotalDeviceReports pd. rs_ReportID (ReportIDSizes pd ! k) \<noteq> rid)"
    using find_report_id_bound [of "TotalDeviceReports pd" "ReportIDSizes pd" rid 0] W(6,7) by auto
  have step: "item_report_id v p = (if UsingReportIDs pd then
       case r of
         Some i \<Rightarrow> set_report_id rid (q\<lparr>CurrReportIDInfo := i\<rparr>)
       | None \<Rightarrow>
           if TotalDeviceReports pd = HID_MAX_REPORT_IDS
           then Some (Return HID_PARSE_InsufficientReportIDItems q)
           else do {
             sizes \<leftarrow> arr_wr (ReportIDSizes pd) (TotalDeviceReports pd) zero_size_info;
             set_report_id rid (q\<lparr>CurrReportIDInfo := TotalDeviceReports pd,
               ParserData := pd\<lparr>TotalDeviceReports := TotalDeviceReports pd + 1,
                                ReportIDSizes := sizes\<rparr>\<rparr>)
           }
       else set_report_id rid q)"
    unfolding item_report_id_def Let_def rid_def [symmetric] upd
    using pd r(1) by (cases r) simp_all
  show ?thesis
  proof (cases "UsingReportIDs pd")
    case False
    with step show ?thesis by (intro first) simp_all
  next
    case True
    show ?thesis
    proof (cases r)
      case (Some i)
      then have "set_report_id rid (q\<lparr>CurrReportIDInfo := i\<rparr>) = Some (Next (q\<lparr>CurrReportIDInfo := i\<rparr>))"
        using True r(2) pd W(6,7) by (intro set_report_id_known) auto
      with Some True r(2) step show ?thesis by (intro known [of i]) simp_all
    next
      case None
      show ?thesis
      proof (cases "TotalDeviceReports pd = HID_MAX_REPORT_IDS")
        case True
        with None step \<open>UsingReportIDs pd\<close> show ?thesis by (intro full) simp
      next
        case False
        then have n: "TotalDeviceReports pd < length (ReportIDSizes pd)"
          using W(6,7) by simp
        from None r(3) False W(7) step True n show ?thesis
          by (intro new) (simp_all add: mem_simps set_report_id_used)
      qed
    qed
  qed
qed

lemma item_report_id_laid:
  assumes inv: "layout_inv env B p"
  shows "laid env B (item_report_id v p)"
proof -
  note D = layout_invD [OF inv]
  let ?st = "(StateTable p)[0 := (StateTable p ! 0)\<lparr>st_ReportID := ucast v\<rparr>]"
  have st: "st_ReportID (?st ! 0) = ucast v"
    using parser_wfD(3) [OF D(1)] D(2) by simp
  have safe: "safe (\<lambda>q. UsageListSize q = UsageListSize p) (item_report_id v p)"
    using item_report_id_safe [OF D(1)] .
  show ?thesis
  proof (rule item_report_id_cases [OF D(1,2), of v])
    assume first: "\<not> UsingReportIDs (ParserData p)"
      and eq: "item_report_id v p = set_report_id (ucast v) (p\<lparr>StateTable := ?st\<rparr>)"
    then show ?thesis
      using safe D(6) parser_wfD(4) [OF D(1)] laid_first_id [OF inv first _ refl st] by (simp add: set_report_id_eq)
  next
    fix i assume "UsingReportIDs (ParserData p)" "i < TotalDeviceReports (ParserData p)"
      "rs_ReportID (ReportIDSizes (ParserData p) ! i) = ucast v"
      "item_report_id v p = Some (Next (p\<lparr>StateTable := ?st, CurrReportIDInfo := i\<rparr>))"
    then show ?thesis
      using safe laid_known_id [OF inv _ _ _ _ refl st] by simp
  next
    assume "item_report_id v p = Some (Return HID_PARSE_InsufficientReportIDItems (p\<lparr>StateTable := ?st\<rparr>))"
    then show ?thesis using D(3) by simp
  next
    let ?n = "TotalDeviceReports (ParserData p)"
    assume "UsingReportIDs (ParserData p)"
      "\<forall>k<?n. rs_ReportID (ReportIDSizes (ParserData p) ! k) \<noteq> ucast v" "?n < HID_MAX_REPORT_IDS"
      "item_report_id v p = Some (Next (p\<lparr>StateTable := ?st, CurrReportIDInfo := ?n,
         ParserData := (ParserData p)\<lparr>TotalDeviceReports := ?n + 1,
           ReportIDSizes := (ReportIDSizes (ParserData p))[?n := zero_size_info\<lparr>rs_ReportID := ucast v\<rparr>]\<rparr>\<rparr>))"
    then show ?thesis
      using safe laid_new_id [OF inv _ _ _ _ refl st] by simp
  qed
qed

subsection \<open>Main items\<close>

abbreviation item_width :: "hid_parser \<Rightarrow> nat" where
  "item_width p \<equiv> unat (at_BitSize (st_Attributes (curr_state p)))"

lemma unat_grown_bits:
  assumes "layout_inv env (item_width p + B) p"
  shows "unat (grown_bits h p) = report_bits (ParserData p) (CurrReportIDInfo p) (item_type_of h) + item_width p"
proof -
  note D = layout_invD [OF assms]
  have "report_bits (ParserData p) (CurrReportIDInfo p) (item_type_of h) + item_width p < 2 ^ 16"
    using D(4) [of "CurrReportIDInfo p" "item_type_of h"] item_type_of_less [of h] parser_wfD(5,7) [OF D(1)]
    by simp
  then show ?thesis
    by (simp add: grown_bits_def unat_word_ariths unsigned_ucast_eq take_bit_nat_eq_self
        less_trans [OF unat_bound])
qed

lemma grown_info_fields [simp]:
  "ReportItems (grown_info h p) = ReportItems (ParserData p)"
  "TotalReportItems (grown_info h p) = TotalReportItems (ParserData p)"
  "TotalDeviceReports (grown_info h p) = TotalDeviceReports (ParserData p)"
  "UsingReportIDs (grown_info h p) = UsingReportIDs (ParserData p)"
  "CollectionPaths (grown_info h p) = CollectionPaths (ParserData p)"
  by (simp_all add: grown_info_def)

lemma grown_sizes:
  assumes "parser_wf p"
  shows "rs_ReportID (ReportIDSizes (grown_info h p) ! k) = rs_ReportID (ReportIDSizes (ParserData p) ! k)"
    and "k \<noteq> CurrReportIDInfo p \<or> t \<noteq> item_type_of h \<Longrightarrow>
      rs_ReportSizeBits (ReportIDSizes (grown_info h p) ! k) ! t = rs_ReportSizeBits (ReportIDSizes (ParserData p) ! k) ! t"
    and "rs_ReportSizeBits (ReportIDSizes (grown_info h p) ! CurrReportIDInfo p) ! item_type_of h = grown_bits h p"
  using parser_wfD(4) [OF assms] size_bits_length [OF assms] item_type_of_less [of h]
  by (auto simp: grown_info_def nth_list_update)

lemma grown_bits_mono:
  assumes "layout_inv env (item_width p + B) p"
  shows "report_bits (ParserData p) k t \<le> report_bits (grown_info h p) k t"
    and "report_bits (grown_info h p) k t \<le> report_bits (ParserData p) k t + item_width p"
  using grown_sizes(2,3) [OF layout_invD(1) [OF assms]] unat_grown_bits [OF assms]
  by (cases "k = CurrReportIDInfo p \<and> t = item_type_of h"; force)+

lemma grown_layout_ok:
  assumes inv: "layout_inv env (item_width p + B) p"
  shows "layout_ok env (grown_info h p)"
proof -
  note D = layout_invD [OF inv]
  note L = D(3) [unfolded layout_ok_def]
  have "\<exists>k<TotalDeviceReports (ParserData p).
      rs_ReportID (ReportIDSizes (grown_info h p) ! k) = ri_ReportID (ReportItems (ParserData p) ! i) \<and>
      item_end (ReportItems (ParserData p) ! i) \<le>
        report_bits (grown_info h p) k (ri_ItemType (ReportItems (ParserData p) ! i))"
    if "i < TotalReportItems (ParserData p)" "owned (ParserData p) (ReportItems (ParserData p) ! i)" for i
  proof -
    from L that obtain k where "k < TotalDeviceReports (ParserData p)"
        "rs_ReportID (ReportIDSizes (ParserData p) ! k) = ri_ReportID (ReportItems (ParserData p) ! i)"
        "item_end (ReportItems (ParserData p) ! i) \<le>
           report_bits (ParserData p) k (ri_ItemType (ReportItems (ParserData p) ! i))"
      by blast
    then show ?thesis
      using grown_sizes(1) [OF D(1)] le_trans [OF _ grown_bits_mono(1) [OF inv]]
      by (intro exI [of _ k]) simp
  qed
  moreover have "owned (grown_info h p) = owned (ParserData p)"
    by (simp add: owned_def fun_eq_iff)
  ultimately show ?thesis
    using L grown_sizes(1) [OF D(1)] by (simp add: layout_ok_def)
qed

lemma made_item_fields [simp]:
  "ri_ReportID (made_item env h v p u) = st_ReportID (curr_state p)"
  "ri_ItemType (made_item env h v p u) = item_type_of h"
  "ri_ItemFlags (made_item env h v p u) = ucast v"
  "ri_BitOffset (made_item env h v p u) = rs_ReportSizeBits (curr_info p) ! item_type_of h"
  "at_BitSize (ri_Attributes (made_item env h v p u)) = at_BitSize (st_Attributes (curr_state p))"
  by (simp_all add: made_item_def Let_def split: option.splits)

text \<open>The new item starts where the items before it in its report end.\<close>

lemma made_item_end:
  assumes "layout_inv env (item_width p + B) p"
  shows "item_end (made_item env h v p u) = unat (grown_bits h p)"
  using unat_grown_bits [OF assms] by (simp add: item_end_def)

lemma made_item_after:
  assumes inv: "layout_inv env (item_width p + B) p"
    and j: "j < TotalReportItems (ParserData p)" and own: "owned (ParserData p) (made_item env h v p u)"
    and same: "ri_ReportID (ReportItems (ParserData p) ! j) = st_ReportID (curr_state p)"
      "ri_ItemType (ReportItems (ParserData p) ! j) = item_type_of h"
  shows "item_end (ReportItems (ParserData p) ! j) \<le> unat (ri_BitOffset (made_item env h v p u))"
proof -
  note D = layout_invD [OF inv]
  have "owned (ParserData p) (ReportItems (ParserData p) ! j)"
    using own same(1) by (simp add: owned_def)
  then obtain k where k: "k < TotalDeviceReports (ParserData p)"
      "rs_ReportID (ReportIDSizes (ParserData p) ! k) = st_ReportID (curr_state p)"
      "item_end (ReportItems (ParserData p) ! j) \<le> report_bits (ParserData p) k (item_type_of h)"
    using D(3) j same by (auto simp: layout_ok_def)
  have "k = CurrReportIDInfo p"
    using D(3,5) k(1,2) parser_wfD(5) [OF D(1)]
    unfolding layout_ok_def by (metis linorder_neqE_nat)
  with k(3) show ?thesis by simp
qed

text \<open>Appending an item to a sound layout.\<close>

lemma layout_ok_append:
  assumes ok: "layout_ok env pd" and len: "TotalReportItems pd < length (ReportItems pd)"
    and kept: "ri_ItemFlags it AND 1 = 0" "env_filter env it"
    and slot: "owned pd it \<Longrightarrow> k < TotalDeviceReports pd \<and> rs_ReportID (ReportIDSizes pd ! k) = ri_ReportID it \<and>
        item_end it \<le> report_bits pd k (ri_ItemType it)"
    and after: "\<And>j. j < TotalReportItems pd \<Longrightarrow> owned pd it \<Longrightarrow>
        ri_ReportID (ReportItems pd ! j) = ri_ReportID it \<Longrightarrow> ri_ItemType (ReportItems pd ! j) = ri_ItemType it \<Longrightarrow>
        item_end (ReportItems pd ! j) \<le> unat (ri_BitOffset it)"
  shows "layout_ok env (pd\<lparr>ReportItems := (ReportItems pd)[TotalReportItems pd := it],
           TotalReportItems := TotalReportItems pd + 1\<rparr>)"
proof -
  let ?items = "(ReportItems pd)[TotalReportItems pd := it]"
  let ?pd = "pd\<lparr>ReportItems := ?items, TotalReportItems := TotalReportItems pd + 1\<rparr>"
  have old: "?items ! i = ReportItems pd ! i" if "i < TotalReportItems pd" for i
    using that by simp
  have new: "?items ! TotalReportItems pd = it"
    using len by simp
  have own: "owned ?pd = owned pd"
    by (simp add: owned_def fun_eq_iff)
  note L = ok [unfolded layout_ok_def]
  have ex: "owned pd (?items ! i) \<longrightarrow> (\<exists>k < TotalDeviceReports pd.
           rs_ReportID (ReportIDSizes pd ! k) = ri_ReportID (?items ! i) \<and>
           item_end (?items ! i) \<le> report_bits pd k (ri_ItemType (?items ! i)))"
    if "i < Suc (TotalReportItems pd)" for i
    using L slot old [of i] new that by (cases "i = TotalReportItems pd") auto
  have pair: "owned pd (?items ! i) \<longrightarrow> ri_ReportID (?items ! j) = ri_ReportID (?items ! i) \<longrightarrow>
        ri_ItemType (?items ! j) = ri_ItemType (?items ! i) \<longrightarrow>
        item_end (?items ! j) \<le> unat (ri_BitOffset (?items ! i))"
    if "i < Suc (TotalReportItems pd)" "j < i" for i j
    using L after [of j] old [of i] old [of j] new that by (cases "i = TotalReportItems pd") auto
  have "ri_ItemFlags (?items ! i) AND 1 = 0 \<and> env_filter env (?items ! i)"
    if "i < Suc (TotalReportItems pd)" for i
    using L kept old [of i] new that by (cases "i = TotalReportItems pd") auto
  then show ?thesis
    unfolding layout_ok_def own using L ex pair by simp
qed

lemma layout_ok_scratch_item:
  assumes "layout_ok env pd"
  shows "layout_ok env (pd\<lparr>ReportItems := (ReportItems pd)[TotalReportItems pd := it]\<rparr>)"
  using assms by (simp add: layout_ok_def owned_def)

lemma stored_layout_ok:
  assumes inv: "layout_inv env (item_width p + B) p"
    and room: "TotalReportItems (ParserData p) \<noteq> HID_MAX_REPORTITEMS"
  shows "layout_ok env (stored_info env h v p u)"
proof (cases "v AND 1 = 0 \<and> env_filter env (made_item env h v p u)")
  case True
  let ?it = "made_item env h v p u" and ?pd = "grown_info h p"
  note D = layout_invD [OF inv]
  have flag: "ri_ItemFlags ?it AND 1 = 0"
    using True by (simp add: bit_eq_iff bit_simps)
  have own: "owned ?pd ?it = owned (ParserData p) ?it"
    by (simp add: owned_def)
  have "layout_ok env (?pd\<lparr>ReportItems := (ReportItems ?pd)[TotalReportItems ?pd := ?it],
           TotalReportItems := TotalReportItems ?pd + 1\<rparr>)"
  proof (rule layout_ok_append [OF grown_layout_ok [OF inv] _ flag, where k = "CurrReportIDInfo p"])
    show "TotalReportItems ?pd < length (ReportItems ?pd)"
      using room parser_wfD(9,10) [OF D(1)] by simp
    show "CurrReportIDInfo p < TotalDeviceReports ?pd \<and>
        rs_ReportID (ReportIDSizes ?pd ! CurrReportIDInfo p) = ri_ReportID ?it \<and>
        item_end ?it \<le> report_bits ?pd (CurrReportIDInfo p) (ri_ItemType ?it)"
      using made_item_end [OF inv] grown_sizes [OF D(1)] D(5) parser_wfD(5) [OF D(1)] by simp
  qed (use True made_item_after [OF inv] own in auto)
  then show ?thesis
    using True by (simp add: stored_info_def Let_def)
next
  case False
  then show ?thesis
    using layout_ok_scratch_item [OF grown_layout_ok [OF inv]] by (auto simp: stored_info_def Let_def)
qed

lemma stored_fields:
  "TotalDeviceReports (stored_info env h v p u) = TotalDeviceReports (ParserData p)"
  "UsingReportIDs (stored_info env h v p u) = UsingReportIDs (ParserData p)"
  "ReportIDSizes (stored_info env h v p u) = ReportIDSizes (grown_info h p)"
  by (simp_all add: stored_info_def Let_def)

lemma stored_report_ids:
  assumes "\<forall>i < TotalReportItems (ParserData p). ri_ReportID (ReportItems (ParserData p) ! i) = 0"
    and "st_ReportID (curr_state p) = 0" "TotalReportItems (ParserData p) < length (ReportItems (ParserData p))"
  shows "\<forall>i < TotalReportItems (stored_info env h v p u). ri_ReportID (ReportItems (stored_info env h v p u) ! i) = 0"
  using assms by (auto simp: stored_info_def Let_def less_Suc_eq nth_list_update)

lemma main_one_laid:
  assumes inv: "layout_inv env (item_width p + B) p" and pend: "UsageListSize p < HID_USAGE_STACK_DEPTH"
  shows "laid env B (main_one env h v p)" "keeps (\<lambda>q. curr_state q = curr_state p) (main_one env h v p)"
proof -
  note D = layout_invD [OF inv]
  obtain u q where q: "next_usage p = Some (u, q)" "parser_wf q"
      "ParserData q = ParserData p" "StateTable q = StateTable p" "CurrStateTable q = CurrStateTable p"
      "CurrReportIDInfo q = CurrReportIDInfo p"
    using next_usage_safe [OF D(1) pend] by blast
  note one = main_one_eq [OF D(1) q(1,3,6), of env h v]
  show "keeps (\<lambda>q. curr_state q = curr_state p) (main_one env h v p)"
    using q(4,5) by (simp add: one)
  show "laid env B (main_one env h v p)"
  proof (cases "TotalReportItems (ParserData p) = HID_MAX_REPORTITEMS")
    case True
    then show ?thesis using grown_layout_ok [OF inv] by (simp add: one)
  next
    case False
    let ?q = "q\<lparr>ParserData := stored_info env h v p u\<rparr>"
    have wf: "parser_wf ?q"
      using main_one_safe [OF D(1) pend, of env h v] False by (simp add: one)
    have room: "TotalReportItems (ParserData p) < length (ReportItems (ParserData p))"
      using False parser_wfD(9,10) [OF D(1)] by simp
    have "report_bits (ParserData ?q) k t + B < 2 ^ 16" if "k < HID_MAX_REPORT_IDS" "t < 3" for k t
      using le_less_trans [OF _ D(4) [OF that], of "report_bits (ParserData ?q) k t + B"]
        grown_bits_mono(2) [OF inv, of h k t] by (simp add: stored_fields)
    moreover have "rs_ReportID (curr_info ?q) = st_ReportID (curr_state ?q)"
      using D(5) grown_sizes(1) [OF D(1)] q(4-6) by (simp add: stored_fields)
    ultimately have "layout_inv env B ?q"
      using wf stored_layout_ok [OF inv False] D(2,6) q(4-6) stored_report_ids [OF _ _ room]
      unfolding layout_inv_def by (auto simp: stored_fields)
    with False show ?thesis by (simp add: one)
  qed
qed

lemma main_loop_laid:
  assumes "layout_inv env (n * item_width p + B) p" "UsageListSize p < HID_USAGE_STACK_DEPTH"
  shows "laid env B (main_loop env h v n p) \<and> keeps (\<lambda>q. curr_state q = curr_state p) (main_loop env h v n p)"
  using assms
proof (induction n arbitrary: p)
  case (Suc n)
  have inv: "layout_inv env (item_width p + (n * item_width p + B)) p"
    using Suc.prems(1) by (simp add: add.assoc)
  note one = main_one_laid [OF inv Suc.prems(2), of h v]
  have safe: "safe (\<lambda>q. UsageListSize q < HID_USAGE_STACK_DEPTH) (main_one env h v p)"
    using layout_invD(1) [OF inv] Suc.prems(2) by (rule main_one_safe)
  show ?case
  proof (cases "main_one env h v p")
    case None
    with safe show ?thesis by (simp add: safe_def)
  next
    case (Some r)
    then show ?thesis
    proof (cases r)
      case (Return c q)
      with Some one show ?thesis by simp
    next
      case (Next q)
      have "layout_inv env (n * item_width q + B) q" "UsageListSize q < HID_USAGE_STACK_DEPTH"
        using Some Next one safe by auto
      from Suc.IH [OF this] Some Next one show ?thesis by simp
    qed
  qed
qed simp

subsection \<open>Whole descriptors\<close>

abbreviation bits_to_come :: "hid_parser \<Rightarrow> hid_item list \<Rightarrow> nat" where
  "bits_to_come p its \<equiv>
     total_bits (at_BitSize (st_Attributes (curr_state p))) (st_ReportCount (curr_state p)) its"

text \<open>
  A step leaves the size and the count of the current state alone, apart from the two items that
  set them.
\<close>

definition same_counts :: "hid_item \<Rightarrow> hid_parser \<Rightarrow> hid_parser \<Rightarrow> bool" where
  "same_counts it p q \<longleftrightarrow>
     at_BitSize (st_Attributes (curr_state q)) =
       (if hi_tag it = 0x74 then ucast (item_value it) else at_BitSize (st_Attributes (curr_state p))) \<and>
     st_ReportCount (curr_state q) =
       (if hi_tag it = 0x94 then ucast (item_value it) else st_ReportCount (curr_state p))"

lemma keeps_mono: "keeps P m \<Longrightarrow> (\<And>q. P q \<Longrightarrow> Q q) \<Longrightarrow> keeps Q m"
  by (auto simp: keeps_def)

lemma keeps_bind:
  assumes "\<And>x. m = Some x \<Longrightarrow> keeps P (f x)"
  shows "keeps P (Option.bind m f)"
  using assms by (cases m) auto

lemma set_report_id_state: "keeps (\<lambda>q. StateTable q = StateTable p \<and> CurrStateTable q = CurrStateTable p) (set_report_id rid p)"
  by (auto simp: set_report_id_def keeps_def bind_Some_conv Let_def)

lemma item_report_id_counts:
  assumes "parser_wf p"
  shows "keeps (\<lambda>q. at_BitSize (st_Attributes (curr_state q)) = at_BitSize (st_Attributes (curr_state p)) \<and>
           st_ReportCount (curr_state q) = st_ReportCount (curr_state p)) (item_report_id v p)"
  using parser_wfD(3) [OF assms] keeps_mono [OF set_report_id_state]
  by (auto simp: item_report_id_def upd_state_eq [OF assms] Let_def intro!: keeps_bind split: option.split)

lemma curr_state_keeps:
  "keeps (\<lambda>q. curr_state q = curr_state p) (item_usage v p)"
  "keeps (\<lambda>q. curr_state q = curr_state p) (fill_path i v p)"
  "keeps (\<lambda>q. curr_state q = curr_state p) (item_end_collection p)"
  by (auto simp: item_usage_def fill_path_def item_end_collection_def keeps_def bind_Some_conv Let_def
      split: option.splits dest!: next_usage_same)

lemma item_collection_state: "keeps (\<lambda>q. curr_state q = curr_state p) (item_collection v p)"
proof (cases "CurrCollectionPath p")
  case None
  then show ?thesis by (simp add: item_collection_def curr_state_keeps)
next
  case (Some parent)
  have "keeps (\<lambda>q. curr_state q = curr_state p) (fill_path i v (p\<lparr>ParserData := pd\<rparr>))" for i pd
    using curr_state_keeps(2) [of "p\<lparr>ParserData := pd\<rparr>" i v] by simp
  then show ?thesis
    using Some by (auto simp: item_collection_def intro!: keeps_bind split: option.splits)
qed

lemma layout_inv_less:
  assumes "layout_inv env C p" "B \<le> C"
  shows "layout_inv env B p"
proof -
  have "report_bits (ParserData p) k t + B < 2 ^ 16" if "k < HID_MAX_REPORT_IDS" "t < 3" for k t
    using layout_invD(4) [OF assms(1) that] assms(2) by simp
  then show ?thesis
    using assms(1) unfolding layout_inv_def by meson
qed

lemma upd_state_laid:
  assumes "layout_inv env B p" "\<And>s. st_ReportID (f s) = st_ReportID s"
  shows "laid env B (do { p \<leftarrow> upd_state f p; Some (Next p) })"
proof -
  have wf: "parser_wf p"
    using layout_invD(1) [OF assms(1)] .
  have "same_layout p (p\<lparr>StateTable := (StateTable p)[CurrStateTable p := f (curr_state p)]\<rparr>)"
    using parser_wfD(3) [OF wf] assms(2) by (simp add: same_layout_def)
  then show ?thesis
    using same_layout_inv [OF _ assms(1)] upd_state_wf [OF wf] by (simp add: upd_state_eq [OF wf])
qed

lemma range_laid:
  assumes "layout_inv env B p"
  shows "layout_inv env B (p\<lparr>UsageMinMax := m\<rparr>)"
  using assms by (intro same_layout_inv [OF _ assms]) (auto simp: same_layout_def layout_inv_def parser_wf_def)

definition main_cost :: "hid_item \<Rightarrow> hid_parser \<Rightarrow> nat" where
  "main_cost it p =
     (if hi_tag it \<in> {0x80, 0x90, 0xB0} then unat (st_ReportCount (curr_state p)) * item_width p else 0)"

lemma item_main_laid:
  assumes "layout_inv env (main_cost it p + B) p" "hi_tag it \<in> {0x80, 0x90, 0xB0}"
    and "UsageListSize p < HID_USAGE_STACK_DEPTH"
  shows "laid env B (item_main env h v p) \<and> keeps (\<lambda>q. curr_state q = curr_state p) (item_main env h v p)"
proof -
  have "layout_inv env (unat (st_ReportCount (curr_state p)) * item_width p + B) p"
    using assms(1,2) by (auto simp: main_cost_def)
  from main_loop_laid [OF this assms(3), of h v] show ?thesis
    using parser_wfD(3) [OF layout_invD(1) [OF assms(1)]] by (simp add: item_main_def mem_simps)
qed

lemma item_switch_laid:
  assumes ok: "item_ok it" and push: "hi_tag it \<noteq> 0xA4"
    and inv: "layout_inv env (main_cost it p + B) p"
    and pend: "hi_tag it AND 0x0C = 0 \<Longrightarrow> UsageListSize p < HID_USAGE_STACK_DEPTH"
  shows "laid env B (item_switch env (item_header it) v p)"
proof -
  have inv': "layout_inv env B p"
    using layout_inv_less [OF inv] by simp
  note D = layout_invD [OF inv']
  have attr: "laid env B (upd_attr f p)" for f
    using keeps_laid [OF upd_attr_keeps [OF D(1)] inv' upd_attr_safe [OF D(1)]] .
  have pop: "laid env B (item_pop p)"
    using D(2,3) by (simp add: item_pop_def)
  have usage: "laid env B (item_usage v p)"
    using keeps_laid [OF item_usage_keeps inv' item_usage_safe [OF D(1)]] .
  have coll: "laid env B (item_collection v p)" "laid env B (item_end_collection p)"
    if "hi_tag it AND 0x0C = 0"
    using keeps_laid [OF item_collection_keeps inv' item_collection_safe [OF D(1) pend [OF that]]]
      keeps_laid [OF item_end_collection_keeps inv' item_end_collection_safe [OF D(1)]] .
  have main: "laid env B (item_main env h v p)" if "hi_tag it \<in> {0x80, 0x90, 0xB0}" for h
    using item_main_laid [OF inv that] pend that by auto
  have count: "laid env B (do { p \<leftarrow> upd_state (\<lambda>s. s\<lparr>st_ReportCount := c\<rparr>) p; Some (Next p) })" for c
    using upd_state_laid [OF inv'] by simp
  show ?thesis
    unfolding item_switch_def Let_def header_bits(2) [OF ok]
    using push attr pop usage coll main count item_report_id_laid [OF inv'] range_laid [OF inv'] inv'
    by (simp add: item_usage_page_def)
qed

lemma item_switch_counts:
  assumes ok: "item_ok it" and push: "hi_tag it \<noteq> 0xA4"
    and inv: "layout_inv env (main_cost it p + B) p"
    and pend: "hi_tag it AND 0x0C = 0 \<Longrightarrow> UsageListSize p < HID_USAGE_STACK_DEPTH"
  shows "keeps (same_counts it p) (item_switch env (item_header it) (item_value it) p)"
proof -
  let ?v = "item_value it"
  note D = layout_invD [OF inv]
  have top: "CurrStateTable p < length (StateTable p)"
    using parser_wfD(3) [OF D(1)] .
  have attr: "keeps (same_counts it p) (upd_attr f p)"
    if "hi_tag it \<noteq> 0x94" "\<And>a. at_BitSize (f a) = (if hi_tag it = 0x74 then ucast ?v else at_BitSize a)" for f
    using top that by (simp add: upd_attr_def upd_state_eq [OF D(1)] same_counts_def)
  have global: "keeps (same_counts it p) (upd_attr (set_global (hi_tag it) ?v) p)"
    if "hi_tag it \<in> {0x14, 0x24, 0x34, 0x44, 0x54, 0x64, 0x74}"
    using that by (intro attr) (auto simp: set_global_def)
  have page: "keeps (same_counts it p) (item_usage_page h ?v p)" if "hi_tag it = 0x04" for h
    unfolding item_usage_page_def using that by (intro attr) (simp_all add: set_page_def Let_def)
  have pop: "keeps (same_counts it p) (item_pop p)" if "hi_tag it = 0xB4"
    using that D(2) by (simp add: item_pop_def same_counts_def)
  have rest: "keeps (same_counts it p) m"
    if "keeps (\<lambda>q. curr_state q = curr_state p) m" "hi_tag it \<noteq> 0x74" "hi_tag it \<noteq> 0x94" for m
    using keeps_mono [OF that(1)] that(2,3) by (simp add: same_counts_def)
  have rid: "keeps (same_counts it p) (item_report_id ?v p)" if "hi_tag it = 0x84"
    using keeps_mono [OF item_report_id_counts [OF D(1)]] that by (simp add: same_counts_def)
  have main: "keeps (\<lambda>q. curr_state q = curr_state p) (item_main env h ?v p)"
    if "hi_tag it \<in> {0x80, 0x90, 0xB0}" for h
    using item_main_laid [OF inv that] pend that by auto
  show ?thesis
    unfolding item_switch_def Let_def header_bits(2) [OF ok]
    using push global page pop rid rest [OF main] rest [OF curr_state_keeps(1)] rest [OF curr_state_keeps(3)]
      rest [OF item_collection_state] top
    by (simp add: upd_state_eq [OF D(1)] same_counts_def)
qed

lemma clear_locals_laid:
  assumes "layout_inv env B p"
  shows "layout_inv env B (clear_locals h p)"
  using clear_locals_wf [OF layout_invD(1) [OF assms], of h]
  by (intro same_layout_inv [OF _ assms]) (auto simp: clear_locals_def same_layout_def)

lemma run_items_laid:
  assumes "list_all item_ok its" "list_all (\<lambda>it. hi_tag it \<noteq> 0xA4) its"
    and "layout_inv env (bits_to_come p its) p" "usages_ok (UsageListSize p) its"
  shows "laid env 0 (run_items env its p)"
  using assms
proof (induction its arbitrary: p)
  case (Cons it its)
  let ?h = "item_header it" and ?v = "item_value it"
  have ok: "item_ok it" "hi_tag it \<noteq> 0xA4"
    using Cons.prems by auto
  have pend: "hi_tag it AND 0x0C = 0 \<Longrightarrow> UsageListSize p < HID_USAGE_STACK_DEPTH"
    using Cons.prems(4) by (auto split: if_splits)
  let ?B = "bits_to_come p (it # its) - main_cost it p"
  have cost: "main_cost it p \<le> bits_to_come p (it # its)"
    by (simp add: main_cost_def)
  then have inv: "layout_inv env (main_cost it p + ?B) p"
    using Cons.prems(3) by simp
  have wf: "safe (pending_after it p) (item_switch env ?h ?v p)"
    using item_switch_safe [OF ok layout_invD(1) [OF inv] pend] .
  note laid = item_switch_laid [OF ok inv pend, of ?v] and counts = item_switch_counts [OF ok inv pend]
  show ?case
  proof (cases "item_switch env ?h ?v p")
    case (Some r)
    show ?thesis
    proof (cases r)
      case (Return c q)
      with Some laid show ?thesis by simp
    next
      case (Next q)
      have q: "layout_inv env ?B q" "same_counts it p q" "parser_wf q" "pending_after it p q"
        using Some Next laid counts wf by auto
      have "bits_to_come q its = ?B"
        using q(2) by (auto simp: same_counts_def main_cost_def)
      moreover have "bits_to_come (clear_locals ?h q) its = bits_to_come q its"
        by (simp add: clear_locals_def)
      ultimately have "layout_inv env (bits_to_come (clear_locals ?h q) its) (clear_locals ?h q)"
        using clear_locals_laid [OF q(1), of ?h] by (simp only:)
      moreover have "usages_ok (UsageListSize (clear_locals ?h q)) its"
        using q(3,4) Cons.prems(4) header_bits(3) [OF ok(1)] parser_wfD(12) [OF q(3)]
        by (auto simp: clear_locals_def pending_after_def split: if_splits)
      ultimately have "laid env 0 (run_items env its (clear_locals ?h q))"
        using Cons.prems(1,2) by (intro Cons.IH) auto
      with Some Next show ?thesis by simp
    qed
  qed simp
qed simp

lemma parser_init_laid:
  assumes "length (env_usages env) = HID_USAGE_STACK_DEPTH" "B < 2 ^ 16"
  shows "layout_inv env B (parser_init env)"
proof -
  have "[0, 0, 0] ! t = (0 :: u16)" if "t < 3" for t
    using that by (auto simp: less_Suc_eq numeral_3_eq_3)
  then show ?thesis
    using parser_init_wf [OF assms(1)] assms(2)
    by (simp add: layout_inv_def layout_ok_def parser_init_def zero_info_def zero_size_info_def
        zero_state_def hid_limits)
qed

subsection \<open>Report sizes and item values\<close>

lemma report_size_loop_eq:
  assumes "n \<le> length sizes" "k < n" "rs_ReportID (sizes ! k) = rid" "\<forall>j < k. rs_ReportID (sizes ! j) \<noteq> rid"
    and "\<forall>s \<in> set sizes. t < length (rs_ReportSizeBits s)"
  shows "report_size_loop sizes rid t n =
           Some (let b = rs_ReportSizeBits (sizes ! k) ! t in b div 8 + (if b mod 8 \<noteq> 0 then 1 else 0))"
  using assms
proof (induction sizes arbitrary: k n)
  case (Cons s ss)
  then obtain m where m: "n = Suc m" by (cases n) auto
  show ?case
  proof (cases k)
    case 0
    with Cons.prems m show ?thesis by (simp add: mem_simps Let_def)
  next
    case (Suc k')
    have "rs_ReportID s \<noteq> rid"
      using Cons.prems(4) Suc by auto
    moreover have "report_size_loop ss rid t m =
        Some (let b = rs_ReportSizeBits (ss ! k') ! t in b div 8 + (if b mod 8 \<noteq> 0 then 1 else 0))"
      using Cons.prems m Suc by (intro Cons.IH) auto
    ultimately show ?thesis
      using Cons.prems m Suc by (simp add: mem_simps)
  qed
qed simp

lemma round_up_bytes: "unat b \<le> 8 * unat (b div 8 + (if b mod 8 \<noteq> 0 then 1 else 0))" for b :: u16
proof -
  have "unat (b div 8) = unat b div 8" "unat (b mod 8) = unat b mod 8"
    by (simp_all add: unat_div unat_mod)
  moreover have "unat b < 2 ^ 16"
    using unat_bound [of b] by simp
  moreover have "b mod 8 \<noteq> 0 \<longleftrightarrow> unat b mod 8 \<noteq> 0"
    by (metis calculation(2) unat_eq_0)
  moreover have "unat b = 8 * (unat b div 8) + unat b mod 8" "unat b mod 8 < 8"
    by simp_all
  ultimately show ?thesis
    by (simp add: unat_word_ariths) presburger
qed

text \<open>Bit \<open>n\<close> of a report that starts at \<open>base\<close>.\<close>

definition report_bit :: "bytes \<Rightarrow> nat \<Rightarrow> nat \<Rightarrow> bool" where
  "report_bit d base n = bit (d ! (base + n div 8)) (n mod 8)"

lemma and_one_bit: "b AND push_bit k 1 \<noteq> 0 \<longleftrightarrow> bit b k" for b :: "'a::len word"
  by (simp add: and_exp_eq_0_iff_not_bit)

lemma get_bits_extracts:
  assumes "unat cur + n < 2 ^ 16" "8 * base + unat cur + n \<le> 8 * length d"
  shows "\<exists>w. get_bits d base n cur (push_bit i 1) v = Some w \<and>
           (\<forall>j. bit w j \<longleftrightarrow> bit v j \<or> (i \<le> j \<and> j < i + n \<and> j < 32 \<and> report_bit d base (unat cur + (j - i))))"
  using assms
proof (induction n arbitrary: cur i v)
  case (Suc n)
  let ?v = "if bit (d ! (base + unat cur div 8)) (unat cur mod 8) then v OR push_bit i 1 else v"
  have idx: "base + unat cur div 8 < length d"
    using Suc.prems(2) by linarith
  have cur: "unat (cur + 1) = Suc (unat cur)"
    using Suc.prems(1) by (simp add: unat_word_ariths)
  obtain w where w: "get_bits d base n (cur + 1) (push_bit (Suc i) 1) ?v = Some w"
      "\<And>j. bit w j \<longleftrightarrow> bit ?v j \<or>
         (Suc i \<le> j \<and> j < Suc i + n \<and> j < 32 \<and> report_bit d base (unat (cur + 1) + (j - Suc i)))"
    using Suc.IH [of "cur + 1" "Suc i" ?v] Suc.prems cur by auto
  have "get_bits d base (Suc n) cur (push_bit i 1) v = Some w"
    using w(1) idx by (simp add: rd8_def and_one_bit Let_def del: push_bit_of_1)
  moreover have "bit w j \<longleftrightarrow>
      bit v j \<or> (i \<le> j \<and> j < i + Suc n \<and> j < 32 \<and> report_bit d base (unat cur + (j - i)))" for j
  proof (cases "j = i")
    case True
    then show ?thesis
      using w(2) [of j] bit_imp_le_length [of w j] by (auto simp: report_bit_def bit_simps)
  next
    case False
    then have "unat (cur + 1) + (j - Suc i) = unat cur + (j - i)" if "Suc i \<le> j"
      using that cur by simp
    then show ?thesis
      using False w(2) [of j] by (auto simp: bit_simps)
  qed
  ultimately show ?case by blast
qed auto

lemma set_bits_aligned:
  assumes "unat cur mod 8 = i" "i + n \<le> 8" "unat cur + n \<le> 2 ^ 16" "base + unat cur div 8 < length d"
  shows "\<exists>b. set_bits d base n cur (push_bit i 1) v = Some (d[base + unat cur div 8 := b]) \<and>
           (\<forall>j. bit b j \<longleftrightarrow> bit (d ! (base + unat cur div 8)) j \<or> (i \<le> j \<and> j < i + n \<and> bit v j))"
  using assms
proof (induction n arbitrary: cur i d)
  case 0
  then show ?case by (auto intro: exI [of _ "d ! (base + unat cur div 8)"])
next
  case (Suc n)
  let ?k = "base + unat cur div 8"
  let ?d = "if bit v i then d[?k := d ! ?k OR ucast (push_bit i (1 :: u32))] else d"
  have step: "set_bits d base (Suc n) cur (push_bit i 1) v = set_bits ?d base n (cur + 1) (push_bit (Suc i) 1) v"
    unfolding set_bits.simps Suc.prems(1) and_one_bit
    using Suc.prems(4) by (simp add: rd8_def wr8_def mult.commute [of _ 2] del: set_bits.simps)
  have bit: "bit (?d ! ?k) j \<longleftrightarrow> bit (d ! ?k) j \<or> (j = i \<and> bit v j)" for j
    using Suc.prems by (auto simp: bit_simps)
  show ?case
  proof (cases n)
    case 0
    then have "set_bits ?d base n (cur + 1) (push_bit (Suc i) 1) v = Some (d[?k := ?d ! ?k])"
      using Suc.prems(4) by simp
    with step have eq: "set_bits d base (Suc n) cur (push_bit i 1) v = Some (d[?k := ?d ! ?k])"
      by (simp only:)
    show ?thesis
    proof (intro exI [of _ "?d ! ?k"] conjI allI)
      show "bit (?d ! ?k) j \<longleftrightarrow> bit (d ! ?k) j \<or> (i \<le> j \<and> j < i + Suc n \<and> bit v j)" for j
        unfolding bit using 0 by auto
    qed (rule eq)
  next
    case (Suc m)
    have cur: "unat (cur + 1) = Suc (unat cur)"
      using Suc.prems Suc by (simp add: unat_word_ariths)
    have "unat cur mod 8 < 7"
      using Suc.prems(1,2) Suc by simp
    then have "Suc (unat cur) mod 8 = Suc (unat cur mod 8)" "Suc (unat cur) div 8 = unat cur div 8"
      by presburger+
    with Suc.prems(1) cur have nx: "unat (cur + 1) mod 8 = Suc i" "unat (cur + 1) div 8 = unat cur div 8"
      by simp_all
    have "Suc i + n \<le> 8" "unat (cur + 1) + n \<le> 2 ^ 16" "base + unat (cur + 1) div 8 < length ?d"
      using Suc.prems(2-4) cur nx(2) by simp_all
    from Suc.IH [OF nx(1) this] obtain b where b:
        "set_bits ?d base n (cur + 1) (push_bit (Suc i) 1) v = Some (?d[?k := b])"
        "\<And>j. bit b j \<longleftrightarrow> bit (?d ! ?k) j \<or> (Suc i \<le> j \<and> j < Suc i + n \<and> bit v j)"
      unfolding nx(2) by blast
    have "?d[?k := b] = d[?k := b]"
      by simp
    with b(1) step have "set_bits d base (Suc n) cur (push_bit i 1) v = Some (d[?k := b])"
      by (simp only:)
    moreover have "bit b j \<longleftrightarrow> bit (d ! ?k) j \<or> (i \<le> j \<and> j < i + Suc n \<and> bit v j)" for j
      unfolding b(2) bit by auto
    ultimately show ?thesis
      by blast
  qed
qed

text \<open>An item lies inside the report size the library gives for it.\<close>

lemma layout_report_size:
  assumes ok: "layout_ok env pd" and wf: "info_wf pd" and i: "i < TotalReportItems pd"
    and own: "owned pd (ReportItems pd ! i)"
  shows "\<exists>n. USB_GetHIDReportSize pd (ri_ReportID (ReportItems pd ! i)) (ri_ItemType (ReportItems pd ! i)) = Some n \<and>
           item_end (ReportItems pd ! i) \<le> 8 * unat n"
proof -
  let ?it = "ReportItems pd ! i"
  note L = ok [unfolded layout_ok_def] and W = wf [unfolded info_wf_def]
  obtain k where k: "k < TotalDeviceReports pd" "rs_ReportID (ReportIDSizes pd ! k) = ri_ReportID ?it"
      "item_end ?it \<le> report_bits pd k (ri_ItemType ?it)"
    using L i own by blast
  have type: "ri_ItemType ?it < 3"
    using W i by simp
  let ?b = "rs_ReportSizeBits (ReportIDSizes pd ! k) ! ri_ItemType ?it"
  have fresh: "\<forall>j < k. rs_ReportID (ReportIDSizes pd ! j) \<noteq> ri_ReportID ?it"
    using L k(1) unfolding k(2) [symmetric] by simp
  have "USB_GetHIDReportSize pd (ri_ReportID ?it) (ri_ItemType ?it) =
      Some (let b = ?b in b div 8 + (if b mod 8 \<noteq> 0 then 1 else 0))"
    unfolding USB_GetHIDReportSize_def
    using W k(1) type by (intro report_size_loop_eq [OF _ _ k(2) fresh]) auto
  then show ?thesis
    using le_trans [OF k(3) round_up_bytes] by (simp add: Let_def)
qed

lemma process_laid:
  assumes safe: "safe_descriptor its" and env: "length (env_usages env) = HID_USAGE_STACK_DEPTH"
    and bits: "total_bits 0 0 its < 2 ^ 16"
    and run: "USB_ProcessHIDReport env (descriptor_of its) (of_nat (length (descriptor_of its))) = Some (code, pd)"
  shows "layout_ok env pd \<and> info_wf pd"
proof -
  let ?p = "parser_init env"
  have pre: "list_all item_ok its" "list_all (\<lambda>it. hi_tag it \<noteq> 0xA4) its" "usages_ok (UsageListSize ?p) its"
    "length (descriptor_of its) < 2 ^ 16"
    using safe by (auto simp: safe_descriptor_def parser_init_def)
  have loop: "hid_loop env (descriptor_of its) 0 (of_nat (length (descriptor_of its))) ?p = run_items env its ?p"
    using hid_loop_items [OF pre(1,4), of env "[]"] by simp
  have "bits_to_come ?p its = total_bits 0 0 its"
    by (simp add: parser_init_def zero_state_def zero_attributes_def)
  then have "laid env 0 (run_items env its ?p)"
    using run_items_laid [OF pre(1,2) _ pre(3)] parser_init_laid [OF env bits] by simp
  moreover have "safe (\<lambda>q. True) (run_items env its ?p)"
    using run_items_safe [OF pre(1,2) parser_init_wf [OF env] pre(3)] .
  moreover obtain r where r: "run_items env its ?p = Some r"
    using run unfolding USB_ProcessHIDReport_def loop by (auto simp: bind_Some_conv)
  ultimately have *: "case r of Return c q \<Rightarrow> layout_ok env (ParserData q) \<and> info_wf (ParserData q)
      | Next q \<Rightarrow> layout_ok env (ParserData q) \<and> info_wf (ParserData q)"
    using layout_invD(3) parser_wfD(1) by (cases r) auto
  show ?thesis
    using run * unfolding USB_ProcessHIDReport_def loop r by (cases r) (auto split: if_splits)
qed

lemma mouse_bits: "total_bits 0 0 mouse_items < 2 ^ 16"
  by (simp add: mouse_items_def item_value_def)

lemma mouse_parsed:
  "(case USB_ProcessHIDReport mouse_env (descriptor_of mouse_items) (of_nat (length (descriptor_of mouse_items))) of
      Some (code, pd) \<Rightarrow> code = HID_PARSE_Successful \<and> TotalReportItems pd = 5 \<and> \<not> UsingReportIDs pd | None \<Rightarrow> False)"
  by code_simp

section \<open>Properties\<close>

text \<open>
  C17. The layout the parser computes is sound.  For every descriptor the parser handles and whose
  report bits fit its 16-bit counters, every stored item is a data item the application asked for;
  it lies inside the number of bytes \<^verbatim>\<open>USB_GetHIDReportSize\<close> reports for its report and
  type; and of two items of the same report and type the later one starts at or behind the end of
  the earlier one.  (Items with identifier zero are excepted when the device also uses identifiers.)
\<close>

theorem hid_layout_sound:
  assumes "safe_descriptor its" "length (env_usages env) = HID_USAGE_STACK_DEPTH"
    and "total_bits 0 0 its < 2 ^ 16"
    and "USB_ProcessHIDReport env (descriptor_of its) (of_nat (length (descriptor_of its))) = Some (code, pd)"
    and "i < TotalReportItems pd" "it = ReportItems pd ! i"
  shows "ri_ItemFlags it AND 1 = 0 \<and> env_filter env it \<and>
    (ri_ReportID it \<noteq> 0 \<or> \<not> UsingReportIDs pd \<longrightarrow>
      (\<exists>n. USB_GetHIDReportSize pd (ri_ReportID it) (ri_ItemType it) = Some n \<and>
           unat (ri_BitOffset it) + unat (at_BitSize (ri_Attributes it)) \<le> 8 * unat n) \<and>
      (\<forall>j < i. ri_ReportID (ReportItems pd ! j) = ri_ReportID it \<longrightarrow>
           ri_ItemType (ReportItems pd ! j) = ri_ItemType it \<longrightarrow>
           unat (ri_BitOffset (ReportItems pd ! j)) + unat (at_BitSize (ri_Attributes (ReportItems pd ! j)))
             \<le> unat (ri_BitOffset it)))"
proof -
  have ok: "layout_ok env pd" and wf: "info_wf pd"
    using process_laid [OF assms(1-4)] by auto
  note L = ok [unfolded layout_ok_def owned_def item_end_def] and W = wf [unfolded info_wf_def]
  have "\<exists>n. USB_GetHIDReportSize pd (ri_ReportID it) (ri_ItemType it) = Some n \<and>
           unat (ri_BitOffset it) + unat (at_BitSize (ri_Attributes it)) \<le> 8 * unat n"
    if "ri_ReportID it \<noteq> 0 \<or> \<not> UsingReportIDs pd"
    using layout_report_size [OF ok wf assms(5), folded assms(6)] that by (simp add: owned_def item_end_def)
  then show ?thesis
    using L assms(5) unfolding assms(6) by simp
qed

theorem hid_layout_sound_witness:
  "\<exists>pd n. USB_ProcessHIDReport mouse_env (descriptor_of mouse_items) (of_nat (length (descriptor_of mouse_items))) =
       Some (HID_PARSE_Successful, pd) \<and>
     USB_GetHIDReportSize pd (ri_ReportID (ReportItems pd ! 4)) (ri_ItemType (ReportItems pd ! 4)) = Some n \<and>
     unat (ri_BitOffset (ReportItems pd ! 4)) + unat (at_BitSize (ri_Attributes (ReportItems pd ! 4))) \<le> 8 * unat n"
proof -
  obtain pd where pd: "USB_ProcessHIDReport mouse_env (descriptor_of mouse_items)
      (of_nat (length (descriptor_of mouse_items))) = Some (HID_PARSE_Successful, pd)"
      "TotalReportItems pd = 5" "\<not> UsingReportIDs pd"
    using mouse_parsed by (auto split: option.splits prod.splits)
  then show ?thesis
    using hid_layout_sound [OF mouse_safe _ mouse_bits pd(1), of 4] by (auto simp: mouse_env_def hid_limits)
qed

text \<open>
  C18. Reading an item: when the report is long enough and carries the identifier of the item, the
  new value has exactly the bits of the item's range of the report (at most the low 32), the old
  value becomes the previous value, and nothing outside the report is read; a report with another
  identifier changes nothing.
\<close>

theorem hid_get_item_value:
  assumes "base = (if ri_ReportID item \<noteq> 0 then 1 else 0)"
    and "8 * base + unat (ri_BitOffset item) + unat (at_BitSize (ri_Attributes item)) \<le> 8 * length d"
    and "unat (ri_BitOffset item) + unat (at_BitSize (ri_Attributes item)) < 2 ^ 16"
    and "ri_ReportID item \<noteq> 0 \<Longrightarrow> d \<noteq> []"
  shows "if ri_ReportID item \<noteq> 0 \<and> d ! 0 \<noteq> ri_ReportID item
         then USB_GetHIDReportItemInfo d (Some item) = Some (False, Some item)
         else \<exists>w. USB_GetHIDReportItemInfo d (Some item) =
                   Some (True, Some (item\<lparr>ri_PreviousValue := ri_Value item, ri_Value := w\<rparr>)) \<and>
                (\<forall>j. bit w j \<longleftrightarrow> j < unat (at_BitSize (ri_Attributes item)) \<and> j < 32 \<and>
                   report_bit d base (unat (ri_BitOffset item) + j))"
proof -
  obtain w where w: "get_bits d base (unat (at_BitSize (ri_Attributes item))) (ri_BitOffset item) (push_bit 0 1) 0 = Some w"
      "\<And>j. bit w j \<longleftrightarrow> j < unat (at_BitSize (ri_Attributes item)) \<and> j < 32 \<and>
         report_bit d base (unat (ri_BitOffset item) + j)"
    using get_bits_extracts [OF assms(3,2), of 0 0] by auto
  show ?thesis
    using w assms(1,4) by (auto simp: USB_GetHIDReportItemInfo_def rd8_def Let_def)
qed

definition sample_item :: HID_ReportItem_t where
  "sample_item = zero_item\<lparr>ri_BitOffset := 3, ri_ReportID := 7,
     ri_Attributes := zero_attributes\<lparr>at_BitSize := 5\<rparr>\<rparr>"

theorem hid_get_item_value_witness:
  "\<exists>w. USB_GetHIDReportItemInfo [7, 0xA8] (Some sample_item) =
         Some (True, Some (sample_item\<lparr>ri_PreviousValue := 0, ri_Value := w\<rparr>)) \<and>
       bit w 0 \<and> \<not> bit w 1 \<and> bit w 2 \<and> \<not> bit w 3 \<and> bit w 4 \<and> \<not> bit w 5"
  using hid_get_item_value [of 1 sample_item "[7, 0xA8]"]
  by (auto simp: sample_item_def zero_item_def zero_attributes_def report_bit_def)

text \<open>
  C21. Writing an item that starts at a byte boundary and has at most eight bits, into a cleared
  byte of a report without identifiers, and reading it back gives the low bits of its value.
\<close>

theorem hid_set_get_byte_item:
  assumes "ri_ReportID item = 0" "unat (ri_BitOffset item) mod 8 = 0" "unat (at_BitSize (ri_Attributes item)) \<le> 8"
    and "unat (ri_BitOffset item) div 8 < length d" "d ! (unat (ri_BitOffset item) div 8) = 0"
    and "length d < 2 ^ 13"
  shows "\<exists>d' item' w. USB_SetHIDReportItemInfo d (Some item) = Some (d', Some item') \<and>
           USB_GetHIDReportItemInfo d' (Some item') =
             Some (True, Some (item'\<lparr>ri_PreviousValue := ri_Value item, ri_Value := w\<rparr>)) \<and>
           w = take_bit (unat (at_BitSize (ri_Attributes item))) (ri_Value item)"
proof -
  let ?off = "unat (ri_BitOffset item)" and ?n = "unat (at_BitSize (ri_Attributes item))"
  have "length d < 8192"
    using assms(6) by simp
  then have small: "?off + 8 \<le> 8 * length d" "?off + 8 < 65536"
    using assms(2,4) by presburger+
  obtain b where b: "set_bits d 0 ?n (ri_BitOffset item) (push_bit 0 1) (ri_Value item) = Some (d[?off div 8 := b])"
      "\<And>j. bit b j \<longleftrightarrow> j < ?n \<and> bit (ri_Value item) j"
    using set_bits_aligned [of "ri_BitOffset item" 0 ?n 0 d "ri_Value item"] assms small by auto
  let ?d = "d[?off div 8 := b]" and ?item = "item\<lparr>ri_PreviousValue := ri_Value item\<rparr>"
  have set: "USB_SetHIDReportItemInfo d (Some item) = Some (?d, Some ?item)"
    using b(1) assms(1) by (simp add: USB_SetHIDReportItemInfo_def)
  obtain w where w: "get_bits ?d 0 ?n (ri_BitOffset item) (push_bit 0 1) 0 = Some w"
      "\<And>j. bit w j \<longleftrightarrow> j < ?n \<and> j < 32 \<and> report_bit ?d 0 (?off + j)"
    using get_bits_extracts [of "ri_BitOffset item" ?n 0 ?d 0 0] small assms(3) by auto
  have "report_bit ?d 0 (?off + j) = bit b j" if "j < 8" for j
  proof -
    have "(?off + j) div 8 = ?off div 8" "(?off + j) mod 8 = j"
      using that assms(2) by presburger+
    then show ?thesis using assms(4) by (simp add: report_bit_def)
  qed
  then have "w = take_bit ?n (ri_Value item)"
    using w(2) b(2) assms(3) by (auto simp: bit_eq_iff bit_take_bit_iff)
  then show ?thesis
    using set w(1) assms(1) by (simp add: USB_GetHIDReportItemInfo_def)
qed

theorem hid_set_get_byte_item_witness:
  "\<exists>d' item' w. USB_SetHIDReportItemInfo [0, 0]
       (Some (zero_item\<lparr>ri_BitOffset := 8, ri_Value := 0x1A5, ri_Attributes := zero_attributes\<lparr>at_BitSize := 8\<rparr>\<rparr>)) =
       Some (d', Some item') \<and>
     USB_GetHIDReportItemInfo d' (Some item') = Some (True, Some (item'\<lparr>ri_PreviousValue := 0x1A5, ri_Value := w\<rparr>)) \<and>
     w = 0xA5"
  using hid_set_get_byte_item
    [of "zero_item\<lparr>ri_BitOffset := 8, ri_Value := 0x1A5, ri_Attributes := zero_attributes\<lparr>at_BitSize := 8\<rparr>\<rparr>" "[0, 0]"]
  by (simp add: zero_item_def)

text \<open>
  For any other item the two masks of \<^verbatim>\<open>USB_SetHIDReportItemInfo\<close> are exchanged: the
  high byte of a sixteen-bit item is lost, and a four-bit item in the upper half of a byte is not
  written at all, although both ranges lie inside the report.
\<close>

theorem hid_set_item_loses_bits:
  "(\<exists>item'. USB_SetHIDReportItemInfo [0, 0]
      (Some (zero_item\<lparr>ri_Value := 0x1234, ri_Attributes := zero_attributes\<lparr>at_BitSize := 16\<rparr>\<rparr>)) =
      Some ([0x34, 0x00], Some item')) \<and>
   (\<exists>item'. USB_SetHIDReportItemInfo [0]
      (Some (zero_item\<lparr>ri_BitOffset := 4, ri_Value := 0x0F, ri_Attributes := zero_attributes\<lparr>at_BitSize := 4\<rparr>\<rparr>)) =
      Some ([0x00], Some item'))"
proof (intro conjI exI)
  show "USB_SetHIDReportItemInfo [0, 0]
      (Some (zero_item\<lparr>ri_Value := 0x1234, ri_Attributes := zero_attributes\<lparr>at_BitSize := 16\<rparr>\<rparr>)) =
      Some ([0x34, 0x00], Some (zero_item\<lparr>ri_Value := 0x1234, ri_PreviousValue := 0x1234,
        ri_Attributes := zero_attributes\<lparr>at_BitSize := 16\<rparr>\<rparr>))"
    by code_simp
  show "USB_SetHIDReportItemInfo [0]
      (Some (zero_item\<lparr>ri_BitOffset := 4, ri_Value := 0x0F, ri_Attributes := zero_attributes\<lparr>at_BitSize := 4\<rparr>\<rparr>)) =
      Some ([0x00], Some (zero_item\<lparr>ri_BitOffset := 4, ri_Value := 0x0F, ri_PreviousValue := 0x0F,
        ri_Attributes := zero_attributes\<lparr>at_BitSize := 4\<rparr>\<rparr>))"
    by code_simp
qed

end
