(* ===== verification/Net_Frames.thy ===== *)
theory Net_Frames
  imports Endianness
begin

text \<open>
  The frames of the RNDIS network demo
  (\<^verbatim>\<open>LUFA-120730/Demos/Device/ClassDriver/RNDISEthernet/Lib\<close>): the addresses and constants of
  \<^verbatim>\<open>Ethernet.h\<close>, \<^verbatim>\<open>EthernetProtocols.h\<close> and \<^verbatim>\<open>Config/AppConfig.h\<close>, the packed protocol
  headers, and \<^verbatim>\<open>Ethernet_Checksum16\<close> of \<^verbatim>\<open>Ethernet.c\<close>.

  A header structure is a record.  Its \<open>enc\<close> function is the packed little-endian layout of the
  structure and its \<open>dec\<close> function reads that layout; \<open>get\<close> and \<open>put\<close> are the accesses of the
  code through a pointer into a frame buffer, \<^term>\<open>None\<close> outside the buffer.  Bit fields have
  the width they have in the structure.
\<close>

section \<open>Addresses and constants\<close>

type_synonym MAC_Address_t = bytes
type_synonym IP_Address_t = bytes

definition ServerMACAddress :: MAC_Address_t where
  "ServerMACAddress = [0x00, 0x01, 0x00, 0x01, 0x00, 0x01]"

definition ServerIPAddress :: IP_Address_t where
  "ServerIPAddress = [10, 0, 0, 2]"

definition BroadcastMACAddress :: MAC_Address_t where
  "BroadcastMACAddress = [0xFF, 0xFF, 0xFF, 0xFF, 0xFF, 0xFF]"

definition BroadcastIPAddress :: IP_Address_t where
  "BroadcastIPAddress = [0xFF, 0xFF, 0xFF, 0xFF]"

definition ClientIPAddress :: IP_Address_t where
  "ClientIPAddress = [10, 0, 0, 1]"

definition MAC_COMPARE :: "MAC_Address_t \<Rightarrow> MAC_Address_t \<Rightarrow> bool" where
  "MAC_COMPARE MAC1 MAC2 = (take 6 MAC1 = take 6 MAC2)"

definition IP_COMPARE :: "IP_Address_t \<Rightarrow> IP_Address_t \<Rightarrow> bool" where
  "IP_COMPARE IP1 IP2 = (take 4 IP1 = take 4 IP2)"

definition ETHERNET_FRAME_SIZE_MAX :: nat where
  "ETHERNET_FRAME_SIZE_MAX = 1500"

definition ETHERNET_VER2_MINSIZE :: u16 where
  "ETHERNET_VER2_MINSIZE = 0x0600"

definition NO_RESPONSE :: int where
  "NO_RESPONSE = 0"

definition NO_PROCESS :: int where
  "NO_PROCESS = -1"

definition ETHERTYPE_IPV4 :: u16 where
  "ETHERTYPE_IPV4 = 0x0800"

definition ETHERTYPE_ARP :: u16 where
  "ETHERTYPE_ARP = 0x0806"

definition PROTOCOL_ICMP :: u8 where
  "PROTOCOL_ICMP = 1"

definition PROTOCOL_TCP :: u8 where
  "PROTOCOL_TCP = 6"

definition PROTOCOL_UDP :: u8 where
  "PROTOCOL_UDP = 17"

definition DEFAULT_TTL :: u8 where
  "DEFAULT_TTL = 128"

record Ethernet_Frame_Info_t =
  FrameData :: bytes
  FrameLength :: u16

lemmas net_consts = ServerMACAddress_def ServerIPAddress_def BroadcastMACAddress_def
  BroadcastIPAddress_def ClientIPAddress_def MAC_COMPARE_def IP_COMPARE_def
  ETHERNET_VER2_MINSIZE_def NO_RESPONSE_def NO_PROCESS_def ETHERTYPE_IPV4_def ETHERTYPE_ARP_def
  PROTOCOL_ICMP_def PROTOCOL_TCP_def PROTOCOL_UDP_def DEFAULT_TTL_def

section \<open>Headers\<close>

definition le16 :: "u16 \<Rightarrow> bytes" where
  "le16 w = [byte0 w, byte1 w]"

definition le32 :: "u32 \<Rightarrow> bytes" where
  "le32 w = [byte0 w, byte1 w, byte2 w, byte3 w]"

definition at16 :: "bytes \<Rightarrow> nat \<Rightarrow> u16" where
  "at16 bs i = word16_of (bs ! i) (bs ! (i + 1))"

definition at32 :: "bytes \<Rightarrow> nat \<Rightarrow> u32" where
  "at32 bs i = word32_of (bs ! i) (bs ! (i + 1)) (bs ! (i + 2)) (bs ! (i + 3))"

record Ethernet_Frame_Header_t =
  eth_Destination :: MAC_Address_t
  eth_Source :: MAC_Address_t
  eth_EtherType :: u16

definition sizeof_Ethernet_Frame_Header_t :: nat where
  "sizeof_Ethernet_Frame_Header_t = 14"

definition enc_eth :: "Ethernet_Frame_Header_t \<Rightarrow> bytes" where
  "enc_eth h = eth_Destination h @ eth_Source h @ le16 (eth_EtherType h)"

definition dec_eth :: "bytes \<Rightarrow> Ethernet_Frame_Header_t" where
  "dec_eth bs = \<lparr>eth_Destination = take 6 bs, eth_Source = take 6 (drop 6 bs),
     eth_EtherType = at16 bs 12\<rparr>"

record IP_Header_t =
  ip_HeaderLength :: "4 word"
  ip_Version :: "4 word"
  ip_TypeOfService :: u8
  ip_TotalLength :: u16
  ip_Identification :: u16
  ip_FragmentOffset :: "13 word"
  ip_Flags :: "3 word"
  ip_TTL :: u8
  ip_Protocol :: u8
  ip_HeaderChecksum :: u16
  ip_SourceAddress :: IP_Address_t
  ip_DestinationAddress :: IP_Address_t

definition sizeof_IP_Header_t :: nat where
  "sizeof_IP_Header_t = 20"

definition enc_ip :: "IP_Header_t \<Rightarrow> bytes" where
  "enc_ip h =
     [ucast (ip_HeaderLength h) OR push_bit 4 (ucast (ip_Version h)), ip_TypeOfService h] @
     le16 (ip_TotalLength h) @ le16 (ip_Identification h) @
     le16 (ucast (ip_FragmentOffset h) OR push_bit 13 (ucast (ip_Flags h))) @
     [ip_TTL h, ip_Protocol h] @ le16 (ip_HeaderChecksum h) @
     ip_SourceAddress h @ ip_DestinationAddress h"

definition dec_ip :: "bytes \<Rightarrow> IP_Header_t" where
  "dec_ip bs = \<lparr>ip_HeaderLength = ucast (bs ! 0), ip_Version = ucast (drop_bit 4 (bs ! 0)),
     ip_TypeOfService = bs ! 1, ip_TotalLength = at16 bs 2, ip_Identification = at16 bs 4,
     ip_FragmentOffset = ucast (at16 bs 6), ip_Flags = ucast (drop_bit 13 (at16 bs 6)),
     ip_TTL = bs ! 8, ip_Protocol = bs ! 9, ip_HeaderChecksum = at16 bs 10,
     ip_SourceAddress = take 4 (drop 12 bs), ip_DestinationAddress = take 4 (drop 16 bs)\<rparr>"

definition get_eth :: "bytes \<Rightarrow> nat \<Rightarrow> Ethernet_Frame_Header_t option" where
  "get_eth m i = map_option dec_eth (rdn m i sizeof_Ethernet_Frame_Header_t)"

definition put_eth :: "bytes \<Rightarrow> nat \<Rightarrow> Ethernet_Frame_Header_t \<Rightarrow> bytes option" where
  "put_eth m i h = wrn m i (enc_eth h)"

definition get_ip :: "bytes \<Rightarrow> nat \<Rightarrow> IP_Header_t option" where
  "get_ip m i = map_option dec_ip (rdn m i sizeof_IP_Header_t)"

definition put_ip :: "bytes \<Rightarrow> nat \<Rightarrow> IP_Header_t \<Rightarrow> bytes option" where
  "put_ip m i h = wrn m i (enc_ip h)"

section \<open>The checksum\<close>

text \<open>The loop over the words, and the loop that folds the carries back in.\<close>

fun checksum_words :: "bytes \<Rightarrow> nat \<Rightarrow> nat \<Rightarrow> u32 \<Rightarrow> u32 option" where
  "checksum_words m p 0 Checksum = Some Checksum"
| "checksum_words m p (Suc n) Checksum = do {
     w \<leftarrow> rd16 m p;
     checksum_words m (p + 2) n (Checksum + ucast w)
   }"

lemma fold_step_unat:
  "unat ((c AND 0xFFFF) + drop_bit 16 c) = unat c mod 65536 + unat c div 65536" for c :: u32
proof -
  have a: "unat (c AND 0xFFFF) = unat c mod 65536"
  proof -
    have "(0xFFFF :: u32) = mask 16"
      by (simp add: mask_eq_exp_minus_1)
    then show ?thesis
      by (simp only: take_bit_eq_mask [symmetric] unsigned_take_bit_eq)
        (simp add: take_bit_eq_mod)
  qed
  have b: "unat (drop_bit 16 c) = unat c div 65536"
    by (simp only: unat_drop_bit_eq) (simp add: drop_bit_eq_div)
  have "unat c mod 65536 + unat c div 65536 < 2 ^ 32"
    using unat_bound [of c] by (simp add: less_mult_imp_div_less)
  with a b show ?thesis
    by (simp add: unat_word_ariths)
qed

lemma fold_test: "c AND 0xFFFF0000 = 0 \<longleftrightarrow> unat c < 65536" for c :: u32
proof -
  have "(0xFFFF0000 :: u32) = push_bit 16 (mask 16)"
    by (simp add: mask_eq_exp_minus_1 push_bit_eq_mult)
  then have "c AND 0xFFFF0000 = 0 \<longleftrightarrow> (\<forall>n. 16 \<le> n \<and> n < 32 \<longrightarrow> \<not> bit c n)"
    by (simp only: bit_eq_iff) (auto simp: bit_simps)
  also have "\<dots> \<longleftrightarrow> (\<forall>n. \<not> bit c (16 + n))"
    using bit_imp_le_length [of c] by (auto simp: le_iff_add)
  also have "\<dots> \<longleftrightarrow> drop_bit 16 c = 0"
  proof -
    have "n < 32" if "bit c (16 + n)" for n
      using bit_imp_le_length [OF that] by simp
    then show ?thesis
      by (simp add: bit_eq_iff bit_simps) blast
  qed
  also have "\<dots> \<longleftrightarrow> unat c div 65536 = 0"
    by (simp only: unat_eq_zero [symmetric] unat_drop_bit_eq) (simp add: drop_bit_eq_div)
  finally show ?thesis
    by (simp add: div_eq_0_iff)
qed

function fold_carry :: "u32 \<Rightarrow> u32" where
  "fold_carry Checksum =
     (if Checksum AND 0xFFFF0000 \<noteq> 0
      then fold_carry ((Checksum AND 0xFFFF) + drop_bit 16 Checksum) else Checksum)"
  by auto

termination fold_carry
proof (relation "measure unat")
  fix c :: u32
  assume "c AND 0xFFFF0000 \<noteq> 0"
  then have "65536 \<le> unat c"
    by (simp add: fold_test not_less)
  then have "0 < unat c div 65536"
    by (simp add: div_greater_zero_iff)
  then have "unat c mod 65536 + unat c div 65536 < unat c"
    using div_mult_mod_eq [of "unat c" 65536] by linarith
  then show "((c AND 0xFFFF) + drop_bit 16 c, c) \<in> measure unat"
    by (simp only: in_measure fold_step_unat)
qed simp

declare fold_carry.simps [simp del]

definition Ethernet_Checksum16 :: "bytes \<Rightarrow> nat \<Rightarrow> u16 \<Rightarrow> u16 option" where
  "Ethernet_Checksum16 m Data Bytes = do {
     Checksum \<leftarrow> checksum_words m Data (unat (drop_bit 1 Bytes)) 0;
     Some (ucast (NOT (fold_carry Checksum)))
   }"


text \<open>
  The header both \<^verbatim>\<open>IP_ProcessIPPacket\<close> and \<^verbatim>\<open>TCP_TCPTask\<close> put before a given payload size,
  with the checksum (offset 10) computed over it.
\<close>

definition IP_reply_header :: "u16 \<Rightarrow> u8 \<Rightarrow> IP_Address_t \<Rightarrow> IP_Address_t \<Rightarrow> IP_Header_t" where
  "IP_reply_header payload protocol source destination =
     \<lparr>ip_HeaderLength = 5, ip_Version = 4, ip_TypeOfService = 0,
      ip_TotalLength = SwapEndian_16 False (of_nat sizeof_IP_Header_t + payload),
      ip_Identification = 0, ip_FragmentOffset = 0, ip_Flags = 0,
      ip_TTL = DEFAULT_TTL, ip_Protocol = protocol, ip_HeaderChecksum = 0,
      ip_SourceAddress = source, ip_DestinationAddress = destination\<rparr>"

definition IP_write_header ::
    "bytes \<Rightarrow> nat \<Rightarrow> u16 \<Rightarrow> u8 \<Rightarrow> IP_Address_t \<Rightarrow> IP_Address_t \<Rightarrow> bytes option" where
  "IP_write_header out OutDataStart payload protocol source destination = do {
     out \<leftarrow> put_ip out OutDataStart (IP_reply_header payload protocol source destination);
     HeaderChecksum \<leftarrow> Ethernet_Checksum16 out OutDataStart (of_nat sizeof_IP_Header_t);
     wr16 out (OutDataStart + 10) HeaderChecksum
   }"

section \<open>What the checksum is\<close>

text \<open>The sum of the 16-bit words of a region, and the one's complement sum it folds to.\<close>

fun word_sum :: "bytes \<Rightarrow> nat" where
  "word_sum (a # b # bs) = unat (word16_of a b) + word_sum bs"
| "word_sum bs = 0"

definition ones_sum :: "nat \<Rightarrow> nat" where
  "ones_sum n = (if n = 0 then 0 else (n - 1) mod 65535 + 1)"

lemma ones_sum_le: "ones_sum n \<le> 65535"
  using mod_less_divisor [of 65535 "n - 1"] by (auto simp: ones_sum_def)

lemma ones_sum_small: "n < 65536 \<Longrightarrow> ones_sum n = n"
  by (auto simp: ones_sum_def)

lemma ones_sum_fold: "ones_sum (n mod 65536 + n div 65536) = ones_sum n"
proof (cases "n = 0")
  case False
  define r where "r = n mod 65536 + n div 65536"
  have eq: "n = r + n div 65536 * 65535"
    using div_mult_mod_eq [of n 65536] unfolding r_def by linarith
  have pos: "0 < r"
    using False unfolding r_def by (cases "n < 65536") (auto simp: div_greater_zero_iff)
  then have "n - 1 = r - 1 + n div 65536 * 65535"
    using eq by linarith
  then have "(n - 1) mod 65535 = (r - 1) mod 65535"
    by (metis mod_mult_self1)
  with False pos show ?thesis
    by (simp add: ones_sum_def r_def)
qed simp

lemma fold_carry_ones_sum: "unat (fold_carry c) = ones_sum (unat c)"
proof (induction c rule: fold_carry.induct)
  case (1 c)
  show ?case
  proof (cases "c AND 0xFFFF0000 = 0")
    case True
    then show ?thesis
      by (subst fold_carry.simps) (simp add: fold_test ones_sum_small)
  next
    case False
    with 1 have "unat (fold_carry c) = ones_sum (unat ((c AND 0xFFFF) + drop_bit 16 c))"
      by (subst fold_carry.simps) (simp only: simp_thms if_True not_False_eq_True)
    then show ?thesis
      by (simp only: fold_step_unat ones_sum_fold)
  qed
qed

text \<open>Storing the complement of the sum in a word that held zero makes the sum all ones.\<close>

lemma ones_sum_complement: "ones_sum (n + (65535 - ones_sum n)) = 65535"
proof (cases "n = 0")
  case False
  define q where "q = (n - 1) div 65535"
  have "n = 65535 * q + ones_sum n"
    using False div_mult_mod_eq [of "n - 1" 65535] by (simp add: ones_sum_def q_def mult.commute)
  then have "n + (65535 - ones_sum n) = 65535 * q + 65535"
    using ones_sum_le [of n] by linarith
  then show ?thesis
    by (simp add: ones_sum_def)
qed (simp add: ones_sum_def)

lemma complement_u16:
  assumes "unat c = v" "v \<le> 65535"
  shows "unat (ucast (NOT (c :: u32)) :: u16) = 65535 - v"
proof -
  have "ucast (NOT c) = NOT (ucast c :: u16)"
    by (rule bit_word_eqI) (simp add: bit_simps)
  moreover have "unat (ucast c :: u16) = v"
    using assms by (simp add: unsigned_ucast_eq take_bit_nat_eq_self)
  moreover have "unat (NOT w) = 65535 - unat w" for w :: u16
  proof -
    have "NOT w = - 1 - w"
      by (simp add: not_eq_complement)
    then have "unat (NOT w) = unat (- 1 :: u16) - unat w"
      by (simp only: unat_sub word_order.extremum)
    also have "unat (- 1 :: u16) = 65535"
      by (simp add: unsigned_minus_1_eq_mask mask_eq_exp_minus_1)
    finally show ?thesis .
  qed
  ultimately show ?thesis
    by simp
qed

lemma word_sum_le: "word_sum bs \<le> 65535 * (length bs div 2)"
proof (induction bs rule: word_sum.induct)
  case (1 a b bs)
  then show ?case
    using unat_bound [of "word16_of a b"] by simp
qed auto

lemma word_sum_append: "even (length xs) \<Longrightarrow> word_sum (xs @ ys) = word_sum xs + word_sum ys"
  by (induction xs rule: word_sum.induct) auto

lemma unat_ucast_u32: "unat (ucast w :: u32) = unat w" for w :: u16
  using unat_bound [of w] by (simp add: unsigned_ucast_eq take_bit_nat_eq_self)

lemma word_sum_words:
  assumes "p + 2 * n \<le> length m" "unat acc + word_sum (take (2 * n) (drop p m)) < 2 ^ 32"
  shows "\<exists>s. checksum_words m p n acc = Some s \<and>
    unat s = unat acc + word_sum (take (2 * n) (drop p m))"
  using assms
proof (induction m p n acc rule: checksum_words.induct)
  case (2 m p n acc)
  let ?w = "word16_of (m ! p) (m ! (p + 1))"
  have drop: "drop p m = m ! p # m ! (p + 1) # drop (p + 2) m"
    using "2.prems"(1) by (simp add: Cons_nth_drop_Suc)
  then have split: "word_sum (take (2 * Suc n) (drop p m)) =
      unat ?w + word_sum (take (2 * n) (drop (p + 2) m))"
    by simp
  have acc: "unat (acc + ucast ?w) = unat acc + unat ?w"
    using "2.prems"(2) unfolding split by (simp add: unat_word_ariths unat_ucast_u32)
  have "\<exists>s. checksum_words m (p + 2) n (acc + ucast ?w) = Some s \<and>
      unat s = unat (acc + ucast ?w) + word_sum (take (2 * n) (drop (p + 2) m))"
    using "2.prems" unfolding split
    by (intro "2.IH") (simp_all add: rd16_def acc [simplified])
  then show ?case
    using "2.prems"(1) unfolding split by (simp add: rd16_def acc [simplified] add.assoc)
qed auto


lemma word_sum_even_part: "word_sum (take (2 * (n div 2)) bs) = word_sum (take n bs)"
proof (induction bs arbitrary: n rule: word_sum.induct [case_names Pair Nil Single])
  case (Pair a b bs)
  show ?case
  proof (cases "n < 2")
    case False
    then obtain k where "n = Suc (Suc k)"
      by (metis add_2_eq_Suc le_Suc_ex not_less)
    then show ?thesis
      using Pair.IH [of k] by simp
  qed (auto simp: less_2_cases_iff)
next
  case (Single v)
  then show ?case by (cases n) (auto simp: take_Cons')
qed auto

lemma even_part_le: "p + n \<le> k \<Longrightarrow> p + 2 * (n div 2) \<le> k" for n :: nat
  by linarith

lemma Ethernet_Checksum16_value:
  assumes "p + unat Bytes \<le> length m"
  shows "\<exists>c. Ethernet_Checksum16 m p Bytes = Some c \<and>
    unat c = 65535 - ones_sum (word_sum (take (unat Bytes) (drop p m)))"
proof -
  let ?n = "unat Bytes div 2"
  have n: "unat (drop_bit 1 Bytes) = ?n"
    by (simp only: unat_drop_bit_eq) (simp add: drop_bit_eq_div)
  let ?s = "word_sum (take (2 * ?n) (drop p m))"
  have "?s \<le> 65535 * ?n"
    using word_sum_le [of "take (2 * ?n) (drop p m)"] assms by (simp add: min_def split: if_splits)
  also have "\<dots> < 2 ^ 32"
    using unat_bound [of Bytes] by simp
  finally obtain s where s: "checksum_words m p ?n 0 = Some s" "unat s = ?s"
    using word_sum_words [of p ?n m 0] assms by (auto intro: order_trans [rotated] simp: even_part_le)
  have "unat (fold_carry s) = ones_sum ?s"
    using s by (simp add: fold_carry_ones_sum)
  then have "unat (ucast (NOT (fold_carry s)) :: u16) = 65535 - ones_sum ?s"
    by (rule complement_u16) (rule ones_sum_le)
  then show ?thesis
    unfolding word_sum_even_part using s n by (simp add: Ethernet_Checksum16_def)
qed

lemma word_sum_set:
  assumes "even k" "k + 1 < length bs" "bs ! k = 0" "bs ! (k + 1) = 0"
  shows "word_sum (bs[k := byte0 c, k + 1 := byte1 c]) = word_sum bs + unat (c :: u16)"
proof -
  have split: "bs = take k bs @ bs ! k # bs ! (k + 1) # drop (k + 2) bs"
    using assms(2) by (simp add: Cons_nth_drop_Suc id_take_nth_drop)
  have "bs[k := byte0 c, k + 1 := byte1 c] = take k bs @ byte0 c # byte1 c # drop (k + 2) bs"
    using assms(2) by (subst split) (simp add: list_update_append nth_append)
  moreover have "word_sum bs = word_sum (take k bs) + word_sum (drop (k + 2) bs)"
    using assms by (subst split) (simp add: word_sum_append word16_of_def)
  ultimately show ?thesis
    using assms by (simp add: word_sum_append)
qed


lemma word16_of_eq_0: "word16_of a b = 0 \<longleftrightarrow> a = 0 \<and> b = 0"
proof
  assume *: "word16_of a b = 0"
  have "a = byte0 (word16_of a b)" "b = byte1 (word16_of a b)"
    by simp_all
  then show "a = 0 \<and> b = 0"
    unfolding * by (simp add: byte0_def byte1_def)
qed (simp add: word16_of_def)

lemma take_drop_set:
  "p \<le> i \<Longrightarrow> i < p + n \<Longrightarrow> take n (drop p (m[i := v])) = (take n (drop p m))[i - p := v]"
  by (simp add: drop_update_swap take_update_swap)

lemma Ethernet_Checksum16_verifies:
  assumes len: "p + unat Bytes \<le> length m" and c: "Ethernet_Checksum16 m p Bytes = Some c"
    and k: "even k" "k + 1 < unat Bytes" "rd16 m (p + k) = Some 0"
    and m': "wr16 m (p + k) c = Some m'"
  shows "Ethernet_Checksum16 m' p Bytes = Some 0"
proof -
  let ?b = "take (unat Bytes) (drop p m)"
  have m'_eq: "m' = m[p + k := byte0 c, p + k + 1 := byte1 c]"
    using m' by (simp add: wr16_def split: if_splits)
  have zero: "?b ! k = 0" "?b ! (k + 1) = 0"
    using k len by (auto simp: rd16_def word16_of_eq_0 add.assoc split: if_splits)
  have "take (unat Bytes) (drop p m') = ?b[k := byte0 c, k + 1 := byte1 c]"
    using k unfolding m'_eq by (simp add: take_drop_set)
  then have sum: "word_sum (take (unat Bytes) (drop p m')) = word_sum ?b + unat c"
    using word_sum_set [of k ?b c] k zero len by simp
  have "unat c = 65535 - ones_sum (word_sum ?b)"
    using Ethernet_Checksum16_value [OF len] c by auto
  then have "ones_sum (word_sum (take (unat Bytes) (drop p m'))) = 65535"
    unfolding sum by (simp only: ones_sum_complement)
  moreover have "p + unat Bytes \<le> length m'"
    using len m'_eq by simp
  ultimately show ?thesis
    using Ethernet_Checksum16_value [of p Bytes m'] by (auto simp: unat_eq_zero)
qed

text \<open>A region read back from the buffer it was written to.\<close>

lemma rdn_wrn: "wrn m i bs = Some m' \<Longrightarrow> n = length bs \<Longrightarrow> rdn m' i n = Some bs"
  by (auto simp: wrn_def rdn_def split: if_splits)

lemma rdn_wrn_before: "wrn m i bs = Some m' \<Longrightarrow> j + n \<le> i \<Longrightarrow> rdn m' j n = rdn m j n"
  by (auto simp: wrn_def rdn_def min.absorb1 drop_take split: if_splits)

lemma rdn_wrn_after: "wrn m i bs = Some m' \<Longrightarrow> i + length bs \<le> j \<Longrightarrow> rdn m' j n = rdn m j n"
  by (auto simp: wrn_def rdn_def min.absorb1 split: if_splits)

lemma wrn_append:
  "wrn m i a = Some m1 \<Longrightarrow> wrn m1 (i + length a) b = Some m2 \<Longrightarrow> wrn m i (a @ b) = Some m2"
  by (auto simp: wrn_def min.absorb1 ac_simps split: if_splits)

lemma rdn_nth: "rdn m i n = Some bs \<Longrightarrow> k < n \<Longrightarrow> i + k < length m \<and> m ! (i + k) = bs ! k"
  by (auto simp: rdn_def split: if_splits)

lemma rd16_of_rdn: "rdn m i n = Some bs \<Longrightarrow> k + 1 < n \<Longrightarrow> rd16 m (i + k) = Some (at16 bs k)"
  by (auto simp: rdn_def rd16_def at16_def add.assoc split: if_splits)

lemma rdn_sub: "rdn m i n = Some bs \<Longrightarrow> k + l \<le> n \<Longrightarrow> rdn m (i + k) l = Some (take l (drop k bs))"
  by (auto simp: rdn_def take_drop min_def ac_simps split: if_splits)

lemma rdn_wr16:
  assumes "rdn m i n = Some bs" "wr16 m (i + k) w = Some m'" "k + 1 < n"
  shows "rdn m' i n = Some (bs[k := byte0 w, k + 1 := byte1 w])"
  using assms by (auto simp: rdn_def wr16_def take_drop_set split: if_splits)

lemma rdn_wr16_other: "wr16 m i w = Some m' \<Longrightarrow> i + 2 \<le> j \<or> j + n \<le> i \<Longrightarrow> rdn m' j n = rdn m j n"
  by (auto simp: rdn_def wr16_def drop_update_swap take_update_swap list_update_beyond split: if_splits)

text \<open>The receiver's test: an odd region is summed with a zero byte appended.\<close>

definition inet_valid :: "bytes \<Rightarrow> bool" where
  "inet_valid bs = (ones_sum (word_sum (if even (length bs) then bs else bs @ [0])) = 65535)"

lemma ones_sum_plus_small: "ones_sum s = 65535 \<Longrightarrow> b < 65535 \<Longrightarrow> ones_sum (s + b) = 65535 \<longleftrightarrow> b = 0"
proof
  assume s: "ones_sum s = 65535" "b < 65535" "ones_sum (s + b) = 65535"
  then have "(s - 1) mod 65535 = 65534" "(s + b - 1) mod 65535 = 65534" "0 < s"
    by (auto simp: ones_sum_def split: if_splits)
  then have "(s - 1 + b) mod 65535 = (s - 1 + 0) mod 65535"
    by simp
  then show "b = 0"
    using mod_add_inj [of "s - 1" b 65535 0] s(2) by simp
qed simp

lemma word_sum_odd: "odd (length bs) \<Longrightarrow> word_sum (bs @ [0]) = word_sum bs + unat (last bs)"
proof (induction bs rule: word_sum.induct [case_names Pair Nil Single])
  case (Single v)
  have "unat (word16_of v 0) = unat v"
    using unat_bound [of v] by (simp add: word16_of_def unsigned_ucast_eq take_bit_nat_eq_self)
  then show ?case by simp
qed auto

lemma inet_valid_iff:
  assumes "rdn m p (unat n) = Some bs" "Ethernet_Checksum16 m p n = Some 0"
  shows "inet_valid bs \<longleftrightarrow> even (length bs) \<or> last bs = 0"
proof -
  have bs: "take (unat n) (drop p m) = bs" "p + unat n \<le> length m"
    using assms(1) by (auto simp: rdn_def split: if_splits)
  then have "65535 - ones_sum (word_sum bs) = 0"
    using Ethernet_Checksum16_value [of p n m] assms(2) by auto
  then have sum: "ones_sum (word_sum bs) = 65535"
    using ones_sum_le [of "word_sum bs"] by simp
  have "unat (last bs) < 65535"
    using unat_bound [of "last bs"] by simp
  then show ?thesis
    using sum ones_sum_plus_small [OF sum, of "unat (last bs)"]
    by (auto simp: inet_valid_def word_sum_odd unat_eq_zero)
qed

section \<open>Packed headers\<close>

text \<open>
  What the code relies on when it accesses a buffer through a pointer to a header structure:
  the structure occupies \<open>n\<close> bytes, and its fields are read as they were written.  \<open>ok\<close> holds
  of the structures whose array members have their declared length.
\<close>

locale packed_header =
  fixes enc :: "'h \<Rightarrow> bytes" and dec :: "bytes \<Rightarrow> 'h" and n :: nat and ok :: "'h \<Rightarrow> bool"
  assumes enc_length: "ok h \<Longrightarrow> length (enc h) = n"
    and dec_enc: "ok h \<Longrightarrow> dec (enc h) = h"
    and dec_ok: "length bs = n \<Longrightarrow> ok (dec bs)"
begin

lemma get_ok: "map_option dec (rdn m i n) = Some h \<Longrightarrow> ok h"
  by (auto simp: length_rdn dec_ok)

lemma get_put: "wrn m i (enc h) = Some m' \<Longrightarrow> ok h \<Longrightarrow> map_option dec (rdn m' i n) = Some h"
  by (simp add: rdn_wrn enc_length dec_enc)

lemma put_defined: "i + n \<le> length m \<Longrightarrow> ok h \<Longrightarrow> \<exists>m'. wrn m i (enc h) = Some m'"
  by (simp add: wrn_def enc_length)

lemma get_defined: "i + n \<le> length m \<Longrightarrow> \<exists>h. map_option dec (rdn m i n) = Some h"
  by (simp add: rdn_def)

lemma put_before: "wrn m i (enc h) = Some m' \<Longrightarrow> j + k \<le> i \<Longrightarrow> rdn m' j k = rdn m j k"
  by (rule rdn_wrn_before)

lemma put_after: "wrn m i (enc h) = Some m' \<Longrightarrow> ok h \<Longrightarrow> i + n \<le> j \<Longrightarrow> rdn m' j k = rdn m j k"
  by (erule rdn_wrn_after) (simp add: enc_length)

end

definition eth_ok :: "Ethernet_Frame_Header_t \<Rightarrow> bool" where
  "eth_ok h = (length (eth_Destination h) = 6 \<and> length (eth_Source h) = 6)"

definition ip_ok :: "IP_Header_t \<Rightarrow> bool" where
  "ip_ok h = (length (ip_SourceAddress h) = 4 \<and> length (ip_DestinationAddress h) = 4)"

interpretation eth: packed_header enc_eth dec_eth sizeof_Ethernet_Frame_Header_t eth_ok
proof
  fix h :: Ethernet_Frame_Header_t
  assume "eth_ok h"
  then show "dec_eth (enc_eth h) = h"
    by (cases h) (simp add: eth_ok_def dec_eth_def enc_eth_def le16_def at16_def nth_append)
qed (auto simp: eth_ok_def dec_eth_def enc_eth_def le16_def sizeof_Ethernet_Frame_Header_t_def)

lemma ip_bit_fields:
  fixes a :: "4 word" and c :: "13 word"
  shows
  "ucast (ucast a OR push_bit 4 (ucast b) :: u8) = (a :: 4 word)"
  "ucast (drop_bit 4 (ucast a) OR drop_bit 4 (push_bit 4 (ucast b)) :: u8) = (b :: 4 word)"
  "ucast (ucast c OR push_bit 13 (ucast d) :: u16) = (c :: 13 word)"
  "ucast (drop_bit 13 (ucast c) OR drop_bit 13 (push_bit 13 (ucast d)) :: u16) = (d :: 3 word)"
  by (rule bit_word_eqI; auto simp: bit_simps dest: bit_imp_le_length)+

interpretation ip: packed_header enc_ip dec_ip sizeof_IP_Header_t ip_ok
proof
  fix h :: IP_Header_t
  assume "ip_ok h"
  then show "dec_ip (enc_ip h) = h"
    by (cases h) (simp add: ip_ok_def dec_ip_def enc_ip_def le16_def at16_def ip_bit_fields)
qed (auto simp: ip_ok_def dec_ip_def enc_ip_def le16_def sizeof_IP_Header_t_def)

lemma length_addresses [simp]:
  "length ServerMACAddress = 6" "length ServerIPAddress = 4" "length ClientIPAddress = 4"
  by (simp_all add: net_consts)

lemma IP_reply_header_ok:
  "length s = 4 \<Longrightarrow> length d = 4 \<Longrightarrow> ip_ok (IP_reply_header n q s d)"
  by (simp add: ip_ok_def IP_reply_header_def)

text \<open>The header is written as intended, and a receiver accepts its checksum.\<close>

lemma IP_write_header_result:
  assumes len: "length s = 4" "length d = 4" and out: "p + 20 \<le> length out"
  shows "\<exists>c out'. IP_write_header out p n q s d = Some out' \<and> length out' = length out \<and>
    get_ip out' p = Some ((IP_reply_header n q s d)\<lparr>ip_HeaderChecksum := c\<rparr>) \<and>
    (\<exists>bs. rdn out' p 20 = Some bs \<and> inet_valid bs) \<and>
    (\<forall>j k. p + 20 \<le> j \<or> j + k \<le> p \<longrightarrow> rdn out' j k = rdn out j k)"
proof -
  let ?h = "IP_reply_header n q s d"
  have ok: "ip_ok ?h"
    using len by (rule IP_reply_header_ok)
  have enc: "length (enc_ip ?h) = 20"
    using ip.enc_length [OF ok] by (simp add: sizeof_IP_Header_t_def)
  obtain o1 where o1: "wrn out p (enc_ip ?h) = Some o1"
    using ip.put_defined [OF _ ok, of p out] out by (auto simp: sizeof_IP_Header_t_def)
  have o1_bytes: "rdn o1 p 20 = Some (enc_ip ?h)"
    using rdn_wrn [OF o1] enc by simp
  have range: "p + unat (20 :: u16) \<le> length o1"
    using length_wrn [OF o1] out by simp
  then obtain c where c: "Ethernet_Checksum16 o1 p 20 = Some c"
    using Ethernet_Checksum16_value by blast
  have zero: "rd16 o1 (p + 10) = Some 0"
    using rd16_of_rdn [OF o1_bytes, of 10] by (simp add: enc_ip_def IP_reply_header_def le16_def at16_def)
  obtain o2 where o2: "wr16 o1 (p + 10) c = Some o2"
    using zero by (auto simp: wr16_def rd16_def split: if_splits)
  have ver: "Ethernet_Checksum16 o2 p 20 = Some 0"
    using range c zero o2 by (intro Ethernet_Checksum16_verifies [where k = 10]) simp_all
  have o2_bytes: "rdn o2 p 20 = Some (enc_ip (?h\<lparr>ip_HeaderChecksum := c\<rparr>))"
    using rdn_wr16 [OF o1_bytes o2] by (simp add: enc_ip_def IP_reply_header_def le16_def)
  have "inet_valid (enc_ip (?h\<lparr>ip_HeaderChecksum := c\<rparr>))"
    using inet_valid_iff [of o2 p 20] o2_bytes ver len
    by (simp add: enc_ip_def le16_def IP_reply_header_def)
  moreover have "get_ip o2 p = Some (?h\<lparr>ip_HeaderChecksum := c\<rparr>)"
    using o2_bytes ip.dec_enc [of "?h\<lparr>ip_HeaderChecksum := c\<rparr>"] ok
    by (simp add: get_ip_def sizeof_IP_Header_t_def ip_ok_def)
  moreover have "rdn o2 j k = rdn out j k" if "p + 20 \<le> j \<or> j + k \<le> p" for j k
    using that rdn_wr16_other [OF o2, of j k] rdn_wrn_before [OF o1, of j k]
      rdn_wrn_after [OF o1, of j k] enc by auto
  ultimately show ?thesis
    using o1 c o2 o2_bytes length_wrn [OF o1] length_wr16 [OF o2]
    by (simp add: IP_write_header_def put_ip_def sizeof_IP_Header_t_def) blast
qed

section \<open>Properties\<close>

text \<open>
  C22. \<^verbatim>\<open>Ethernet_Checksum16\<close> returns for every region inside its buffer, with the
  complement of the one's complement sum of the region's 16-bit words; and when the result is
  stored into an aligned word of the region that was zero (the checksum field of a header), the
  checksum of the region is zero, which is the test a receiver makes.
\<close>

theorem checksum_sound:
  assumes "p + unat Bytes \<le> length m"
  shows "\<exists>c. Ethernet_Checksum16 m p Bytes = Some c \<and>
    unat c = 65535 - ones_sum (word_sum (take (unat Bytes) (drop p m))) \<and>
    (\<forall>k m'. even k \<longrightarrow> k + 1 < unat Bytes \<longrightarrow> rd16 m (p + k) = Some 0 \<longrightarrow>
       wr16 m (p + k) c = Some m' \<longrightarrow> Ethernet_Checksum16 m' p Bytes = Some 0)"
proof -
  obtain c where c: "Ethernet_Checksum16 m p Bytes = Some c"
    "unat c = 65535 - ones_sum (word_sum (take (unat Bytes) (drop p m)))"
    using Ethernet_Checksum16_value [OF assms] by blast
  show ?thesis
    using c Ethernet_Checksum16_verifies [OF assms c(1)] by auto
qed

theorem checksum_sound_witness:
  "0 + unat (4 :: u16) \<le> length [1, 2, 0, 0 :: u8] \<and>
   (\<exists>c. Ethernet_Checksum16 [1, 2, 0, 0] 0 4 = Some c \<and>
     unat c = 65535 - ones_sum (word_sum (take (unat (4 :: u16)) (drop 0 [1, 2, 0, 0]))) \<and>
     (\<forall>k m'. even k \<longrightarrow> k + 1 < unat (4 :: u16) \<longrightarrow> rd16 [1, 2, 0, 0] (0 + k) = Some 0 \<longrightarrow>
       wr16 [1, 2, 0, 0] (0 + k) c = Some m' \<longrightarrow> Ethernet_Checksum16 m' 0 4 = Some 0))"
  using checksum_sound [of 0 4 "[1, 2, 0, 0]"] by simp

end
