(* ===== verification/Net_Services.thy ===== *)
theory Net_Services
  imports Net_Frames
begin

text \<open>
  The stateless services of the RNDIS network demo: \<^verbatim>\<open>ARP.c\<close>, \<^verbatim>\<open>ICMP.c\<close>, \<^verbatim>\<open>DHCP.c\<close> and
  \<^verbatim>\<open>UDP.c\<close> with the structures of their header files.  A handler takes the buffer of the
  incoming frame with the position of its header, and the buffer of the outgoing frame with the
  position where the reply goes; its result is the returned \<^verbatim>\<open>int16_t\<close> and the buffers it has
  written.  The decoder calls (\<^verbatim>\<open>DecodeARPHeader\<close> and the like) are compiled out by the demo's
  \<^verbatim>\<open>NO_DECODE\<close> options and have no counterpart here.
\<close>

section \<open>ARP\<close>

definition ARP_OPERATION_REQUEST :: u16 where
  "ARP_OPERATION_REQUEST = 1"

definition ARP_OPERATION_REPLY :: u16 where
  "ARP_OPERATION_REPLY = 2"

record ARP_Header_t =
  arp_HardwareType :: u16
  arp_ProtocolType :: u16
  arp_HLEN :: u8
  arp_PLEN :: u8
  arp_Operation :: u16
  arp_SHA :: MAC_Address_t
  arp_SPA :: IP_Address_t
  arp_THA :: MAC_Address_t
  arp_TPA :: IP_Address_t

definition sizeof_ARP_Header_t :: nat where
  "sizeof_ARP_Header_t = 28"

definition enc_arp :: "ARP_Header_t \<Rightarrow> bytes" where
  "enc_arp h = le16 (arp_HardwareType h) @ le16 (arp_ProtocolType h) @ [arp_HLEN h, arp_PLEN h] @
     le16 (arp_Operation h) @ arp_SHA h @ arp_SPA h @ arp_THA h @ arp_TPA h"

definition dec_arp :: "bytes \<Rightarrow> ARP_Header_t" where
  "dec_arp bs = \<lparr>arp_HardwareType = at16 bs 0, arp_ProtocolType = at16 bs 2,
     arp_HLEN = bs ! 4, arp_PLEN = bs ! 5, arp_Operation = at16 bs 6,
     arp_SHA = take 6 (drop 8 bs), arp_SPA = take 4 (drop 14 bs),
     arp_THA = take 6 (drop 18 bs), arp_TPA = take 4 (drop 24 bs)\<rparr>"

definition get_arp :: "bytes \<Rightarrow> nat \<Rightarrow> ARP_Header_t option" where
  "get_arp m i = map_option dec_arp (rdn m i sizeof_ARP_Header_t)"

definition put_arp :: "bytes \<Rightarrow> nat \<Rightarrow> ARP_Header_t \<Rightarrow> bytes option" where
  "put_arp m i h = wrn m i (enc_arp h)"

definition ARP_ProcessARPPacket :: "bytes \<Rightarrow> nat \<Rightarrow> bytes \<Rightarrow> nat \<Rightarrow> (int \<times> bytes) option" where
  "ARP_ProcessARPPacket fin InDataStart out OutDataStart = do {
     ARPHeaderIN \<leftarrow> get_arp fin InDataStart;
     if SwapEndian_16 False (arp_ProtocolType ARPHeaderIN) = ETHERTYPE_IPV4 \<and>
        SwapEndian_16 False (arp_Operation ARPHeaderIN) = ARP_OPERATION_REQUEST \<and>
        (IP_COMPARE (arp_TPA ARPHeaderIN) ServerIPAddress \<or>
         MAC_COMPARE (arp_THA ARPHeaderIN) ServerMACAddress)
     then do {
       out \<leftarrow> put_arp out OutDataStart
         \<lparr>arp_HardwareType = arp_HardwareType ARPHeaderIN,
          arp_ProtocolType = arp_ProtocolType ARPHeaderIN,
          arp_HLEN = arp_HLEN ARPHeaderIN,
          arp_PLEN = arp_PLEN ARPHeaderIN,
          arp_Operation = SwapEndian_16 True ARP_OPERATION_REPLY,
          arp_SHA = ServerMACAddress,
          arp_SPA = ServerIPAddress,
          arp_THA = arp_SHA ARPHeaderIN,
          arp_TPA = arp_SPA ARPHeaderIN\<rparr>;
       Some (int sizeof_ARP_Header_t, out)
     }
     else Some (NO_RESPONSE, out)
   }"

section \<open>ICMP\<close>

definition ICMP_TYPE_ECHOREPLY :: u8 where
  "ICMP_TYPE_ECHOREPLY = 0"

definition ICMP_TYPE_ECHOREQUEST :: u8 where
  "ICMP_TYPE_ECHOREQUEST = 8"

record ICMP_Header_t =
  icmp_Type :: u8
  icmp_Code :: u8
  icmp_Checksum :: u16
  icmp_Id :: u16
  icmp_Sequence :: u16

definition sizeof_ICMP_Header_t :: nat where
  "sizeof_ICMP_Header_t = 8"

definition enc_icmp :: "ICMP_Header_t \<Rightarrow> bytes" where
  "enc_icmp h = [icmp_Type h, icmp_Code h] @ le16 (icmp_Checksum h) @ le16 (icmp_Id h) @
     le16 (icmp_Sequence h)"

definition dec_icmp :: "bytes \<Rightarrow> ICMP_Header_t" where
  "dec_icmp bs = \<lparr>icmp_Type = bs ! 0, icmp_Code = bs ! 1, icmp_Checksum = at16 bs 2,
     icmp_Id = at16 bs 4, icmp_Sequence = at16 bs 6\<rparr>"

definition get_icmp :: "bytes \<Rightarrow> nat \<Rightarrow> ICMP_Header_t option" where
  "get_icmp m i = map_option dec_icmp (rdn m i sizeof_ICMP_Header_t)"

definition put_icmp :: "bytes \<Rightarrow> nat \<Rightarrow> ICMP_Header_t \<Rightarrow> bytes option" where
  "put_icmp m i h = wrn m i (enc_icmp h)"

text \<open>
  \<^verbatim>\<open>DataSize\<close> is the 16-bit difference the code computes; \<^verbatim>\<open>memmove\<close> takes it as an unsigned
  size.  The checksum word of the header is at offset 2.
\<close>

definition ICMP_ProcessICMPPacket ::
    "Ethernet_Frame_Info_t \<Rightarrow> nat \<Rightarrow> bytes \<Rightarrow> nat \<Rightarrow> (int \<times> bytes) option" where
  "ICMP_ProcessICMPPacket FrameIN InDataStart out OutDataStart = do {
     ICMPHeaderIN \<leftarrow> get_icmp (FrameData FrameIN) InDataStart;
     if icmp_Type ICMPHeaderIN = ICMP_TYPE_ECHOREQUEST
     then do {
       out \<leftarrow> put_icmp out OutDataStart
         \<lparr>icmp_Type = ICMP_TYPE_ECHOREPLY, icmp_Code = 0, icmp_Checksum = 0,
          icmp_Id = icmp_Id ICMPHeaderIN, icmp_Sequence = icmp_Sequence ICMPHeaderIN\<rparr>;
       let DataSize = FrameLength FrameIN - of_nat (InDataStart + sizeof_ICMP_Header_t);
       payload \<leftarrow> rdn (FrameData FrameIN) (InDataStart + sizeof_ICMP_Header_t) (unat DataSize);
       out \<leftarrow> wrn out (OutDataStart + sizeof_ICMP_Header_t) payload;
       Checksum \<leftarrow> Ethernet_Checksum16 out OutDataStart (DataSize + of_nat sizeof_ICMP_Header_t);
       out \<leftarrow> wr16 out (OutDataStart + 2) Checksum;
       Some (sint (DataSize + of_nat sizeof_ICMP_Header_t), out)
     }
     else Some (NO_RESPONSE, out)
   }"

section \<open>DHCP\<close>

definition DHCP_OP_BOOTREPLY :: u8 where
  "DHCP_OP_BOOTREPLY = 0x02"

definition DHCP_MAGIC_COOKIE :: u32 where
  "DHCP_MAGIC_COOKIE = 0x63825363"

definition DHCP_OPTION_SUBNETMASK :: u8 where
  "DHCP_OPTION_SUBNETMASK = 1"

definition DHCP_OPTION_MESSAGETYPE :: u8 where
  "DHCP_OPTION_MESSAGETYPE = 53"

definition DHCP_OPTION_DHCPSERVER :: u8 where
  "DHCP_OPTION_DHCPSERVER = 54"

definition DHCP_OPTION_PAD :: u8 where
  "DHCP_OPTION_PAD = 0"

definition DHCP_OPTION_END :: u8 where
  "DHCP_OPTION_END = 255"

definition DHCP_MESSAGETYPE_DISCOVER :: u8 where
  "DHCP_MESSAGETYPE_DISCOVER = 1"

definition DHCP_MESSAGETYPE_OFFER :: u8 where
  "DHCP_MESSAGETYPE_OFFER = 2"

definition DHCP_MESSAGETYPE_REQUEST :: u8 where
  "DHCP_MESSAGETYPE_REQUEST = 3"

definition DHCP_MESSAGETYPE_ACK :: u8 where
  "DHCP_MESSAGETYPE_ACK = 5"

lemmas service_consts = ARP_OPERATION_REQUEST_def ARP_OPERATION_REPLY_def ICMP_TYPE_ECHOREPLY_def
  ICMP_TYPE_ECHOREQUEST_def DHCP_OP_BOOTREPLY_def DHCP_MAGIC_COOKIE_def
  DHCP_OPTION_SUBNETMASK_def DHCP_OPTION_MESSAGETYPE_def DHCP_OPTION_DHCPSERVER_def
  DHCP_OPTION_PAD_def DHCP_OPTION_END_def DHCP_MESSAGETYPE_DISCOVER_def
  DHCP_MESSAGETYPE_OFFER_def DHCP_MESSAGETYPE_REQUEST_def DHCP_MESSAGETYPE_ACK_def

record DHCP_Header_t =
  dhcp_Operation :: u8
  dhcp_HardwareType :: u8
  dhcp_HardwareAddressLength :: u8
  dhcp_Hops :: u8
  dhcp_TransactionID :: u32
  dhcp_ElapsedSeconds :: u16
  dhcp_Flags :: u16
  dhcp_ClientIP :: IP_Address_t
  dhcp_YourIP :: IP_Address_t
  dhcp_NextServerIP :: IP_Address_t
  dhcp_RelayAgentIP :: IP_Address_t
  dhcp_ClientHardwareAddress :: bytes
  dhcp_ServerHostnameString :: bytes
  dhcp_BootFileName :: bytes
  dhcp_Cookie :: u32

definition sizeof_DHCP_Header_t :: nat where
  "sizeof_DHCP_Header_t = 240"

definition enc_dhcp :: "DHCP_Header_t \<Rightarrow> bytes" where
  "enc_dhcp h =
     [dhcp_Operation h, dhcp_HardwareType h, dhcp_HardwareAddressLength h, dhcp_Hops h] @
     le32 (dhcp_TransactionID h) @ le16 (dhcp_ElapsedSeconds h) @ le16 (dhcp_Flags h) @
     dhcp_ClientIP h @ dhcp_YourIP h @ dhcp_NextServerIP h @ dhcp_RelayAgentIP h @
     dhcp_ClientHardwareAddress h @ dhcp_ServerHostnameString h @ dhcp_BootFileName h @
     le32 (dhcp_Cookie h)"

definition dec_dhcp :: "bytes \<Rightarrow> DHCP_Header_t" where
  "dec_dhcp bs = \<lparr>dhcp_Operation = bs ! 0, dhcp_HardwareType = bs ! 1,
     dhcp_HardwareAddressLength = bs ! 2, dhcp_Hops = bs ! 3,
     dhcp_TransactionID = at32 bs 4, dhcp_ElapsedSeconds = at16 bs 8, dhcp_Flags = at16 bs 10,
     dhcp_ClientIP = take 4 (drop 12 bs), dhcp_YourIP = take 4 (drop 16 bs),
     dhcp_NextServerIP = take 4 (drop 20 bs), dhcp_RelayAgentIP = take 4 (drop 24 bs),
     dhcp_ClientHardwareAddress = take 16 (drop 28 bs),
     dhcp_ServerHostnameString = take 64 (drop 44 bs),
     dhcp_BootFileName = take 128 (drop 108 bs), dhcp_Cookie = at32 bs 236\<rparr>"

definition get_dhcp :: "bytes \<Rightarrow> nat \<Rightarrow> DHCP_Header_t option" where
  "get_dhcp m i = map_option dec_dhcp (rdn m i sizeof_DHCP_Header_t)"

definition put_dhcp :: "bytes \<Rightarrow> nat \<Rightarrow> DHCP_Header_t \<Rightarrow> bytes option" where
  "put_dhcp m i h = wrn m i (enc_dhcp h)"

text \<open>The reply header: the fields the code sets, the rest as \<^verbatim>\<open>memset\<close> leaves it.\<close>

definition DHCP_reply_header :: "DHCP_Header_t \<Rightarrow> DHCP_Header_t" where
  "DHCP_reply_header DHCPHeaderIN =
     \<lparr>dhcp_Operation = DHCP_OP_BOOTREPLY,
      dhcp_HardwareType = dhcp_HardwareType DHCPHeaderIN,
      dhcp_HardwareAddressLength = dhcp_HardwareAddressLength DHCPHeaderIN,
      dhcp_Hops = 0,
      dhcp_TransactionID = dhcp_TransactionID DHCPHeaderIN,
      dhcp_ElapsedSeconds = 0,
      dhcp_Flags = dhcp_Flags DHCPHeaderIN,
      dhcp_ClientIP = replicate 4 0,
      dhcp_YourIP = ClientIPAddress,
      dhcp_NextServerIP = replicate 4 0,
      dhcp_RelayAgentIP = replicate 4 0,
      dhcp_ClientHardwareAddress =
        take 6 (dhcp_ClientHardwareAddress DHCPHeaderIN) @ replicate 10 0,
      dhcp_ServerHostnameString = replicate 64 0,
      dhcp_BootFileName = replicate 128 0,
      dhcp_Cookie = SwapEndian_32 True DHCP_MAGIC_COOKIE\<rparr>"

text \<open>
  The walk over the options.  The result is the message type the loop stops at, or
  \<^term>\<open>None\<close> inside \<^term>\<open>Some\<close> when it reaches the end option without one.
\<close>

function dhcp_options :: "bytes \<Rightarrow> nat \<Rightarrow> u8 option option" where
  "dhcp_options m DHCPOptionsINStart = do {
     tag \<leftarrow> rd8 m DHCPOptionsINStart;
     if tag = DHCP_OPTION_END then Some None
     else do {
       found \<leftarrow> (if tag = DHCP_OPTION_MESSAGETYPE
                then do {
                  t \<leftarrow> rd8 m (DHCPOptionsINStart + 2);
                  Some (if t = DHCP_MESSAGETYPE_DISCOVER \<or> t = DHCP_MESSAGETYPE_REQUEST
                        then Some t else None)
                }
                else Some None);
       case found of
         Some t \<Rightarrow> Some (Some t)
       | None \<Rightarrow>
           if tag = DHCP_OPTION_PAD then dhcp_options m (DHCPOptionsINStart + 1)
           else do {
             len \<leftarrow> rd8 m (DHCPOptionsINStart + 1);
             dhcp_options m (DHCPOptionsINStart + (unat len + 2))
           }
     }
   }"
  by pat_completeness auto

termination dhcp_options
  by (relation "measure (\<lambda>(m, p). length m - p)") (auto simp: rd8_def split: if_splits)

declare dhcp_options.simps [simp del]

text \<open>The options of a reply, as the code writes them one byte after the other.\<close>

definition dhcp_reply_options :: "u8 \<Rightarrow> bytes" where
  "dhcp_reply_options t =
     [DHCP_OPTION_MESSAGETYPE, 1,
      if t = DHCP_MESSAGETYPE_DISCOVER then DHCP_MESSAGETYPE_OFFER else DHCP_MESSAGETYPE_ACK,
      DHCP_OPTION_SUBNETMASK, 4, 0xFF, 0xFF, 0xFF, 0x00,
      DHCP_OPTION_DHCPSERVER, 4] @ ServerIPAddress @ [DHCP_OPTION_END]"

text \<open>The handler also corrects the addresses in the header of the incoming packet (offsets 12
  and 16 of the IP header).\<close>

definition DHCP_ProcessDHCPPacket ::
    "bytes \<Rightarrow> nat \<Rightarrow> nat \<Rightarrow> bytes \<Rightarrow> nat \<Rightarrow> (int \<times> bytes \<times> bytes) option" where
  "DHCP_ProcessDHCPPacket fin IPHeaderInStart DHCPHeaderInStart out DHCPHeaderOutStart = do {
     DHCPHeaderIN \<leftarrow> get_dhcp fin DHCPHeaderInStart;
     out \<leftarrow> put_dhcp out DHCPHeaderOutStart (DHCP_reply_header DHCPHeaderIN);
     fin \<leftarrow> wrn fin (IPHeaderInStart + 12) ClientIPAddress;
     fin \<leftarrow> wrn fin (IPHeaderInStart + 16) ServerIPAddress;
     found \<leftarrow> dhcp_options fin (DHCPHeaderInStart + sizeof_DHCP_Header_t);
     case found of
       None \<Rightarrow> Some (NO_RESPONSE, fin, out)
     | Some t \<Rightarrow> do {
         out \<leftarrow> wrn out (DHCPHeaderOutStart + sizeof_DHCP_Header_t) (dhcp_reply_options t);
         Some (int sizeof_DHCP_Header_t + 12 + 4, fin, out)
       }
   }"

section \<open>UDP\<close>

definition UDP_PORT_DHCP_REQUEST :: u16 where
  "UDP_PORT_DHCP_REQUEST = 67"

record UDP_Header_t =
  udp_SourcePort :: u16
  udp_DestinationPort :: u16
  udp_Length :: u16
  udp_Checksum :: u16

definition sizeof_UDP_Header_t :: nat where
  "sizeof_UDP_Header_t = 8"

definition enc_udp :: "UDP_Header_t \<Rightarrow> bytes" where
  "enc_udp h = le16 (udp_SourcePort h) @ le16 (udp_DestinationPort h) @ le16 (udp_Length h) @
     le16 (udp_Checksum h)"

definition dec_udp :: "bytes \<Rightarrow> UDP_Header_t" where
  "dec_udp bs = \<lparr>udp_SourcePort = at16 bs 0, udp_DestinationPort = at16 bs 2,
     udp_Length = at16 bs 4, udp_Checksum = at16 bs 6\<rparr>"

definition get_udp :: "bytes \<Rightarrow> nat \<Rightarrow> UDP_Header_t option" where
  "get_udp m i = map_option dec_udp (rdn m i sizeof_UDP_Header_t)"

definition put_udp :: "bytes \<Rightarrow> nat \<Rightarrow> UDP_Header_t \<Rightarrow> bytes option" where
  "put_udp m i h = wrn m i (enc_udp h)"

definition UDP_ProcessUDPPacket ::
    "bytes \<Rightarrow> nat \<Rightarrow> nat \<Rightarrow> bytes \<Rightarrow> nat \<Rightarrow> (int \<times> bytes \<times> bytes) option" where
  "UDP_ProcessUDPPacket fin IPHeaderInStart UDPHeaderInStart out UDPHeaderOutStart = do {
     UDPHeaderIN \<leftarrow> get_udp fin UDPHeaderInStart;
     (RetSize, fin, out) \<leftarrow>
       (if SwapEndian_16 False (udp_DestinationPort UDPHeaderIN) = UDP_PORT_DHCP_REQUEST
        then DHCP_ProcessDHCPPacket fin IPHeaderInStart (UDPHeaderInStart + sizeof_UDP_Header_t)
               out (UDPHeaderOutStart + sizeof_UDP_Header_t)
        else Some (NO_RESPONSE, fin, out));
     if 0 < RetSize
     then do {
       UDPHeaderIN \<leftarrow> get_udp fin UDPHeaderInStart;
       out \<leftarrow> put_udp out UDPHeaderOutStart
         \<lparr>udp_SourcePort = udp_DestinationPort UDPHeaderIN,
          udp_DestinationPort = udp_SourcePort UDPHeaderIN,
          udp_Length = SwapEndian_16 False (of_int (int sizeof_UDP_Header_t + RetSize)),
          udp_Checksum = 0\<rparr>;
       Some (int sizeof_UDP_Header_t + RetSize, fin, out)
     }
     else Some (NO_RESPONSE, fin, out)
   }"


section \<open>The headers as packed headers\<close>

definition arp_ok :: "ARP_Header_t \<Rightarrow> bool" where
  "arp_ok h = (length (arp_SHA h) = 6 \<and> length (arp_SPA h) = 4 \<and> length (arp_THA h) = 6 \<and>
     length (arp_TPA h) = 4)"

definition dhcp_ok :: "DHCP_Header_t \<Rightarrow> bool" where
  "dhcp_ok h = (length (dhcp_ClientIP h) = 4 \<and> length (dhcp_YourIP h) = 4 \<and>
     length (dhcp_NextServerIP h) = 4 \<and> length (dhcp_RelayAgentIP h) = 4 \<and>
     length (dhcp_ClientHardwareAddress h) = 16 \<and> length (dhcp_ServerHostnameString h) = 64 \<and>
     length (dhcp_BootFileName h) = 128)"

interpretation arp: packed_header enc_arp dec_arp sizeof_ARP_Header_t arp_ok
proof
  fix h :: ARP_Header_t
  assume "arp_ok h"
  then show "dec_arp (enc_arp h) = h"
    by (cases h) (simp add: arp_ok_def dec_arp_def enc_arp_def le16_def at16_def)
qed (auto simp: arp_ok_def dec_arp_def enc_arp_def le16_def sizeof_ARP_Header_t_def)

interpretation icmp: packed_header enc_icmp dec_icmp sizeof_ICMP_Header_t "\<lambda>_. True"
proof
  fix h :: ICMP_Header_t
  show "dec_icmp (enc_icmp h) = h"
    by (cases h) (simp add: dec_icmp_def enc_icmp_def le16_def at16_def)
qed (auto simp: enc_icmp_def le16_def sizeof_ICMP_Header_t_def)

interpretation udp: packed_header enc_udp dec_udp sizeof_UDP_Header_t "\<lambda>_. True"
proof
  fix h :: UDP_Header_t
  show "dec_udp (enc_udp h) = h"
    by (cases h) (simp add: dec_udp_def enc_udp_def le16_def at16_def)
qed (auto simp: enc_udp_def le16_def sizeof_UDP_Header_t_def)

interpretation dhcp: packed_header enc_dhcp dec_dhcp sizeof_DHCP_Header_t dhcp_ok
proof
  fix h :: DHCP_Header_t
  assume "dhcp_ok h"
  then show "dec_dhcp (enc_dhcp h) = h"
    by (cases h) (simp add: dhcp_ok_def dec_dhcp_def enc_dhcp_def le16_def le32_def at16_def
        at32_def nth_append)
qed (auto simp: dhcp_ok_def dec_dhcp_def enc_dhcp_def le16_def le32_def sizeof_DHCP_Header_t_def)

section \<open>The option walk\<close>

text \<open>A list of options and its encoding; a message-type option carries at least one byte.\<close>

datatype dhcp_option = Pad | Option u8 bytes

fun option_ok :: "dhcp_option \<Rightarrow> bool" where
  "option_ok Pad = True"
| "option_ok (Option t d) = (t \<noteq> DHCP_OPTION_PAD \<and> t \<noteq> DHCP_OPTION_END \<and> length d < 256 \<and>
     (t = DHCP_OPTION_MESSAGETYPE \<longrightarrow> d \<noteq> []))"

fun enc_option :: "dhcp_option \<Rightarrow> bytes" where
  "enc_option Pad = [DHCP_OPTION_PAD]"
| "enc_option (Option t d) = t # of_nat (length d) # d"

text \<open>The first message-type option that asks for an address.\<close>

fun first_request :: "dhcp_option list \<Rightarrow> u8 option" where
  "first_request [] = None"
| "first_request (Pad # os) = first_request os"
| "first_request (Option t d # os) =
     (if t = DHCP_OPTION_MESSAGETYPE \<and> hd d \<in> {DHCP_MESSAGETYPE_DISCOVER, DHCP_MESSAGETYPE_REQUEST}
      then Some (hd d) else first_request os)"

lemma rd8_drop: "rd8 m (p + k) = (if k < length (drop p m) then Some (drop p m ! k) else None)"
  by (auto simp: rd8_def)

lemma dhcp_options_walk:
  assumes "list_all option_ok os" "drop p m = concat (map enc_option os) @ DHCP_OPTION_END # rest"
  shows "dhcp_options m p = Some (first_request os)"
  using assms
proof (induction os arbitrary: p)
  case Nil
  then show ?case
    using rd8_drop [of m p 0] by (subst dhcp_options.simps) simp
next
  case (Cons x os)
  show ?case
  proof (cases x)
    case Pad
    have "drop (p + 1) m = concat (map enc_option os) @ DHCP_OPTION_END # rest"
      using Cons.prems Pad drop_drop [of 1 p m] by (simp add: add.commute)
    with Cons Pad rd8_drop [of m p 0] show ?thesis
      by (subst dhcp_options.simps) (simp add: service_consts)
  next
    case (Option t d)
    then have len: "unat (of_nat (length d) :: u8) = length d"
      using Cons.prems by (simp add: unat_of_nat)
    have shape: "drop p m = t # of_nat (length d) # d @ concat (map enc_option os) @ DHCP_OPTION_END # rest"
      using Cons.prems Option by simp
    have "drop (p + (length d + 2)) m = drop (length d + 2) (drop p m)"
      by (simp add: add.commute)
    then have "drop (p + (length d + 2)) m = concat (map enc_option os) @ DHCP_OPTION_END # rest"
      unfolding shape by simp
    with Cons have ih: "dhcp_options m (p + (length d + 2)) = Some (first_request os)"
      by simp
    have "rd8 m p = Some t" "rd8 m (p + 1) = Some (of_nat (length d))"
      "d \<noteq> [] \<Longrightarrow> rd8 m (p + 2) = Some (hd d)"
      using rd8_drop [of m p 0] rd8_drop [of m p 1] rd8_drop [of m p 2] unfolding shape
      by (simp_all add: numeral_2_eq_2 hd_conv_nth nth_append)
    with Option Cons.prems show ?thesis
      using ih len by (subst dhcp_options.simps) (auto simp: add.commute)
  qed
qed


section \<open>Lemmas for the handlers\<close>

lemma le16_at16 [simp]: "le16 (at16 bs k) = [bs ! k, bs ! (k + 1)]"
  by (simp add: le16_def at16_def)

lemma echo_tail:
  assumes "i + 8 + n \<le> length m"
  shows "le16 (icmp_Id (dec_icmp (take 8 (drop i m)))) @ le16 (icmp_Sequence (dec_icmp (take 8 (drop i m)))) @
    take n (drop (i + 8) m) = take (n + 4) (drop (i + 4) m)"
proof -
  have "drop (i + 4) m = m ! (i + 4) # m ! (i + 5) # m ! (i + 6) # m ! (i + 7) # drop (i + 8) m"
    using assms by (simp add: Cons_nth_drop_Suc [symmetric] eval_nat_numeral)
  then show ?thesis
    using assms by (simp add: dec_icmp_def add.commute) (simp add: eval_nat_numeral)
qed

lemma ICMP_reply:
  assumes len: "length (FrameData F) < 2 ^ 15" "unat (FrameLength F) \<le> length (FrameData F)"
    and i: "i + 8 \<le> unat (FrameLength F)" and out: "p + (unat (FrameLength F) - i) \<le> length out"
    and echo: "FrameData F ! i = ICMP_TYPE_ECHOREQUEST"
  shows "\<exists>c out'. ICMP_ProcessICMPPacket F i out p = Some (int (unat (FrameLength F) - i), out') \<and>
    rdn out' p (unat (FrameLength F) - i) =
      Some ([0, 0] @ le16 c @ take (unat (FrameLength F) - i - 4) (drop (i + 4) (FrameData F))) \<and>
    Ethernet_Checksum16 out' p (of_nat (unat (FrameLength F) - i)) = Some 0"
proof -
  define n where "n = unat (FrameLength F) - i - 8"
  define D where "D = FrameLength F - of_nat (i + 8)"
  have N: "unat (FrameLength F) - i = n + 8"
    using i by (simp add: n_def)
  have nat_i: "unat (of_nat (i + 8) :: u16) = i + 8"
    using i len by (intro unat_u16) simp
  have D: "unat D = n"
    unfolding D_def n_def using i by (subst unat_sub) (simp_all only: word_le_nat_alt nat_i)
  have D8: "D + of_nat sizeof_ICMP_Header_t = of_nat (n + 8)"
    unfolding D [symmetric] by (simp add: sizeof_ICMP_Header_t_def)
  have small: "n + 8 < 2 ^ 15" and in_range: "i + 8 + n \<le> length (FrameData F)"
    using i len n_def by linarith+
  have U: "unat (of_nat (n + 8) :: u16) = n + 8"
    using small by (intro unat_u16) simp
  have S: "sint (of_nat (n + 8) :: u16) = int (n + 8)"
    using small sint_sbintrunc' [of "int (n + 8)", where 'a = 16]
    by (simp add: signed_take_bit_int_eq_self)
  define h where "h = dec_icmp (take 8 (drop i (FrameData F)))"
  define r where "r = \<lparr>icmp_Type = ICMP_TYPE_ECHOREPLY, icmp_Code = 0, icmp_Checksum = 0,
    icmp_Id = icmp_Id h, icmp_Sequence = icmp_Sequence h\<rparr>"
  define pl where "pl = take n (drop (i + 8) (FrameData F))"
  have len_r: "length (enc_icmp r) = 8" and len_pl: "length pl = n"
    using in_range by (auto simp: pl_def icmp.enc_length sizeof_ICMP_Header_t_def)
  obtain o1 o2 where o1: "wrn out p (enc_icmp r) = Some o1" and o2: "wrn o1 (p + 8) pl = Some o2"
    using out N len_r len_pl by (auto simp: wrn_def)
  have o2_bytes: "rdn o2 p (n + 8) = Some (enc_icmp r @ pl)"
    using wrn_append [of out p "enc_icmp r" o1 pl o2] o1 o2 len_r len_pl by (simp add: rdn_wrn)
  then have o2_range: "p + unat (of_nat (n + 8) :: u16) \<le> length o2"
    unfolding U by (simp add: rdn_def split: if_splits)
  obtain c where c: "Ethernet_Checksum16 o2 p (of_nat (n + 8)) = Some c"
    using Ethernet_Checksum16_value [OF o2_range] by auto
  have zero: "rd16 o2 (p + 2) = Some 0"
    using rd16_of_rdn [OF o2_bytes, of 2] by (simp add: enc_icmp_def r_def le16_def at16_def)
  obtain o3 where o3: "wr16 o2 (p + 2) c = Some o3"
    using zero by (auto simp: wr16_def rd16_def split: if_splits)
  have "Ethernet_Checksum16 o3 p (of_nat (n + 8)) = Some 0"
    using o2_range c zero o3 U by (intro Ethernet_Checksum16_verifies [where k = 2]) simp_all
  moreover have "rdn o3 p (n + 8) = Some ([0, 0] @ le16 c @ take (n + 4) (drop (i + 4) (FrameData F)))"
    using rdn_wr16 [OF o2_bytes o3] echo_tail [OF in_range]
    by (simp add: enc_icmp_def r_def h_def pl_def le16_def ICMP_TYPE_ECHOREPLY_def)
  moreover have "ICMP_ProcessICMPPacket F i out p = Some (int (n + 8), o3)"
    using echo in_range o1 o2 c o3 D D8 S
    by (simp add: ICMP_ProcessICMPPacket_def get_icmp_def put_icmp_def rdn_def h_def r_def pl_def
        sizeof_ICMP_Header_t_def dec_icmp_def D_def)
  ultimately show ?thesis
    unfolding N by (auto simp: add.commute)
qed


lemma ICMP_short_frame:
  assumes "length (FrameData F) = ETHERNET_FRAME_SIZE_MAX" "i \<le> 1000"
    and "unat (FrameLength F) < i + 8" "FrameData F ! i = ICMP_TYPE_ECHOREQUEST"
  shows "ICMP_ProcessICMPPacket F i out p = None"
proof -
  have i: "unat (of_nat (i + 8) :: u16) = i + 8"
    using assms(2) by (intro unat_u16) simp
  have "\<not> (of_nat (i + 8) :: u16) \<le> FrameLength F"
    using assms(3) unfolding word_le_nat_alt i by simp
  then have "unat (FrameLength F - of_nat (i + 8)) = 2 ^ 16 + unat (FrameLength F) - (i + 8)"
    using unat_sub_if' [of "FrameLength F" "of_nat (i + 8)"] i by (simp add: word_le_nat_alt)
  then have "length (FrameData F) < i + 8 + unat (FrameLength F - of_nat (i + 8))"
    using assms(1) by (simp add: ETHERNET_FRAME_SIZE_MAX_def)
  then show ?thesis
    by (auto simp: ICMP_ProcessICMPPacket_def rdn_def sizeof_ICMP_Header_t_def get_icmp_def
        dec_icmp_def bind_eq_None_conv Let_def assms(4))
qed


lemma dhcp_options_padding:
  assumes "\<forall>k. p \<le> k \<and> k < length m \<longrightarrow> m ! k = DHCP_OPTION_PAD"
  shows "dhcp_options m p = None"
  using assms
proof (induction m p rule: dhcp_options.induct)
  case (1 m p)
  show ?case
  proof (cases "p < length m")
    case True
    then have "m ! p = DHCP_OPTION_PAD"
      using "1.prems" by simp
    then show ?thesis
      using True "1.prems" "1.IH"(1) [of DHCP_OPTION_PAD None]
      by (subst dhcp_options.simps) (simp add: rd8_def service_consts)
  qed (subst dhcp_options.simps, simp add: rd8_def)
qed

lemma DHCP_reply_header_ok: "dhcp_ok h \<Longrightarrow> dhcp_ok (DHCP_reply_header h)"
  by (simp add: dhcp_ok_def DHCP_reply_header_def)

lemma drop_wrn: "wrn m i bs = Some m' \<Longrightarrow> i + length bs \<le> j \<Longrightarrow> drop j m' = drop j m"
  by (auto simp: wrn_def min.absorb1 split: if_splits)

lemma DHCP_reply:
  assumes h: "get_dhcp fin d = Some h" and ip: "ip + 20 \<le> d" and out: "p + 256 \<le> length out"
    and os: "list_all option_ok os"
    and opts: "drop (d + 240) fin = concat (map enc_option os) @ DHCP_OPTION_END # rest"
  shows "\<exists>fin' out'. rdn fin' (ip + 12) 8 = Some (ClientIPAddress @ ServerIPAddress) \<and>
    get_dhcp out' p = Some (DHCP_reply_header h) \<and>
    (case first_request os of
       None \<Rightarrow> DHCP_ProcessDHCPPacket fin ip d out p = Some (NO_RESPONSE, fin', out')
     | Some t \<Rightarrow> DHCP_ProcessDHCPPacket fin ip d out p = Some (256, fin', out') \<and>
         rdn out' (p + 240) 16 = Some (dhcp_reply_options t))"
proof -
  have d: "d + 240 \<le> length fin" and h_ok: "dhcp_ok h"
    using h dhcp.get_ok [of fin d h] by (auto simp: get_dhcp_def rdn_def sizeof_DHCP_Header_t_def split: if_splits)
  let ?r = "DHCP_reply_header h"
  obtain o1 where o1: "put_dhcp out p ?r = Some o1"
    using dhcp.put_defined [OF _ DHCP_reply_header_ok [OF h_ok]] out
    by (force simp: put_dhcp_def sizeof_DHCP_Header_t_def)
  obtain f1 f2 where f1: "wrn fin (ip + 12) ClientIPAddress = Some f1"
    and f2: "wrn f1 (ip + 16) ServerIPAddress = Some f2"
    using ip d by (auto simp: wrn_def)
  have "wrn fin (ip + 12) (ClientIPAddress @ ServerIPAddress) = Some f2"
    using wrn_append [OF f1, of ServerIPAddress f2] f2 by (simp add: add.assoc)
  then have addr: "rdn f2 (ip + 12) 8 = Some (ClientIPAddress @ ServerIPAddress)"
    by (rule rdn_wrn) simp
  have walk: "dhcp_options f2 (d + 240) = Some (first_request os)"
    using os opts ip drop_wrn [OF f1, of "d + 240"] drop_wrn [OF f2, of "d + 240"]
    by (intro dhcp_options_walk [where rest = rest]) simp_all
  have hdr: "get_dhcp o1 p = Some ?r"
    using o1 dhcp.get_put DHCP_reply_header_ok [OF h_ok] by (simp add: put_dhcp_def get_dhcp_def)
  show ?thesis
  proof (cases "first_request os")
    case None
    then show ?thesis
      using h o1 f1 f2 walk addr hdr
      by (intro exI [of _ f2] exI [of _ o1]) (simp add: DHCP_ProcessDHCPPacket_def sizeof_DHCP_Header_t_def)
  next
    case (Some t)
    have len: "length (dhcp_reply_options t) = 16" "length o1 = length out"
      using o1 by (auto simp: dhcp_reply_options_def put_dhcp_def length_wrn)
    then obtain o2 where o2: "wrn o1 (p + 240) (dhcp_reply_options t) = Some o2"
      using out by (simp add: wrn_def)
    have "get_dhcp o2 p = Some ?r"
      using hdr rdn_wrn_before [OF o2, of p 240] by (simp add: get_dhcp_def sizeof_DHCP_Header_t_def)
    moreover have "rdn o2 (p + 240) 16 = Some (dhcp_reply_options t)"
      using rdn_wrn [OF o2] len by simp
    ultimately show ?thesis
      using Some h o1 f1 f2 walk addr o2
      by (intro exI [of _ f2] exI [of _ o2]) (simp add: DHCP_ProcessDHCPPacket_def sizeof_DHCP_Header_t_def)
  qed
qed


text \<open>An ARP packet, in the order of its bytes on the wire, that asks for the server.\<close>

definition arp_asks :: "bytes \<Rightarrow> bool" where
  "arp_asks bs = (take 2 (drop 2 bs) = [0x08, 0x00] \<and> take 2 (drop 6 bs) = [0x00, 0x01] \<and>
     (take 4 (drop 24 bs) = ServerIPAddress \<or> take 6 (drop 18 bs) = ServerMACAddress))"

lemma swapped_eq: "word16_of b a = w \<longleftrightarrow> b = byte0 w \<and> a = byte1 w"
  by auto

lemma take_2_drop: "k + 1 < length bs \<Longrightarrow> take 2 (drop k bs) = [bs ! k, bs ! (k + 1)]"
  by (simp add: eval_nat_numeral Cons_nth_drop_Suc [symmetric])

lemma arp_const_bytes:
  "byte0 (0x0800 :: u16) = 0" "byte1 (0x0800 :: u16) = 8" "byte0 (1 :: u16) = 1" "byte1 (1 :: u16) = 0"
  "byte0 (2 :: u16) = 2" "byte1 (2 :: u16) = 0"
  by (simp_all add: byte0_def byte1_def)

lemma arp_test:
  assumes "length bs = 28"
  shows "(SwapEndian_16 False (arp_ProtocolType (dec_arp bs)) = ETHERTYPE_IPV4 \<and>
      SwapEndian_16 False (arp_Operation (dec_arp bs)) = ARP_OPERATION_REQUEST \<and>
      (IP_COMPARE (arp_TPA (dec_arp bs)) ServerIPAddress \<or>
       MAC_COMPARE (arp_THA (dec_arp bs)) ServerMACAddress)) = arp_asks bs"
  using assms
  by (auto simp: arp_asks_def dec_arp_def at16_def swapped_eq take_2_drop net_consts
      ARP_OPERATION_REQUEST_def arp_const_bytes)

lemma arp_reply_bytes:
  assumes "length bs = 28"
  shows "enc_arp \<lparr>arp_HardwareType = arp_HardwareType (dec_arp bs),
      arp_ProtocolType = arp_ProtocolType (dec_arp bs), arp_HLEN = arp_HLEN (dec_arp bs),
      arp_PLEN = arp_PLEN (dec_arp bs), arp_Operation = SwapEndian_16 True ARP_OPERATION_REPLY,
      arp_SHA = ServerMACAddress, arp_SPA = ServerIPAddress,
      arp_THA = arp_SHA (dec_arp bs), arp_TPA = arp_SPA (dec_arp bs)\<rparr> =
    take 6 bs @ [0x00, 0x02] @ ServerMACAddress @ ServerIPAddress @ take 10 (drop 8 bs)"
proof -
  have "take 6 bs = [bs ! 0, bs ! 1, bs ! 2, bs ! 3, bs ! 4, bs ! 5]"
    using assms by (simp add: eval_nat_numeral take_Suc_conv_app_nth)
  moreover have "take 10 (drop 8 bs) = take 6 (drop 8 bs) @ take 4 (drop 14 bs)"
    using take_add [of 6 4 "drop 8 bs"] by simp
  ultimately show ?thesis
    by (simp add: enc_arp_def dec_arp_def ARP_OPERATION_REPLY_def arp_const_bytes)
      (simp add: le16_def)
qed

section \<open>Properties\<close>

text \<open>
  C23. ARP: a packet is answered exactly when it is an IPv4 request for the server's protocol or
  hardware address; the answer is the request's first six bytes, the reply operation, the
  server's addresses, and the requester's addresses as the target.  Any other packet leaves the
  outgoing buffer alone.
\<close>

theorem arp_answers:
  assumes "rdn fin i 28 = Some bs" "p + 28 \<le> length out"
  shows "if arp_asks bs
    then \<exists>out'. ARP_ProcessARPPacket fin i out p = Some (28, out') \<and>
      rdn out' p 28 = Some (take 6 bs @ [0x00, 0x02] @ ServerMACAddress @ ServerIPAddress @
        take 10 (drop 8 bs))
    else ARP_ProcessARPPacket fin i out p = Some (NO_RESPONSE, out)"
proof -
  have len: "length bs = 28"
    using assms(1) by (rule length_rdn)
  have get: "get_arp fin i = Some (dec_arp bs)"
    using assms(1) by (simp add: get_arp_def sizeof_ARP_Header_t_def)
  let ?r = "take 6 bs @ [0x00, 0x02] @ ServerMACAddress @ ServerIPAddress @ take 10 (drop 8 bs)"
  obtain out' where out': "wrn out p ?r = Some out'"
    using assms(2) len by (simp add: wrn_def)
  have "rdn out' p 28 = Some ?r"
    using len by (intro rdn_wrn [OF out']) simp
  with out' show ?thesis
    unfolding ARP_ProcessARPPacket_def get bind.bind_lunit put_arp_def arp_test [OF len]
      arp_reply_bytes [OF len]
    by (simp add: sizeof_ARP_Header_t_def)
qed

definition arp_sample :: bytes where
  "arp_sample = [0, 1, 8, 0, 6, 4, 0, 1, 2, 0, 2, 0, 2, 0, 10, 0, 0, 1, 0, 0, 0, 0, 0, 0, 10, 0, 0, 2]"

theorem arp_answers_witness:
  "rdn arp_sample 0 28 = Some arp_sample \<and> 0 + 28 \<le> length (replicate 28 (0 :: u8)) \<and>
   arp_asks arp_sample \<and>
   (\<exists>out'. ARP_ProcessARPPacket arp_sample 0 (replicate 28 0) 0 = Some (28, out') \<and>
      rdn out' 0 28 = Some (take 6 arp_sample @ [0x00, 0x02] @ ServerMACAddress @ ServerIPAddress @
        take 10 (drop 8 arp_sample)))"
proof -
  have "rdn arp_sample 0 28 = Some arp_sample" "arp_asks arp_sample"
    by (simp_all add: arp_sample_def rdn_def arp_asks_def net_consts)
  with arp_answers [of arp_sample 0 arp_sample 0 "replicate 28 0"] show ?thesis
    by simp
qed

text \<open>
  C24. ICMP: an echo request that lies inside its frame is answered with type and code zero, a
  checksum, and the request's bytes from the identifier on; the returned size is the request's.
  The answer passes the Internet checksum test exactly when its length is even or its last byte
  is zero, because \<^verbatim>\<open>Ethernet_Checksum16\<close> leaves out a trailing byte.
\<close>

theorem icmp_echo_reply:
  assumes "length (FrameData F) = ETHERNET_FRAME_SIZE_MAX"
    and "unat (FrameLength F) \<le> ETHERNET_FRAME_SIZE_MAX"
    and "i + 8 \<le> unat (FrameLength F)" "p + (unat (FrameLength F) - i) \<le> length out"
    and "FrameData F ! i = ICMP_TYPE_ECHOREQUEST"
  shows "\<exists>c out' bs.
    ICMP_ProcessICMPPacket F i out p = Some (int (unat (FrameLength F) - i), out') \<and>
    rdn out' p (unat (FrameLength F) - i) = Some bs \<and>
    bs = [0, 0] @ le16 c @ take (unat (FrameLength F) - i - 4) (drop (i + 4) (FrameData F)) \<and>
    (inet_valid bs \<longleftrightarrow> even (unat (FrameLength F) - i) \<or> last bs = 0)"
proof -
  let ?n = "unat (FrameLength F) - i"
  have "length (FrameData F) < 2 ^ 15" "unat (FrameLength F) \<le> length (FrameData F)"
    using assms(1,2) by (simp_all add: ETHERNET_FRAME_SIZE_MAX_def)
  from ICMP_reply [OF this assms(3,4,5)] obtain c out' where
    *: "ICMP_ProcessICMPPacket F i out p = Some (int ?n, out')"
      "rdn out' p ?n = Some ([0, 0] @ le16 c @ take (?n - 4) (drop (i + 4) (FrameData F)))"
      "Ethernet_Checksum16 out' p (of_nat ?n) = Some 0"
    by blast
  have "unat (of_nat ?n :: u16) = ?n"
    using assms(2) by (intro unat_u16) (simp add: ETHERNET_FRAME_SIZE_MAX_def)
  then have "inet_valid bs \<longleftrightarrow> even ?n \<or> last bs = 0" if "rdn out' p ?n = Some bs" for bs
    using inet_valid_iff [of out' p "of_nat ?n" bs] *(3) that length_rdn [OF that] by simp
  with * show ?thesis
    by blast
qed

definition ping_sample :: Ethernet_Frame_Info_t where
  "ping_sample = \<lparr>FrameData = replicate 34 0 @ [8, 0, 0, 0, 1, 0, 2, 0, 7] @ replicate 1457 0,
     FrameLength = 43\<rparr>"

theorem icmp_echo_reply_witness:
  "length (FrameData ping_sample) = ETHERNET_FRAME_SIZE_MAX \<and>
   unat (FrameLength ping_sample) \<le> ETHERNET_FRAME_SIZE_MAX \<and>
   34 + 8 \<le> unat (FrameLength ping_sample) \<and>
   34 + (unat (FrameLength ping_sample) - 34) \<le> length (replicate 60 (0 :: u8)) \<and>
   FrameData ping_sample ! 34 = ICMP_TYPE_ECHOREQUEST \<and>
   (\<exists>c out' bs.
      ICMP_ProcessICMPPacket ping_sample 34 (replicate 60 0) 34 =
        Some (int (unat (FrameLength ping_sample) - 34), out') \<and>
      rdn out' 34 (unat (FrameLength ping_sample) - 34) = Some bs \<and>
      bs = [0, 0] @ le16 c @ take (unat (FrameLength ping_sample) - 34 - 4)
        (drop (34 + 4) (FrameData ping_sample)) \<and>
      (inet_valid bs \<longleftrightarrow> even (unat (FrameLength ping_sample) - 34) \<or> last bs = 0))"
proof -
  have "length (FrameData ping_sample) = ETHERNET_FRAME_SIZE_MAX"
    "unat (FrameLength ping_sample) \<le> ETHERNET_FRAME_SIZE_MAX"
    "34 + 8 \<le> unat (FrameLength ping_sample)"
    "34 + (unat (FrameLength ping_sample) - 34) \<le> length (replicate 60 (0 :: u8))"
    "FrameData ping_sample ! 34 = ICMP_TYPE_ECHOREQUEST"
    by (simp_all add: ping_sample_def ETHERNET_FRAME_SIZE_MAX_def ICMP_TYPE_ECHOREQUEST_def nth_append)
  with icmp_echo_reply [OF this] show ?thesis
    by blast
qed

text \<open>
  C25. DHCP: for a request whose options are well formed and end with the end option, the handler
  writes the reply header and the corrected addresses, and answers with an offer to the first
  discover, or an acknowledgement to the first request, among its message-type options; with
  neither it returns no response.
\<close>

theorem dhcp_answers:
  assumes "get_dhcp fin d = Some h" "ip + 20 \<le> d" "p + 256 \<le> length out"
    and "list_all option_ok os"
    and "drop (d + 240) fin = concat (map enc_option os) @ DHCP_OPTION_END # rest"
  shows "\<exists>fin' out'. rdn fin' (ip + 12) 8 = Some (ClientIPAddress @ ServerIPAddress) \<and>
    get_dhcp out' p = Some (DHCP_reply_header h) \<and>
    DHCP_ProcessDHCPPacket fin ip d out p =
      Some (if first_request os = None then NO_RESPONSE else 256, fin', out') \<and>
    (\<forall>t. first_request os = Some t \<longrightarrow> rdn out' (p + 240) 16 =
      Some [53, 1, if t = DHCP_MESSAGETYPE_DISCOVER then 2 else 5, 1, 4, 255, 255, 255, 0,
            54, 4, 10, 0, 0, 2, 255])"
  using DHCP_reply [OF assms]
  by (auto simp: dhcp_reply_options_def service_consts net_consts split: option.splits)


definition dhcp_sample :: bytes where
  "dhcp_sample = replicate 282 0 @ [53, 1, 1, 255]"

theorem dhcp_answers_witness:
  "get_dhcp dhcp_sample 42 = Some (dec_dhcp (replicate 240 0)) \<and>
   (14 :: nat) + 20 \<le> 42 \<and> 42 + 256 \<le> length (replicate 300 (0 :: u8)) \<and>
   list_all option_ok [Option 53 [1]] \<and>
   drop (42 + 240) dhcp_sample = concat (map enc_option [Option 53 [1]]) @ DHCP_OPTION_END # [] \<and>
   (\<exists>fin' out'. rdn fin' (14 + 12) 8 = Some (ClientIPAddress @ ServerIPAddress) \<and>
    get_dhcp out' 42 = Some (DHCP_reply_header (dec_dhcp (replicate 240 0))) \<and>
    DHCP_ProcessDHCPPacket dhcp_sample 14 42 (replicate 300 0) 42 =
      Some (if first_request [Option 53 [1]] = None then NO_RESPONSE else 256, fin', out') \<and>
    (\<forall>t. first_request [Option 53 [1]] = Some t \<longrightarrow> rdn out' (42 + 240) 16 =
      Some [53, 1, if t = DHCP_MESSAGETYPE_DISCOVER then 2 else 5, 1, 4, 255, 255, 255, 0,
            54, 4, 10, 0, 0, 2, 255]))"
proof -
  have "get_dhcp dhcp_sample 42 = Some (dec_dhcp (replicate 240 0))"
    "(14 :: nat) + 20 \<le> 42" "42 + 256 \<le> length (replicate 300 (0 :: u8))"
    "list_all option_ok [Option 53 [1]]"
    "drop (42 + 240) dhcp_sample = concat (map enc_option [Option 53 [1]]) @ DHCP_OPTION_END # []"
    by (simp_all add: dhcp_sample_def get_dhcp_def rdn_def sizeof_DHCP_Header_t_def service_consts)
  with dhcp_answers [OF this] show ?thesis
    by blast
qed

end
