(* ===== verification/Net_TCP.thy ===== *)
theory Net_TCP
  imports Net_Frames
begin

text \<open>
  \<^verbatim>\<open>TCP.c\<close> and \<^verbatim>\<open>TCP.h\<close> of the RNDIS network demo: the port and connection tables, the
  processing of a segment, the task that runs the applications and sends their data, and the TCP
  checksum.  The module's global tables are the record \<open>tcp\<close>; its last field is the static state
  of the applications, which the registered callbacks read and write.  The tables are arrays of
  fixed size, so a loop over a table is a recursion over the list; a pointer to the \<^verbatim>\<open>Info\<close>
  member of a table entry is the index of the entry, and following the null pointer that
  \<^verbatim>\<open>TCP_GetConnectionInfo\<close> may return has no result.
\<close>

section \<open>Constants and structures\<close>

definition MAX_OPEN_TCP_PORTS :: nat where
  "MAX_OPEN_TCP_PORTS = 1"

definition MAX_TCP_CONNECTIONS :: nat where
  "MAX_TCP_CONNECTIONS = 3"

definition TCP_WINDOW_SIZE :: u16 where
  "TCP_WINDOW_SIZE = 512"

definition TCP_PACKETDIR_IN :: bool where
  "TCP_PACKETDIR_IN = False"

definition TCP_PACKETDIR_OUT :: bool where
  "TCP_PACKETDIR_OUT = True"

definition TCP_FLAG_ACK :: u8 where
  "TCP_FLAG_ACK = push_bit 4 1"

definition TCP_FLAG_PSH :: u8 where
  "TCP_FLAG_PSH = push_bit 3 1"

definition TCP_FLAG_RST :: u8 where
  "TCP_FLAG_RST = push_bit 2 1"

definition TCP_FLAG_SYN :: u8 where
  "TCP_FLAG_SYN = push_bit 1 1"

definition TCP_FLAG_FIN :: u8 where
  "TCP_FLAG_FIN = push_bit 0 1"

lemmas tcp_flags = TCP_FLAG_ACK_def TCP_FLAG_PSH_def TCP_FLAG_RST_def TCP_FLAG_SYN_def TCP_FLAG_FIN_def

datatype TCP_PortStates_t = TCP_Port_Closed | TCP_Port_Open

datatype TCP_ConnectionStates_t =
    TCP_Connection_Listen
  | TCP_Connection_SYNSent
  | TCP_Connection_SYNReceived
  | TCP_Connection_Established
  | TCP_Connection_FINWait1
  | TCP_Connection_FINWait2
  | TCP_Connection_CloseWait
  | TCP_Connection_Closing
  | TCP_Connection_LastACK
  | TCP_Connection_TimeWait
  | TCP_Connection_Closed

record TCP_ConnectionBuffer_t =
  buf_Length :: u16
  buf_Data :: bytes
  buf_Direction :: bool
  buf_Ready :: bool
  buf_InUse :: bool

record TCP_ConnectionInfo_t =
  SequenceNumberIn :: u32
  SequenceNumberOut :: u32
  Buffer :: TCP_ConnectionBuffer_t

record TCP_ConnectionState_t =
  cs_Port :: u16
  cs_RemotePort :: u16
  cs_RemoteAddress :: IP_Address_t
  cs_Info :: TCP_ConnectionInfo_t
  cs_State :: TCP_ConnectionStates_t

type_synonym 'a app_handler = "TCP_ConnectionState_t \<Rightarrow> 'a \<Rightarrow> (TCP_ConnectionState_t \<times> 'a) option"

record 'a TCP_PortState_t =
  ps_Port :: u16
  ps_State :: TCP_PortStates_t
  ps_ApplicationHandler :: "'a app_handler option"

record 'a tcp =
  PortStateTable :: "'a TCP_PortState_t list"
  ConnectionStateTable :: "TCP_ConnectionState_t list"
  App :: 'a

record TCP_Header_t =
  tcp_SourcePort :: u16
  tcp_DestinationPort :: u16
  tcp_SequenceNumber :: u32
  tcp_AcknowledgmentNumber :: u32
  tcp_Reserved :: "4 word"
  tcp_DataOffset :: "4 word"
  tcp_Flags :: u8
  tcp_WindowSize :: u16
  tcp_Checksum :: u16
  tcp_UrgentPointer :: u16

definition sizeof_TCP_Header_t :: nat where
  "sizeof_TCP_Header_t = 20"

definition enc_tcp :: "TCP_Header_t \<Rightarrow> bytes" where
  "enc_tcp h = le16 (tcp_SourcePort h) @ le16 (tcp_DestinationPort h) @
     le32 (tcp_SequenceNumber h) @ le32 (tcp_AcknowledgmentNumber h) @
     [ucast (tcp_Reserved h) OR push_bit 4 (ucast (tcp_DataOffset h)), tcp_Flags h] @
     le16 (tcp_WindowSize h) @ le16 (tcp_Checksum h) @ le16 (tcp_UrgentPointer h)"

definition dec_tcp :: "bytes \<Rightarrow> TCP_Header_t" where
  "dec_tcp bs = \<lparr>tcp_SourcePort = at16 bs 0, tcp_DestinationPort = at16 bs 2,
     tcp_SequenceNumber = at32 bs 4, tcp_AcknowledgmentNumber = at32 bs 8,
     tcp_Reserved = ucast (bs ! 12), tcp_DataOffset = ucast (drop_bit 4 (bs ! 12)),
     tcp_Flags = bs ! 13, tcp_WindowSize = at16 bs 14, tcp_Checksum = at16 bs 16,
     tcp_UrgentPointer = at16 bs 18\<rparr>"

definition get_tcp :: "bytes \<Rightarrow> nat \<Rightarrow> TCP_Header_t option" where
  "get_tcp m i = map_option dec_tcp (rdn m i sizeof_TCP_Header_t)"

definition put_tcp :: "bytes \<Rightarrow> nat \<Rightarrow> TCP_Header_t \<Rightarrow> bytes option" where
  "put_tcp m i h = wrn m i (enc_tcp h)"

section \<open>The tables\<close>

text \<open>The index of the first entry that satisfies a test: the search loops of the module.\<close>

fun first_index :: "('e \<Rightarrow> bool) \<Rightarrow> 'e list \<Rightarrow> nat option" where
  "first_index P [] = None"
| "first_index P (x # xs) = (if P x then Some 0 else map_option Suc (first_index P xs))"

definition TCP_Init :: "'a tcp \<Rightarrow> 'a tcp" where
  "TCP_Init t = t\<lparr>
     PortStateTable := map (\<lambda>p. p\<lparr>ps_State := TCP_Port_Closed\<rparr>) (PortStateTable t),
     ConnectionStateTable := map (\<lambda>c. c\<lparr>cs_State := TCP_Connection_Closed\<rparr>) (ConnectionStateTable t)\<rparr>"

definition TCP_SetPortState ::
    "u16 \<Rightarrow> TCP_PortStates_t \<Rightarrow> 'a app_handler option \<Rightarrow> 'a tcp \<Rightarrow> bool \<times> 'a tcp" where
  "TCP_SetPortState Port State Handler t =
     (case first_index (\<lambda>p. ps_Port p = Port) (PortStateTable t) of
        Some i \<Rightarrow>
          (True, t\<lparr>PortStateTable := (PortStateTable t)
             [i := (PortStateTable t ! i)\<lparr>ps_State := State, ps_ApplicationHandler := Handler\<rparr>]\<rparr>)
      | None \<Rightarrow>
          if State = TCP_Port_Open
          then case first_index (\<lambda>p. ps_State p = TCP_Port_Closed) (PortStateTable t) of
                 Some i \<Rightarrow>
                   (True, t\<lparr>PortStateTable := (PortStateTable t)
                      [i := (PortStateTable t ! i)
                        \<lparr>ps_Port := Port, ps_State := State, ps_ApplicationHandler := Handler\<rparr>]\<rparr>)
               | None \<Rightarrow> (False, t)
          else (True, t))"

definition TCP_GetPortState :: "u16 \<Rightarrow> 'a tcp \<Rightarrow> TCP_PortStates_t" where
  "TCP_GetPortState Port t =
     (case first_index (\<lambda>p. ps_Port p = Port) (PortStateTable t) of
        Some i \<Rightarrow> ps_State (PortStateTable t ! i)
      | None \<Rightarrow> TCP_Port_Closed)"

text \<open>The test the three connection functions share.\<close>

definition is_connection :: "u16 \<Rightarrow> IP_Address_t \<Rightarrow> u16 \<Rightarrow> TCP_ConnectionState_t \<Rightarrow> bool" where
  "is_connection Port RemoteAddress RemotePort c =
     (cs_Port c = Port \<and> IP_COMPARE (cs_RemoteAddress c) RemoteAddress \<and> cs_RemotePort c = RemotePort)"

definition TCP_SetConnectionState ::
    "u16 \<Rightarrow> IP_Address_t \<Rightarrow> u16 \<Rightarrow> TCP_ConnectionStates_t \<Rightarrow> 'a tcp \<Rightarrow> bool \<times> 'a tcp" where
  "TCP_SetConnectionState Port RemoteAddress RemotePort State t =
     (case first_index (is_connection Port RemoteAddress RemotePort) (ConnectionStateTable t) of
        Some i \<Rightarrow>
          (True, t\<lparr>ConnectionStateTable := (ConnectionStateTable t)
             [i := (ConnectionStateTable t ! i)\<lparr>cs_State := State\<rparr>]\<rparr>)
      | None \<Rightarrow>
          (case first_index (\<lambda>c. cs_State c = TCP_Connection_Closed) (ConnectionStateTable t) of
             Some i \<Rightarrow>
               (True, t\<lparr>ConnectionStateTable := (ConnectionStateTable t)
                  [i := (ConnectionStateTable t ! i)
                    \<lparr>cs_Port := Port, cs_RemotePort := RemotePort,
                     cs_RemoteAddress := RemoteAddress, cs_State := State\<rparr>]\<rparr>)
           | None \<Rightarrow> (False, t)))"

definition TCP_GetConnectionState ::
    "u16 \<Rightarrow> IP_Address_t \<Rightarrow> u16 \<Rightarrow> 'a tcp \<Rightarrow> TCP_ConnectionStates_t" where
  "TCP_GetConnectionState Port RemoteAddress RemotePort t =
     (case first_index (is_connection Port RemoteAddress RemotePort) (ConnectionStateTable t) of
        Some i \<Rightarrow> cs_State (ConnectionStateTable t ! i)
      | None \<Rightarrow> TCP_Connection_Closed)"

definition TCP_GetConnectionInfo :: "u16 \<Rightarrow> IP_Address_t \<Rightarrow> u16 \<Rightarrow> 'a tcp \<Rightarrow> nat option" where
  "TCP_GetConnectionInfo Port RemoteAddress RemotePort t =
     first_index (is_connection Port RemoteAddress RemotePort) (ConnectionStateTable t)"

text \<open>A store through a connection information pointer.\<close>

definition upd_info :: "nat \<Rightarrow> (TCP_ConnectionInfo_t \<Rightarrow> TCP_ConnectionInfo_t) \<Rightarrow> 'a tcp \<Rightarrow> 'a tcp" where
  "upd_info i f t = t\<lparr>ConnectionStateTable := (ConnectionStateTable t)
     [i := (ConnectionStateTable t ! i)\<lparr>cs_Info := f (cs_Info (ConnectionStateTable t ! i))\<rparr>]\<rparr>"

abbreviation info_at :: "nat \<Rightarrow> 'a tcp \<Rightarrow> TCP_ConnectionInfo_t" where
  "info_at i t \<equiv> cs_Info (ConnectionStateTable t ! i)"

section \<open>The checksum\<close>

definition TCP_Checksum16 :: "bytes \<Rightarrow> nat \<Rightarrow> IP_Address_t \<Rightarrow> IP_Address_t \<Rightarrow> u16 \<Rightarrow> u16 option" where
  "TCP_Checksum16 m TCPHeaderOutStart SourceAddress DestinationAddress TCPOutSize = do {
     let Checksum = 0;
     let Checksum = Checksum + ucast (at16 SourceAddress 0);
     let Checksum = Checksum + ucast (at16 SourceAddress 2);
     let Checksum = Checksum + ucast (at16 DestinationAddress 0);
     let Checksum = Checksum + ucast (at16 DestinationAddress 2);
     let Checksum = Checksum + ucast (SwapEndian_16 True (ucast PROTOCOL_TCP));
     let Checksum = Checksum + ucast (SwapEndian_16 False TCPOutSize);
     Checksum \<leftarrow> checksum_words m TCPHeaderOutStart (unat (drop_bit 1 TCPOutSize)) Checksum;
     Checksum \<leftarrow> (if TCPOutSize AND 1 \<noteq> 0
       then do {
         w \<leftarrow> rd16 m (TCPHeaderOutStart + 2 * unat (drop_bit 1 TCPOutSize));
         Some (Checksum + ucast (w AND 0x00FF))
       }
       else Some Checksum);
     Some (ucast (NOT (fold_carry Checksum)))
   }"

section \<open>Processing a segment\<close>

text \<open>
  What a part of \<^verbatim>\<open>TCP_ProcessTCPPacket\<close> does: it returns a value to the caller, or goes on with
  \<^verbatim>\<open>PacketResponse\<close>.  The outgoing buffer carries the flags byte (offset 13 of the header) that
  the branches store.
\<close>

datatype 'a tcp_flow = Return int "'a tcp" bytes | Continue bool "'a tcp" bytes

definition TCP_receive_data ::
    "bytes \<Rightarrow> IP_Header_t \<Rightarrow> nat \<Rightarrow> TCP_Header_t \<Rightarrow> nat \<Rightarrow> 'a tcp \<Rightarrow> bytes \<Rightarrow> nat \<Rightarrow> 'a tcp_flow option" where
  "TCP_receive_data fin IPHeaderIN TCPHeaderInStart TCPHeaderIN ci t out TCPHeaderOutStart = do {
     let t = (if \<not> buf_InUse (Buffer (info_at ci t)) \<and> \<not> buf_Ready (Buffer (info_at ci t))
              then upd_info ci (\<lambda>inf. inf\<lparr>Buffer := (Buffer inf)
                \<lparr>buf_Direction := TCP_PACKETDIR_IN, buf_InUse := True, buf_Length := 0\<rparr>\<rparr>) t
              else t);
     let b = Buffer (info_at ci t);
     if buf_Direction b = TCP_PACKETDIR_IN \<and> buf_Length b \<noteq> TCP_WINDOW_SIZE
     then do {
       let IPOffset = ucast (ip_HeaderLength IPHeaderIN) * 4;
       let TCPOffset = ucast (tcp_DataOffset TCPHeaderIN) * 4;
       let DataLength = SwapEndian_16 False (ip_TotalLength IPHeaderIN) - IPOffset - TCPOffset;
       payload \<leftarrow> rdn fin (TCPHeaderInStart + unat TCPOffset) (unat DataLength);
       Data \<leftarrow> wrn (buf_Data b) (unat (buf_Length b)) payload;
       let t = upd_info ci (\<lambda>inf. inf
         \<lparr>SequenceNumberIn := SequenceNumberIn inf + ucast DataLength,
          Buffer := (Buffer inf)\<lparr>buf_Data := Data, buf_Length := buf_Length b + DataLength\<rparr>\<rparr>) t;
       if TCP_WINDOW_SIZE - (buf_Length b + DataLength) = 0 \<or> tcp_Flags TCPHeaderIN AND TCP_FLAG_PSH \<noteq> 0
       then do {
         out \<leftarrow> wr8 out (TCPHeaderOutStart + 13) TCP_FLAG_ACK;
         Some (Continue True
           (upd_info ci (\<lambda>inf. inf\<lparr>Buffer := (Buffer inf)\<lparr>buf_InUse := False, buf_Ready := True\<rparr>\<rparr>) t) out)
       }
       else Some (Continue False t out)
     }
     else Some (Return NO_PROCESS t out)
   }"


text \<open>The switch over the connection's state; \<open>P\<close>, \<open>A\<close> and \<open>R\<close> are the destination port, the
  source address and the source port of the segment, which every call in it passes on.\<close>

definition TCP_state_switch ::
    "bytes \<Rightarrow> IP_Header_t \<Rightarrow> nat \<Rightarrow> TCP_Header_t \<Rightarrow> 'a tcp \<Rightarrow> bytes \<Rightarrow> nat \<Rightarrow> 'a tcp_flow option" where
  "TCP_state_switch fin IPHeaderIN TCPHeaderInStart TCPHeaderIN t out TCPHeaderOutStart =
     (let P = tcp_DestinationPort TCPHeaderIN; A = ip_SourceAddress IPHeaderIN;
          R = tcp_SourcePort TCPHeaderIN; Flags = tcp_Flags TCPHeaderIN
      in case TCP_GetConnectionState P A R t of
        TCP_Connection_Listen \<Rightarrow>
          if Flags = TCP_FLAG_SYN
          then (case TCP_SetConnectionState P A R TCP_Connection_SYNReceived t of
              (True, t) \<Rightarrow> do {
                out \<leftarrow> wr8 out (TCPHeaderOutStart + 13) (TCP_FLAG_SYN OR TCP_FLAG_ACK);
                ci \<leftarrow> TCP_GetConnectionInfo P A R t;
                Some (Continue True
                  (upd_info ci (\<lambda>inf. inf
                    \<lparr>SequenceNumberIn := SwapEndian_32 False (tcp_SequenceNumber TCPHeaderIN) + 1,
                     SequenceNumberOut := 0,
                     Buffer := (Buffer inf)\<lparr>buf_InUse := False\<rparr>\<rparr>) t) out)
              }
            | (False, t) \<Rightarrow> do {
                out \<leftarrow> wr8 out (TCPHeaderOutStart + 13) TCP_FLAG_RST;
                Some (Continue True t out)
              })
          else Some (Continue False t out)
      | TCP_Connection_SYNReceived \<Rightarrow>
          if Flags = TCP_FLAG_ACK
          then do {
            let t = snd (TCP_SetConnectionState P A R TCP_Connection_Established t);
            ci \<leftarrow> TCP_GetConnectionInfo P A R t;
            Some (Continue False
              (upd_info ci (\<lambda>inf. inf\<lparr>SequenceNumberOut := SequenceNumberOut inf + 1\<rparr>) t) out)
          }
          else Some (Continue False t out)
      | TCP_Connection_Established \<Rightarrow>
          if Flags = TCP_FLAG_FIN OR TCP_FLAG_ACK
          then do {
            out \<leftarrow> wr8 out (TCPHeaderOutStart + 13) (TCP_FLAG_FIN OR TCP_FLAG_ACK);
            let t = snd (TCP_SetConnectionState P A R TCP_Connection_CloseWait t);
            ci \<leftarrow> TCP_GetConnectionInfo P A R t;
            Some (Continue True
              (upd_info ci (\<lambda>inf. inf\<lparr>SequenceNumberIn := SequenceNumberIn inf + 1,
                 SequenceNumberOut := SequenceNumberOut inf + 1\<rparr>) t) out)
          }
          else if Flags = TCP_FLAG_ACK \<or> Flags = TCP_FLAG_ACK OR TCP_FLAG_PSH
          then do {
            ci \<leftarrow> TCP_GetConnectionInfo P A R t;
            TCP_receive_data fin IPHeaderIN TCPHeaderInStart TCPHeaderIN ci t out TCPHeaderOutStart
          }
          else Some (Continue False t out)
      | TCP_Connection_Closing \<Rightarrow> do {
            ci \<leftarrow> TCP_GetConnectionInfo P A R t;
            out \<leftarrow> wr8 out (TCPHeaderOutStart + 13) (TCP_FLAG_ACK OR TCP_FLAG_FIN);
            let t = upd_info ci (\<lambda>inf. inf\<lparr>Buffer := (Buffer inf)\<lparr>buf_InUse := False\<rparr>\<rparr>) t;
            let t = snd (TCP_SetConnectionState P A R TCP_Connection_FINWait1 t);
            Some (Continue True t out)
          }
      | TCP_Connection_FINWait1 \<Rightarrow>
          if Flags = TCP_FLAG_FIN OR TCP_FLAG_ACK
          then do {
            ci \<leftarrow> TCP_GetConnectionInfo P A R t;
            out \<leftarrow> wr8 out (TCPHeaderOutStart + 13) TCP_FLAG_ACK;
            let t = upd_info ci (\<lambda>inf. inf\<lparr>SequenceNumberIn := SequenceNumberIn inf + 1,
              SequenceNumberOut := SequenceNumberOut inf + 1\<rparr>) t;
            let t = snd (TCP_SetConnectionState P A R TCP_Connection_Closed t);
            Some (Continue True t out)
          }
          else if Flags = TCP_FLAG_ACK
          then Some (Continue False (snd (TCP_SetConnectionState P A R TCP_Connection_FINWait2 t)) out)
          else Some (Continue False t out)
      | TCP_Connection_FINWait2 \<Rightarrow>
          if Flags = TCP_FLAG_FIN OR TCP_FLAG_ACK
          then do {
            ci \<leftarrow> TCP_GetConnectionInfo P A R t;
            out \<leftarrow> wr8 out (TCPHeaderOutStart + 13) TCP_FLAG_ACK;
            let t = upd_info ci (\<lambda>inf. inf\<lparr>SequenceNumberIn := SequenceNumberIn inf + 1,
              SequenceNumberOut := SequenceNumberOut inf + 1\<rparr>) t;
            let t = snd (TCP_SetConnectionState P A R TCP_Connection_Closed t);
            Some (Continue True t out)
          }
          else Some (Continue False t out)
      | TCP_Connection_CloseWait \<Rightarrow>
          if Flags = TCP_FLAG_ACK
          then Some (Continue False (snd (TCP_SetConnectionState P A R TCP_Connection_Closed t)) out)
          else Some (Continue False t out)
      | _ \<Rightarrow> Some (Continue False t out))"

text \<open>The branch for an open port: the SYN and RST flags first, then the switch.\<close>

definition TCP_open_port ::
    "bytes \<Rightarrow> IP_Header_t \<Rightarrow> nat \<Rightarrow> TCP_Header_t \<Rightarrow> 'a tcp \<Rightarrow> bytes \<Rightarrow> nat \<Rightarrow> 'a tcp_flow option" where
  "TCP_open_port fin IPHeaderIN TCPHeaderInStart TCPHeaderIN t out TCPHeaderOutStart = do {
     let P = tcp_DestinationPort TCPHeaderIN;
     let A = ip_SourceAddress IPHeaderIN;
     let R = tcp_SourcePort TCPHeaderIN;
     let t = (if tcp_Flags TCPHeaderIN AND TCP_FLAG_SYN \<noteq> 0
              then snd (TCP_SetConnectionState P A R TCP_Connection_Listen t) else t);
     if tcp_Flags TCPHeaderIN AND TCP_FLAG_RST \<noteq> 0
     then (case TCP_SetConnectionState P A R TCP_Connection_Closed t of
         (True, t) \<Rightarrow> do {
           out \<leftarrow> wr8 out (TCPHeaderOutStart + 13) (TCP_FLAG_RST OR TCP_FLAG_ACK);
           Some (Continue True t out)
         }
       | (False, t) \<Rightarrow> Some (Continue False t out))
     else TCP_state_switch fin IPHeaderIN TCPHeaderInStart TCPHeaderIN t out TCPHeaderOutStart
   }"

text \<open>The response header; its checksum word is at offset 16.\<close>

definition TCP_response_header :: "TCP_Header_t \<Rightarrow> TCP_ConnectionInfo_t \<Rightarrow> u8 \<Rightarrow> TCP_Header_t" where
  "TCP_response_header TCPHeaderIN ConnectionInfo Flags =
     \<lparr>tcp_SourcePort = tcp_DestinationPort TCPHeaderIN,
      tcp_DestinationPort = tcp_SourcePort TCPHeaderIN,
      tcp_SequenceNumber = SwapEndian_32 False (SequenceNumberOut ConnectionInfo),
      tcp_AcknowledgmentNumber = SwapEndian_32 False (SequenceNumberIn ConnectionInfo),
      tcp_Reserved = 0,
      tcp_DataOffset = 5,
      tcp_Flags = Flags,
      tcp_WindowSize =
        (if \<not> buf_InUse (Buffer ConnectionInfo) then SwapEndian_16 True TCP_WINDOW_SIZE
         else SwapEndian_16 False (TCP_WINDOW_SIZE - buf_Length (Buffer ConnectionInfo))),
      tcp_Checksum = 0,
      tcp_UrgentPointer = 0\<rparr>"

definition TCP_respond ::
    "IP_Header_t \<Rightarrow> TCP_Header_t \<Rightarrow> 'a tcp \<Rightarrow> bytes \<Rightarrow> nat \<Rightarrow> (int \<times> 'a tcp \<times> bytes) option" where
  "TCP_respond IPHeaderIN TCPHeaderIN t out TCPHeaderOutStart = do {
     ci \<leftarrow> TCP_GetConnectionInfo (tcp_DestinationPort TCPHeaderIN) (ip_SourceAddress IPHeaderIN)
       (tcp_SourcePort TCPHeaderIN) t;
     Flags \<leftarrow> rd8 out (TCPHeaderOutStart + 13);
     out \<leftarrow> put_tcp out TCPHeaderOutStart (TCP_response_header TCPHeaderIN (info_at ci t) Flags);
     Checksum \<leftarrow> TCP_Checksum16 out TCPHeaderOutStart (ip_DestinationAddress IPHeaderIN)
       (ip_SourceAddress IPHeaderIN) (of_nat sizeof_TCP_Header_t);
     out \<leftarrow> wr16 out (TCPHeaderOutStart + 16) Checksum;
     Some (int sizeof_TCP_Header_t, t, out)
   }"

definition TCP_ProcessTCPPacket ::
    "bytes \<Rightarrow> nat \<Rightarrow> nat \<Rightarrow> 'a tcp \<Rightarrow> bytes \<Rightarrow> nat \<Rightarrow> (int \<times> 'a tcp \<times> bytes) option" where
  "TCP_ProcessTCPPacket fin IPHeaderInStart TCPHeaderInStart t out TCPHeaderOutStart = do {
     IPHeaderIN \<leftarrow> get_ip fin IPHeaderInStart;
     TCPHeaderIN \<leftarrow> get_tcp fin TCPHeaderInStart;
     flow \<leftarrow> (if TCP_GetPortState (tcp_DestinationPort TCPHeaderIN) t = TCP_Port_Open
       then TCP_open_port fin IPHeaderIN TCPHeaderInStart TCPHeaderIN t out TCPHeaderOutStart
       else do {
         out \<leftarrow> wr8 out (TCPHeaderOutStart + 13) (TCP_FLAG_RST OR TCP_FLAG_ACK);
         Some (Continue True t out)
       });
     case flow of
       Return r t out \<Rightarrow> Some (r, t, out)
     | Continue PacketResponse t out \<Rightarrow>
         if PacketResponse then TCP_respond IPHeaderIN TCPHeaderIN t out TCPHeaderOutStart
         else Some (NO_RESPONSE, t, out)
   }"


section \<open>The task\<close>

text \<open>One call of an application handler: connection \<open>c\<close>, port entry \<open>p\<close>.\<close>

definition TCP_run_handler :: "nat \<Rightarrow> nat \<Rightarrow> 'a tcp \<Rightarrow> 'a tcp option" where
  "TCP_run_handler c p t =
     (if ps_Port (PortStateTable t ! p) = cs_Port (ConnectionStateTable t ! c) \<and>
         ps_State (PortStateTable t ! p) = TCP_Port_Open
      then do {
        ApplicationHandler \<leftarrow> ps_ApplicationHandler (PortStateTable t ! p);
        (cs, app) \<leftarrow> ApplicationHandler (ConnectionStateTable t ! c) (App t);
        Some (t\<lparr>ConnectionStateTable := (ConnectionStateTable t)[c := cs], App := app\<rparr>)
      }
      else Some t)"

text \<open>The nested loop over the connections and the ports.\<close>

fun for_each :: "('i \<Rightarrow> 's \<Rightarrow> 's option) \<Rightarrow> 'i list \<Rightarrow> 's \<Rightarrow> 's option" where
  "for_each f [] s = Some s"
| "for_each f (i # is) s = Option.bind (f i s) (for_each f is)"

definition TCP_run_applications :: "'a tcp \<Rightarrow> 'a tcp option" where
  "TCP_run_applications t =
     for_each (\<lambda>c. for_each (TCP_run_handler c) [0..<MAX_OPEN_TCP_PORTS]) [0..<MAX_TCP_CONNECTIONS] t"

definition TCP_data_header :: "TCP_ConnectionState_t \<Rightarrow> TCP_Header_t" where
  "TCP_data_header c =
     \<lparr>tcp_SourcePort = cs_Port c,
      tcp_DestinationPort = cs_RemotePort c,
      tcp_SequenceNumber = SwapEndian_32 False (SequenceNumberOut (cs_Info c)),
      tcp_AcknowledgmentNumber = SwapEndian_32 False (SequenceNumberIn (cs_Info c)),
      tcp_Reserved = 0,
      tcp_DataOffset = 5,
      tcp_Flags = TCP_FLAG_ACK,
      tcp_WindowSize = SwapEndian_16 True TCP_WINDOW_SIZE,
      tcp_Checksum = 0,
      tcp_UrgentPointer = 0\<rparr>"

text \<open>The frame the task builds for the connection at index \<open>c\<close>: 14 bytes of Ethernet header, 20 of
  IP header, 20 of TCP header, the data.\<close>

definition TCP_send_buffer ::
    "nat \<Rightarrow> 'a tcp \<Rightarrow> Ethernet_Frame_Info_t \<Rightarrow> ('a tcp \<times> Ethernet_Frame_Info_t) option" where
  "TCP_send_buffer c t FrameOUT = do {
     let cs = ConnectionStateTable t ! c;
     let IPHeaderOUT = sizeof_Ethernet_Frame_Header_t;
     let TCPHeaderOUT = sizeof_Ethernet_Frame_Header_t + sizeof_IP_Header_t;
     let TCPDataOUT = sizeof_Ethernet_Frame_Header_t + sizeof_IP_Header_t + sizeof_TCP_Header_t;
     let PacketSize = buf_Length (Buffer (cs_Info cs));
     out \<leftarrow> put_tcp (FrameData FrameOUT) TCPHeaderOUT (TCP_data_header cs);
     payload \<leftarrow> rdn (buf_Data (Buffer (cs_Info cs))) 0 (unat PacketSize);
     out \<leftarrow> wrn out TCPDataOUT payload;
     let t = upd_info c (\<lambda>inf. inf\<lparr>SequenceNumberOut := SequenceNumberOut inf + ucast PacketSize\<rparr>) t;
     Checksum \<leftarrow> TCP_Checksum16 out TCPHeaderOUT ServerIPAddress (cs_RemoteAddress cs)
       (of_nat sizeof_TCP_Header_t + PacketSize);
     out \<leftarrow> wr16 out (TCPHeaderOUT + 16) Checksum;
     let PacketSize = PacketSize + of_nat sizeof_TCP_Header_t;
     out \<leftarrow> IP_write_header out IPHeaderOUT PacketSize PROTOCOL_TCP ServerIPAddress (cs_RemoteAddress cs);
     let PacketSize = PacketSize + of_nat sizeof_IP_Header_t;
     out \<leftarrow> put_eth out 0 \<lparr>eth_Destination = [0x02, 0x00, 0x02, 0x00, 0x02, 0x00],
       eth_Source = ServerMACAddress, eth_EtherType = SwapEndian_16 True ETHERTYPE_IPV4\<rparr>;
     let PacketSize = PacketSize + of_nat sizeof_Ethernet_Frame_Header_t;
     let t = upd_info c (\<lambda>inf. inf\<lparr>Buffer := (Buffer inf)\<lparr>buf_Ready := False\<rparr>\<rparr>) t;
     Some (t, FrameOUT\<lparr>FrameData := out, FrameLength := PacketSize\<rparr>)
   }"

definition TCP_TCPTask :: "'a tcp \<Rightarrow> Ethernet_Frame_Info_t \<Rightarrow> ('a tcp \<times> Ethernet_Frame_Info_t) option" where
  "TCP_TCPTask t FrameOUT = do {
     t \<leftarrow> TCP_run_applications t;
     if FrameLength FrameOUT \<noteq> 0 then Some (t, FrameOUT)
     else case first_index (\<lambda>c. buf_Direction (Buffer (cs_Info c)) = TCP_PACKETDIR_OUT \<and>
                  buf_Ready (Buffer (cs_Info c))) (ConnectionStateTable t) of
            None \<Rightarrow> Some (t, FrameOUT)
          | Some c \<Rightarrow> TCP_send_buffer c t FrameOUT
   }"

section \<open>The header and the checksum\<close>

interpretation tcp: packed_header enc_tcp dec_tcp sizeof_TCP_Header_t "\<lambda>_. True"
proof
  fix h :: TCP_Header_t
  show "dec_tcp (enc_tcp h) = h"
    by (cases h) (simp add: dec_tcp_def enc_tcp_def le16_def le32_def at16_def at32_def ip_bit_fields)
qed (auto simp: enc_tcp_def le16_def le32_def sizeof_TCP_Header_t_def)

text \<open>The pseudo header the checksum covers, in the order of its bytes on the wire.\<close>

definition pseudo_header :: "IP_Address_t \<Rightarrow> IP_Address_t \<Rightarrow> nat \<Rightarrow> bytes" where
  "pseudo_header src dst n = src @ dst @ [0, PROTOCOL_TCP] @ rev (le16 (of_nat n))"

definition tcp_valid :: "IP_Address_t \<Rightarrow> IP_Address_t \<Rightarrow> bytes \<Rightarrow> bool" where
  "tcp_valid src dst seg = inet_valid (pseudo_header src dst (length seg) @ seg)"

definition pad_even :: "bytes \<Rightarrow> bytes" where
  "pad_even bs = (if even (length bs) then bs else bs @ [0])"

lemma word_sum_four: "length a = 4 \<Longrightarrow> word_sum a = unat (at16 a 0) + unat (at16 a 2)"
  by (auto simp: length_Suc_conv eval_nat_numeral at16_def)

lemma even_pseudo: "length src = 4 \<Longrightarrow> length dst = 4 \<Longrightarrow> even (length (pseudo_header src dst n))"
  by (simp add: pseudo_header_def le16_def)

lemma word_sum_pseudo:
  assumes "length src = 4" "length dst = 4"
  shows "word_sum (pseudo_header src dst n) =
    unat (at16 src 0) + unat (at16 src 2) + unat (at16 dst 0) + unat (at16 dst 2) +
    unat (word16_of 0 PROTOCOL_TCP) + unat (word16_of (byte1 (of_nat n :: u16)) (byte0 (of_nat n :: u16)))"
  using assms by (simp add: pseudo_header_def word_sum_append word_sum_four le16_def)

lemma unat_add_u32: "unat a + unat b < 2 ^ 32 \<Longrightarrow> unat (a + b) = unat a + unat b" for a b :: u32
  by (simp add: unat_word_ariths)

lemma low_byte: "ucast (word16_of a b AND 0x00FF :: u16) = (ucast a :: u32)"
  unfolding mask_bytes_16(2) word16_of_def
  by (rule bit_word_eqI) (auto simp: bit_simps dest: bit_imp_le_length)

lemma odd_test: "n AND 1 = 0 \<longleftrightarrow> even (unat n)" for n :: u16
  by (simp add: and_one_eq unat_eq_zero [symmetric] unat_mod even_iff_mod_2_eq_zero)

lemma unat_ucast_byte: "unat (ucast a :: u32) = unat a" for a :: u8
  using unat_bound [of a] by (simp add: unsigned_ucast_eq take_bit_nat_eq_self)

text \<open>Summing a list of words that is short enough does not overflow.\<close>

lemma unat_sum6:
  fixes a b c d e f :: u16
  shows "unat (0 + ucast a + ucast b + ucast c + ucast d + ucast e + ucast f :: u32) =
    unat a + unat b + unat c + unat d + unat e + unat f"
  using unat_bound [of a] unat_bound [of b] unat_bound [of c] unat_bound [of d] unat_bound [of e]
    unat_bound [of f]
  by (simp add: unat_add_u32 unat_ucast_u32)

lemma pad_even_sum:
  "word_sum (pad_even bs) = word_sum bs + (if even (length bs) then 0 else unat (last bs))"
  by (simp add: pad_even_def word_sum_odd)

lemma TCP_Checksum16_value:
  assumes len: "length src = 4" "length dst = 4"
    and range: "p + unat n + (if even (unat n) then 0 else 1) \<le> length m"
  shows "\<exists>c. TCP_Checksum16 m p src dst n = Some c \<and>
    unat c = 65535 - ones_sum (word_sum (pseudo_header src dst (unat n) @
      pad_even (take (unat n) (drop p m))))"
proof -
  let ?k = "unat n div 2" and ?seg = "take (unat n) (drop p m)"
  let ?P = "word_sum (pseudo_header src dst (unat n))"
  define acc :: u32 where "acc = 0 + ucast (at16 src 0) + ucast (at16 src 2) + ucast (at16 dst 0) +
    ucast (at16 dst 2) + ucast (SwapEndian_16 True (ucast PROTOCOL_TCP)) + ucast (SwapEndian_16 False n)"
  have k: "unat (drop_bit 1 n) = ?k"
    by (simp only: unat_drop_bit_eq) (simp add: drop_bit_eq_div)
  have seg_len: "length ?seg = unat n"
    using range by (simp split: if_splits)
  have acc: "unat acc = ?P"
    unfolding acc_def unat_sum6 using len
    by (simp add: word_sum_pseudo) (simp add: PROTOCOL_TCP_def byte0_def byte1_def)
  have P: "?P \<le> 65535 * 6"
    using word_sum_le [of "pseudo_header src dst (unat n)"] len by (simp add: pseudo_header_def le16_def)
  have words: "word_sum (take (2 * ?k) (drop p m)) = word_sum ?seg"
    by (rule word_sum_even_part)
  have seg: "word_sum ?seg \<le> 65535 * 32767"
  proof -
    have "?k \<le> 32767"
      using unat_bound [of n] by simp
    with word_sum_le [of ?seg] seg_len show ?thesis
      by (simp only: seg_len)
  qed
  obtain s where s: "checksum_words m p ?k acc = Some s" "unat s = ?P + word_sum ?seg"
    using word_sum_words [of p ?k m acc] range P seg words acc by (auto simp: even_part_le split: if_splits)
  let ?last = "if even (unat n) then 0 else unat (last ?seg)"
  have last_small: "?last < 65536"
    using unat_bound [of "last ?seg"] by simp
  obtain s' where s': "unat s' = ?P + word_sum ?seg + ?last"
    and run: "TCP_Checksum16 m p src dst n = Some (ucast (NOT (fold_carry s')))"
  proof (cases "even (unat n)")
    case True
    with that [of s] s k show ?thesis
      by (simp add: TCP_Checksum16_def acc_def odd_test)
  next
    case False
    let ?l = "m ! (p + 2 * ?k)"
    have n: "unat n = 2 * ?k + 1"
      using False by simp
    have "p + unat n + 1 \<le> length m"
      using range False by simp
    with n have idx: "p + 2 * ?k + 1 < length m"
      by linarith
    have "last ?seg = ?seg ! (unat n - 1)"
      using seg_len n by (subst last_conv_nth) auto
    also have "\<dots> = ?l"
      using False idx odd_pos [OF False] by simp
    finally have idx2: "last ?seg = ?l" .
    have "unat (s + ucast ?l) = ?P + word_sum ?seg + unat ?l"
      using s(2) P seg unat_bound [of ?l] by (simp add: unat_add_u32 unat_ucast_byte)
    with False that [of "s + ucast ?l"] s k idx idx2 show ?thesis
      by (simp add: TCP_Checksum16_def acc_def odd_test rd16_def low_byte)
  qed
  have "word_sum (pseudo_header src dst (unat n) @ pad_even ?seg) = unat s'"
    using s' by (simp only: word_sum_append [OF even_pseudo [OF len]] pad_even_sum seg_len)
  then have "unat (fold_carry s') = ones_sum (word_sum (pseudo_header src dst (unat n) @ pad_even ?seg))"
    by (simp add: fold_carry_ones_sum)
  then have "unat (ucast (NOT (fold_carry s')) :: u16) =
      65535 - ones_sum (word_sum (pseudo_header src dst (unat n) @ pad_even ?seg))"
    by (rule complement_u16) (rule ones_sum_le)
  with run show ?thesis
    by simp
qed


lemma tcp_valid_pad:
  assumes "length src = 4" "length dst = 4"
  shows "tcp_valid src dst seg \<longleftrightarrow>
    ones_sum (word_sum (pseudo_header src dst (length seg) @ pad_even seg)) = 65535"
  using even_pseudo [OF assms, of "length seg"] by (simp add: tcp_valid_def inet_valid_def pad_even_def)

lemma pad_even_set: "k + 1 < length bs \<Longrightarrow> pad_even (bs[k := a, k + 1 := b]) = (pad_even bs)[k := a, k + 1 := b]"
  by (simp add: pad_even_def list_update_append)

lemma TCP_Checksum16_verifies:
  assumes len: "length src = 4" "length dst = 4"
    and range: "p + unat n + (if even (unat n) then 0 else 1) \<le> length m" "18 \<le> unat n"
    and c: "TCP_Checksum16 m p src dst n = Some c"
    and zero: "rd16 m (p + 16) = Some 0" and m': "wr16 m (p + 16) c = Some m'"
  shows "tcp_valid src dst (take (unat n) (drop p m'))"
proof -
  let ?seg = "take (unat n) (drop p m)" and ?seg' = "take (unat n) (drop p m')"
  have seg_len: "length ?seg = unat n"
    using range by (simp split: if_splits)
  have m'_eq: "m' = m[p + 16 := byte0 c, p + 16 + 1 := byte1 c]"
    using m' by (simp add: wr16_def split: if_splits)
  have zeros: "pad_even ?seg ! 16 = 0" "pad_even ?seg ! (16 + 1) = 0"
    using zero range seg_len
    by (auto simp: rd16_def word16_of_eq_0 add.assoc add.commute [of 17] pad_even_def nth_append
        split: if_splits)
  have seg': "?seg' = ?seg[16 := byte0 c, 16 + 1 := byte1 c]"
    using range unfolding m'_eq by (simp add: take_drop_set)
  have "word_sum (pad_even ?seg') = word_sum (pad_even ?seg) + unat c"
    unfolding seg' using range seg_len zeros
    by (subst pad_even_set, simp, subst word_sum_set) (auto simp: pad_even_def)
  then have sum: "word_sum (pseudo_header src dst (unat n) @ pad_even ?seg') =
      word_sum (pseudo_header src dst (unat n) @ pad_even ?seg) + unat c"
    by (simp only: word_sum_append [OF even_pseudo [OF len]] add.assoc)
  have "unat c = 65535 - ones_sum (word_sum (pseudo_header src dst (unat n) @ pad_even ?seg))"
    using TCP_Checksum16_value [OF len range(1)] c by auto
  then have "ones_sum (word_sum (pseudo_header src dst (unat n) @ pad_even ?seg')) = 65535"
    unfolding sum by (simp only: ones_sum_complement)
  moreover have "length ?seg' = unat n"
    using seg' seg_len by simp
  ultimately show ?thesis
    using tcp_valid_pad [OF len, of ?seg'] by simp
qed

end
