(* ===== verification/Net_TCP_State.thy ===== *)
theory Net_TCP_State
  imports Net_TCP
begin

text \<open>
  The contract of the two state tables of \<^verbatim>\<open>TCP.c\<close>, and the connection state machine.  The comments
  of the source promise that entries not in a table are closed and that closed entries may be
  overwritten at any time; the locale \<open>state_table\<close> states that promise as a finite map with a
  default, and both tables are instances of it.
\<close>

section \<open>The table contract\<close>

locale state_table =
  fixes lookup :: "'t \<Rightarrow> 'k \<Rightarrow> 's" and update :: "'k \<Rightarrow> 's \<Rightarrow> 't \<Rightarrow> bool \<times> 't"
    and closed :: 's and wf :: "'t \<Rightarrow> bool" and key :: "'k \<Rightarrow> bool" and capacity :: nat
  assumes update_wf: "wf t \<Longrightarrow> key k \<Longrightarrow> wf (snd (update k s t))"
    and update_lookup: "wf t \<Longrightarrow> key k \<Longrightarrow> key k' \<Longrightarrow> fst (update k s t) \<Longrightarrow>
      lookup (snd (update k s t)) k' = (if k' = k then s else lookup t k')"
    and update_refused: "wf t \<Longrightarrow> key k \<Longrightarrow> \<not> fst (update k s t) \<Longrightarrow>
      snd (update k s t) = t \<and> lookup t k = closed"
    and open_finite: "wf t \<Longrightarrow> finite {k. key k \<and> lookup t k \<noteq> closed}"
    and open_capacity: "wf t \<Longrightarrow> card {k. key k \<and> lookup t k \<noteq> closed} \<le> capacity"
    and update_room: "wf t \<Longrightarrow> key k \<Longrightarrow> card {k. key k \<and> lookup t k \<noteq> closed} < capacity \<Longrightarrow>
      fst (update k s t)"
begin

text \<open>An open entry can always be changed.\<close>

lemma update_present: "wf t \<Longrightarrow> key k \<Longrightarrow> lookup t k \<noteq> closed \<Longrightarrow> fst (update k s t)"
  using update_refused by blast

text \<open>An update of one key never disturbs another, whether or not it is carried out.\<close>

lemma update_frame:
  "wf t \<Longrightarrow> key k \<Longrightarrow> key k' \<Longrightarrow> k' \<noteq> k \<Longrightarrow> lookup (snd (update k s t)) k' = lookup t k'"
  using update_lookup [of t k k' s] update_refused [of t k s] by (cases "fst (update k s t)") auto

lemma update_same:
  "wf t \<Longrightarrow> key k \<Longrightarrow>
   lookup (snd (update k s t)) k = (if fst (update k s t) then s else closed)"
  using update_lookup [of t k k s] update_refused [of t k s] by (cases "fst (update k s t)") auto

text \<open>A refusal happens only when the table holds as many open entries as it can.\<close>

lemma refused_full:
  "wf t \<Longrightarrow> key k \<Longrightarrow> \<not> fst (update k s t) \<Longrightarrow> card {k. key k \<and> lookup t k \<noteq> closed} = capacity"
  using update_room open_capacity by (meson le_neq_implies_less)

text \<open>Closing an entry makes room for any other.\<close>

lemma close_makes_room:
  assumes "wf t" "key k" "key k'" "lookup t k \<noteq> closed"
  shows "fst (update k' s (snd (update k closed t)))"
proof -
  let ?O = "\<lambda>t. {k. key k \<and> lookup t k \<noteq> closed}" and ?t = "snd (update k closed t)"
  have "?O ?t \<subseteq> ?O t - {k}"
    using assms update_lookup [of t k _ closed] update_present [of t k closed] by auto
  then have "card (?O ?t) \<le> card (?O t - {k})"
    using open_finite [OF assms(1)] by (intro card_mono) auto
  also have "\<dots> < card (?O t)"
    using assms open_finite [OF assms(1)] by (intro psubset_card_mono) auto
  also have "\<dots> \<le> capacity"
    using assms(1) by (rule open_capacity)
  finally show ?thesis
    using assms update_room [of ?t k' s] update_wf [of t k closed] by simp
qed

end

section \<open>First index\<close>

lemma first_index_Some:
  "first_index P xs = Some i \<Longrightarrow> i < length xs \<and> P (xs ! i) \<and> (\<forall>j < i. \<not> P (xs ! j))"
proof (induction xs arbitrary: i)
  case (Cons x xs)
  show ?case
  proof (cases "P x")
    case False
    with Cons.prems obtain k where "i = Suc k" "first_index P xs = Some k"
      by auto
    with Cons.IH [of k] False show ?thesis
      by (auto simp: less_Suc_eq_0_disj)
  qed (use Cons.prems in auto)
qed simp

lemma first_index_None: "first_index P xs = None \<longleftrightarrow> (\<forall>x \<in> set xs. \<not> P x)"
  by (induction xs) auto

lemma first_indexI:
  "i < length xs \<Longrightarrow> P (xs ! i) \<Longrightarrow> (\<And>j. j < i \<Longrightarrow> \<not> P (xs ! j)) \<Longrightarrow> first_index P xs = Some i"
  by (metis first_index_None first_index_Some nth_mem not_None_eq linorder_neqE_nat)


lemma first_index_update:
  "P (xs ! i) = P x \<Longrightarrow> first_index P (xs[i := x]) = first_index P xs"
proof (induction xs arbitrary: i)
  case (Cons y ys)
  then show ?case by (cases i) auto
qed simp

section \<open>Arrays of entries with a key and a state\<close>

text \<open>
  The common shape of the two tables.  Two entries may have the same key (the zeroed entries of an
  array do at start-up), but then only the first can be in use.
\<close>

definition tbl_lookup :: "('e \<Rightarrow> 'k) \<Rightarrow> ('e \<Rightarrow> 's) \<Rightarrow> 's \<Rightarrow> 'e list \<Rightarrow> 'k \<Rightarrow> 's" where
  "tbl_lookup k st closed es x = (case first_index (\<lambda>e. k e = x) es of Some i \<Rightarrow> st (es ! i) | None \<Rightarrow> closed)"

definition tbl_wf :: "('e \<Rightarrow> 'k) \<Rightarrow> ('e \<Rightarrow> 's) \<Rightarrow> 's \<Rightarrow> 'e list \<Rightarrow> bool" where
  "tbl_wf k st closed es =
     (\<forall>i j. i < j \<and> j < length es \<and> k (es ! i) = k (es ! j) \<longrightarrow> st (es ! j) = closed)"

lemma tbl_lookup_first:
  "first_index (\<lambda>e. k e = x) es = Some i \<Longrightarrow> tbl_lookup k st closed es x = st (es ! i)"
  by (simp add: tbl_lookup_def)

lemma tbl_wf_set:
  assumes "tbl_wf k st closed es" "first_index (\<lambda>e. k e = x) es = Some i" "k e = x"
  shows "tbl_wf k st closed (es[i := e])"
  using assms first_index_Some [OF assms(2)] unfolding tbl_wf_def
  by (auto simp: nth_list_update)

lemma tbl_lookup_set:
  assumes "first_index (\<lambda>e. k e = x) es = Some i" "k e = x"
  shows "tbl_lookup k st closed (es[i := e]) y = (if y = x then st e else tbl_lookup k st closed es y)"
proof -
  have i: "i < length es" "k (es ! i) = x"
    using first_index_Some [OF assms(1)] by auto
  then have "first_index (\<lambda>e. k e = y) (es[i := e]) = first_index (\<lambda>e. k e = y) es"
    using assms(2) by (intro first_index_update) simp
  moreover have "j \<noteq> i" if "first_index (\<lambda>e. k e = y) es = Some j" "y \<noteq> x" for j
    using first_index_Some [OF that(1)] i that(2) by auto
  ultimately show ?thesis
    using assms i by (auto simp: tbl_lookup_def nth_list_update split: option.splits)
qed

text \<open>In a well-formed table the entry in use for a key is found.\<close>

lemma tbl_lookup_open:
  assumes "tbl_wf k st closed es" "s \<noteq> closed"
  shows "tbl_lookup k st closed es x = s \<longleftrightarrow> (\<exists>i < length es. k (es ! i) = x \<and> st (es ! i) = s)"
proof
  assume "tbl_lookup k st closed es x = s"
  with assms(2) obtain i where "first_index (\<lambda>e. k e = x) es = Some i" "st (es ! i) = s"
    by (auto simp: tbl_lookup_def split: option.splits)
  then show "\<exists>i < length es. k (es ! i) = x \<and> st (es ! i) = s"
    using first_index_Some by fastforce
next
  assume "\<exists>i < length es. k (es ! i) = x \<and> st (es ! i) = s"
  then obtain i where i: "i < length es" "k (es ! i) = x" "st (es ! i) = s"
    by blast
  then obtain j where j: "first_index (\<lambda>e. k e = x) es = Some j"
    by (cases "first_index (\<lambda>e. k e = x) es") (auto simp: first_index_None)
  have "\<not> j < i"
    using first_index_Some [OF j] i assms unfolding tbl_wf_def by metis
  moreover have "\<not> i < j"
    using first_index_Some [OF j] i by blast
  ultimately show "tbl_lookup k st closed es x = s"
    using j i by (simp add: tbl_lookup_def)
qed

lemma tbl_wf_replace:
  assumes "tbl_wf k st closed es" "first_index (\<lambda>e. k e = x) es = None" "k e = x"
  shows "tbl_wf k st closed (es[i := e])"
  unfolding tbl_wf_def
proof (intro allI impI, elim conjE)
  fix a b
  assume ab: "a < b" "b < length (es[i := e])" "k (es[i := e] ! a) = k (es[i := e] ! b)"
  have no: "k (es ! j) \<noteq> x" if "j < length es" for j
    using assms(2) that by (auto simp: first_index_None)
  have "a \<noteq> i" "b \<noteq> i"
    using ab assms(3) no [of a] no [of b] by (auto simp: nth_list_update)
  with ab assms(1) show "st (es[i := e] ! b) = closed"
    by (auto simp: tbl_wf_def)
qed

lemma tbl_lookup_replace:
  assumes wf: "tbl_wf k st closed es" and none: "first_index (\<lambda>e. k e = x) es = None"
    and i: "i < length es" "st (es ! i) = closed" and e: "k e = x"
  shows "tbl_lookup k st closed (es[i := e]) y = (if y = x then st e else tbl_lookup k st closed es y)"
proof (cases "y = x")
  case True
  have no: "k (es ! j) \<noteq> x" if "j < length es" for j
    using none that by (auto simp: first_index_None)
  have "first_index (\<lambda>e. k e = x) (es[i := e]) = Some i"
    using i e no by (intro first_indexI) (auto simp: nth_list_update)
  with True i show ?thesis
    by (simp add: tbl_lookup_def)
next
  case False
  let ?l = "tbl_lookup k st closed"
  have "?l (es[i := e]) y = s \<longleftrightarrow> ?l es y = s" if "s \<noteq> closed" for s
    unfolding tbl_lookup_open [OF wf that] tbl_lookup_open [OF tbl_wf_replace [OF wf none e] that]
    using i e False that by (auto simp: nth_list_update)
  then have "?l (es[i := e]) y = ?l es y"
    by metis
  with False show ?thesis by simp
qed

lemma tbl_open_finite: "finite {x. tbl_lookup k st closed es x \<noteq> closed}"
  and tbl_open_card: "card {x. tbl_lookup k st closed es x \<noteq> closed} \<le> length es"
proof -
  have sub: "{x. tbl_lookup k st closed es x \<noteq> closed} \<subseteq> k ` set es"
    using first_index_Some by (fastforce simp: tbl_lookup_def split: option.splits)
  then show "finite {x. tbl_lookup k st closed es x \<noteq> closed}"
    by (rule finite_subset) simp
  show "card {x. tbl_lookup k st closed es x \<noteq> closed} \<le> length es"
    using card_mono [OF _ sub] card_image_le [of "set es" k] card_length [of es] by simp
qed

text \<open>A table in which fewer keys are open than it has entries has a closed entry.\<close>

lemma tbl_room:
  assumes wf: "tbl_wf k st closed es"
    and "card {x. tbl_lookup k st closed es x \<noteq> closed} < length es"
  shows "\<exists>i. first_index (\<lambda>e. st e = closed) es = Some i"
proof (rule ccontr)
  assume "\<not> ?thesis"
  then have all: "st (es ! i) \<noteq> closed" if "i < length es" for i
    using that by (auto simp: first_index_None)
  have "distinct (map k es)"
    unfolding distinct_conv_nth length_map
  proof (intro allI impI)
    fix i j
    assume "i < length es" "j < length es" "i \<noteq> j"
    then show "map k es ! i \<noteq> map k es ! j"
      using wf all unfolding tbl_wf_def by (cases "i < j") (auto, metis linorder_neqE_nat)
  qed
  moreover have "k ` set es \<subseteq> {x. tbl_lookup k st closed es x \<noteq> closed}"
  proof
    fix x
    assume "x \<in> k ` set es"
    then obtain i where i: "i < length es" "x = k (es ! i)"
      by (auto simp: in_set_conv_nth)
    then have "tbl_lookup k st closed es x = st (es ! i)"
      using tbl_lookup_open [OF wf all [OF i(1)]] by blast
    with all i show "x \<in> {x. tbl_lookup k st closed es x \<noteq> closed}"
      by simp
  qed
  ultimately show False
    using assms(2) card_mono [OF tbl_open_finite] distinct_card [of "map k es"] by fastforce
qed


section \<open>The connection table\<close>

definition conn_of :: "TCP_ConnectionState_t \<Rightarrow> u16 \<times> IP_Address_t \<times> u16" where
  "conn_of c = (cs_Port c, cs_RemoteAddress c, cs_RemotePort c)"

lemma conn_of_update [simp]:
  "conn_of (c\<lparr>cs_State := s\<rparr>) = conn_of c" "conn_of (c\<lparr>cs_Info := n\<rparr>) = conn_of c"
  "conn_of (c\<lparr>cs_Port := p, cs_RemotePort := r, cs_RemoteAddress := a\<rparr>) = (p, a, r)"
  by (simp_all add: conn_of_def)

definition conn_key :: "u16 \<times> IP_Address_t \<times> u16 \<Rightarrow> bool" where
  "conn_key x = (length (fst (snd x)) = 4)"

definition conn_wf :: "'a tcp \<Rightarrow> bool" where
  "conn_wf t = (length (ConnectionStateTable t) = MAX_TCP_CONNECTIONS \<and>
     (\<forall>c \<in> set (ConnectionStateTable t). length (cs_RemoteAddress c) = 4) \<and>
     tbl_wf conn_of cs_State TCP_Connection_Closed (ConnectionStateTable t))"

definition conn_lookup :: "'a tcp \<Rightarrow> u16 \<times> IP_Address_t \<times> u16 \<Rightarrow> TCP_ConnectionStates_t" where
  "conn_lookup t x = TCP_GetConnectionState (fst x) (fst (snd x)) (snd (snd x)) t"

definition conn_update ::
    "u16 \<times> IP_Address_t \<times> u16 \<Rightarrow> TCP_ConnectionStates_t \<Rightarrow> 'a tcp \<Rightarrow> bool \<times> 'a tcp" where
  "conn_update x s t = TCP_SetConnectionState (fst x) (fst (snd x)) (snd (snd x)) s t"

lemma first_index_cong: "(\<And>x. x \<in> set xs \<Longrightarrow> P x = Q x) \<Longrightarrow> first_index P xs = first_index Q xs"
  by (induction xs) auto

lemma find_connection:
  assumes "conn_wf t" "conn_key (P, A, R)"
  shows "first_index (is_connection P A R) (ConnectionStateTable t) =
    first_index (\<lambda>c. conn_of c = (P, A, R)) (ConnectionStateTable t)"
  using assms by (intro first_index_cong) (auto simp: conn_wf_def conn_key_def is_connection_def
      conn_of_def IP_COMPARE_def)

lemma conn_lookup_tbl:
  "conn_wf t \<Longrightarrow> conn_key x \<Longrightarrow>
   conn_lookup t x = tbl_lookup conn_of cs_State TCP_Connection_Closed (ConnectionStateTable t) x"
  using find_connection [of t "fst x" "fst (snd x)" "snd (snd x)"]
  by (simp add: conn_lookup_def TCP_GetConnectionState_def tbl_lookup_def)

text \<open>The two ways the table changes, and the case where it does not.\<close>

lemma conn_update_cases:
  assumes "conn_wf t" "conn_key x"
  obtains (found) i where
      "first_index (\<lambda>c. conn_of c = x) (ConnectionStateTable t) = Some i"
      "conn_update x s t = (True, t\<lparr>ConnectionStateTable := (ConnectionStateTable t)
        [i := (ConnectionStateTable t ! i)\<lparr>cs_State := s\<rparr>]\<rparr>)"
  | (fresh) i where
      "first_index (\<lambda>c. conn_of c = x) (ConnectionStateTable t) = None"
      "first_index (\<lambda>c. cs_State c = TCP_Connection_Closed) (ConnectionStateTable t) = Some i"
      "conn_update x s t = (True, t\<lparr>ConnectionStateTable := (ConnectionStateTable t)
        [i := (ConnectionStateTable t ! i)\<lparr>cs_Port := fst x, cs_RemotePort := snd (snd x),
           cs_RemoteAddress := fst (snd x), cs_State := s\<rparr>]\<rparr>)"
  | (full)
      "first_index (\<lambda>c. conn_of c = x) (ConnectionStateTable t) = None"
      "first_index (\<lambda>c. cs_State c = TCP_Connection_Closed) (ConnectionStateTable t) = None"
      "conn_update x s t = (False, t)"
  using find_connection [of t "fst x" "fst (snd x)" "snd (snd x)"] assms
  by (cases "first_index (\<lambda>c. conn_of c = x) (ConnectionStateTable t)";
      cases "first_index (\<lambda>c. cs_State c = TCP_Connection_Closed) (ConnectionStateTable t)")
    (auto simp: conn_update_def TCP_SetConnectionState_def)

lemma conn_update_wf:
  assumes "conn_wf t" "conn_key x"
  shows "conn_wf (snd (conn_update x s t))"
  using assms
proof (cases rule: conn_update_cases [where s = s])
  case (found i)
  have "tbl_wf conn_of cs_State TCP_Connection_Closed
      ((ConnectionStateTable t)[i := (ConnectionStateTable t ! i)\<lparr>cs_State := s\<rparr>])"
    using assms first_index_Some [OF found(1)]
    by (intro tbl_wf_set [OF _ found(1)]) (auto simp: conn_wf_def)
  with found first_index_Some [OF found(1)] assms show ?thesis
    by (auto simp: conn_wf_def dest!: subsetD [OF set_update_subset_insert])
next
  case (fresh i)
  have "tbl_wf conn_of cs_State TCP_Connection_Closed
      ((ConnectionStateTable t)[i := (ConnectionStateTable t ! i)\<lparr>cs_Port := fst x,
         cs_RemotePort := snd (snd x), cs_RemoteAddress := fst (snd x), cs_State := s\<rparr>])"
    using assms by (intro tbl_wf_replace [OF _ fresh(1)]) (auto simp: conn_wf_def)
  with fresh assms show ?thesis
    by (auto simp: conn_wf_def conn_key_def dest!: subsetD [OF set_update_subset_insert])
qed (use assms in simp)

lemma conn_update_lookup:
  assumes wf: "conn_wf t" and x: "conn_key x" and y: "conn_key y" and ok: "fst (conn_update x s t)"
  shows "conn_lookup (snd (conn_update x s t)) y = (if y = x then s else conn_lookup t y)"
proof -
  let ?l = "tbl_lookup conn_of cs_State TCP_Connection_Closed"
  have "?l (ConnectionStateTable (snd (conn_update x s t))) y =
      (if y = x then s else ?l (ConnectionStateTable t) y)"
    using wf x
  proof (cases rule: conn_update_cases [where s = s])
    case (found i)
    then show ?thesis
      using first_index_Some [OF found(1)] by (simp add: tbl_lookup_set)
  next
    case (fresh i)
    then show ?thesis
      using wf first_index_Some [OF fresh(2)]
        tbl_lookup_replace [where k = conn_of and st = cs_State, OF _ fresh(1), of _ i
          "(ConnectionStateTable t ! i)\<lparr>cs_Port := fst x, cs_RemotePort := snd (snd x),
             cs_RemoteAddress := fst (snd x), cs_State := s\<rparr>" y]
      by (simp add: conn_wf_def)
  qed (use ok in simp)
  then show ?thesis
    unfolding conn_lookup_tbl [OF wf y] conn_lookup_tbl [OF conn_update_wf [OF wf x] y] .
qed

interpretation conns: state_table conn_lookup conn_update TCP_Connection_Closed conn_wf conn_key
  MAX_TCP_CONNECTIONS
proof
  fix t :: "'a tcp" and x s
  let ?open = "{k. conn_key k \<and> conn_lookup t k \<noteq> TCP_Connection_Closed}"
  let ?all = "{k. tbl_lookup conn_of cs_State TCP_Connection_Closed (ConnectionStateTable t) k \<noteq> TCP_Connection_Closed}"
  assume wf: "conn_wf t"
  have "conn_key k" if k: "k \<in> ?all" for k
  proof -
    obtain i where "first_index (\<lambda>c. conn_of c = k) (ConnectionStateTable t) = Some i"
      using k by (auto simp: tbl_lookup_def split: option.splits)
    then show ?thesis
      using wf first_index_Some by (fastforce simp: conn_key_def conn_wf_def conn_of_def)
  qed
  then have eq: "?open = ?all"
    using conn_lookup_tbl [OF wf] by auto
  show "finite ?open"
    unfolding eq by (rule tbl_open_finite)
  show "card ?open \<le> MAX_TCP_CONNECTIONS"
    unfolding eq using tbl_open_card wf by (metis conn_wf_def)
  assume x: "conn_key x"
  show "fst (conn_update x s t)" if "card ?open < MAX_TCP_CONNECTIONS"
    using wf x
  proof (cases rule: conn_update_cases [where s = s])
    case full
    then show ?thesis
      using tbl_room [of conn_of cs_State TCP_Connection_Closed "ConnectionStateTable t"] wf that
      unfolding eq by (auto simp: conn_wf_def)
  qed simp_all
  show "snd (conn_update x s t) = t \<and> conn_lookup t x = TCP_Connection_Closed"
    if "\<not> fst (conn_update x s t)"
    using wf x
  proof (cases rule: conn_update_cases [where s = s])
    case full
    then show ?thesis
      using conn_lookup_tbl [OF wf x] by (simp add: tbl_lookup_def)
  qed (use that in simp_all)
qed (simp_all add: conn_update_wf conn_update_lookup)


section \<open>The port table\<close>

definition port_wf :: "'a tcp \<Rightarrow> bool" where
  "port_wf t = (length (PortStateTable t) = MAX_OPEN_TCP_PORTS \<and>
     tbl_wf ps_Port ps_State TCP_Port_Closed (PortStateTable t))"

lemma TCP_GetPortState_tbl:
  "TCP_GetPortState P t = tbl_lookup ps_Port ps_State TCP_Port_Closed (PortStateTable t) P"
  by (simp add: TCP_GetPortState_def tbl_lookup_def)

lemma port_update_cases:
  obtains (found) i where
      "first_index (\<lambda>p. ps_Port p = P) (PortStateTable t) = Some i"
      "TCP_SetPortState P s h t = (True, t\<lparr>PortStateTable := (PortStateTable t)
        [i := (PortStateTable t ! i)\<lparr>ps_State := s, ps_ApplicationHandler := h\<rparr>]\<rparr>)"
  | (fresh) i where
      "first_index (\<lambda>p. ps_Port p = P) (PortStateTable t) = None"
      "first_index (\<lambda>p. ps_State p = TCP_Port_Closed) (PortStateTable t) = Some i"
      "TCP_SetPortState P s h t = (True, t\<lparr>PortStateTable := (PortStateTable t)
        [i := (PortStateTable t ! i)\<lparr>ps_Port := P, ps_State := s, ps_ApplicationHandler := h\<rparr>]\<rparr>)"
  | (absent) "first_index (\<lambda>p. ps_Port p = P) (PortStateTable t) = None"
      "s = TCP_Port_Closed" "TCP_SetPortState P s h t = (True, t)"
  | (full) "first_index (\<lambda>p. ps_Port p = P) (PortStateTable t) = None"
      "first_index (\<lambda>p. ps_State p = TCP_Port_Closed) (PortStateTable t) = None"
      "TCP_SetPortState P s h t = (False, t)"
  by (cases "first_index (\<lambda>p. ps_Port p = P) (PortStateTable t)";
      cases "first_index (\<lambda>p. ps_State p = TCP_Port_Closed) (PortStateTable t)"; cases s)
    (auto simp: TCP_SetPortState_def)

lemma port_update_wf: "port_wf t \<Longrightarrow> port_wf (snd (TCP_SetPortState P s h t))"
proof (cases rule: port_update_cases [of P t s h])
  case (found i)
  moreover assume "port_wf t"
  ultimately show ?thesis
    using first_index_Some [OF found(1)] by (simp add: port_wf_def tbl_wf_set [OF _ found(1)])
next
  case (fresh i)
  moreover assume "port_wf t"
  ultimately show ?thesis
    by (simp add: port_wf_def tbl_wf_replace [OF _ fresh(1)])
qed simp_all

lemma port_update_lookup:
  assumes "port_wf t" "fst (TCP_SetPortState P s h t)"
  shows "TCP_GetPortState Q (snd (TCP_SetPortState P s h t)) = (if Q = P then s else TCP_GetPortState Q t)"
proof (cases rule: port_update_cases [of P t s h])
  case (found i)
  then show ?thesis
    using first_index_Some [OF found(1)] by (simp add: TCP_GetPortState_tbl tbl_lookup_set)
next
  case (fresh i)
  then show ?thesis
    using assms(1) first_index_Some [OF fresh(2)]
      tbl_lookup_replace [where k = ps_Port and st = ps_State, OF _ fresh(1)]
    by (simp add: TCP_GetPortState_tbl port_wf_def)
next
  case absent
  then show ?thesis
    by (auto simp: TCP_GetPortState_tbl tbl_lookup_def)
qed (use assms in simp)

interpretation ports: state_table "\<lambda>t P. TCP_GetPortState P t" "\<lambda>P s. TCP_SetPortState P s h"
  TCP_Port_Closed port_wf "\<lambda>_. True" MAX_OPEN_TCP_PORTS for h :: "'a app_handler option"
proof
  fix t :: "'a tcp" and P s
  let ?open = "{k. True \<and> TCP_GetPortState k t \<noteq> TCP_Port_Closed}"
  assume wf: "port_wf t"
  show "finite ?open"
    unfolding TCP_GetPortState_tbl simp_thms by (rule tbl_open_finite)
  show "card ?open \<le> MAX_OPEN_TCP_PORTS"
    using tbl_open_card [of ps_Port ps_State TCP_Port_Closed "PortStateTable t"] wf
    by (simp add: TCP_GetPortState_tbl port_wf_def)
  show "fst (TCP_SetPortState P s h t)" if "card ?open < MAX_OPEN_TCP_PORTS"
  proof (cases rule: port_update_cases [of P t s h])
    case full
    then show ?thesis
      using tbl_room [of ps_Port ps_State TCP_Port_Closed "PortStateTable t"] wf that
      by (auto simp: TCP_GetPortState_tbl port_wf_def)
  qed simp_all
  show "snd (TCP_SetPortState P s h t) = t \<and> TCP_GetPortState P t = TCP_Port_Closed"
    if "\<not> fst (TCP_SetPortState P s h t)"
  proof (cases rule: port_update_cases [of P t s h])
    case full
    then show ?thesis
      by (simp add: TCP_GetPortState_tbl tbl_lookup_def)
  qed (use that in simp_all)
qed (simp_all add: port_update_wf port_update_lookup)


section \<open>The invariant of the module\<close>

definition buffer_ok :: "TCP_ConnectionInfo_t \<Rightarrow> bool" where
  "buffer_ok n = (length (buf_Data (Buffer n)) = unat TCP_WINDOW_SIZE \<and>
     buf_Length (Buffer n) \<le> TCP_WINDOW_SIZE)"

definition tcp_wf :: "'a tcp \<Rightarrow> bool" where
  "tcp_wf t = (conn_wf t \<and> port_wf t \<and> (\<forall>c \<in> set (ConnectionStateTable t). buffer_ok (cs_Info c)))"

lemma upd_info_tables [simp]:
  "PortStateTable (upd_info i f t) = PortStateTable t" "App (upd_info i f t) = App t"
  "length (ConnectionStateTable (upd_info i f t)) = length (ConnectionStateTable t)"
  by (simp_all add: upd_info_def)

lemma conn_update_tables [simp]:
  "PortStateTable (snd (conn_update x s t)) = PortStateTable t" "App (snd (conn_update x s t)) = App t"
  by (auto simp: conn_update_def TCP_SetConnectionState_def split: option.splits)

lemma find_upd_info [simp]:
  "first_index (is_connection P A R) (ConnectionStateTable (upd_info i f t)) =
   first_index (is_connection P A R) (ConnectionStateTable t)"
  unfolding upd_info_def by simp (rule first_index_update, simp add: is_connection_def)

lemma nth_upd_info:
  "j < length (ConnectionStateTable t) \<Longrightarrow> ConnectionStateTable (upd_info i f t) ! j =
   (if j = i then (ConnectionStateTable t ! i)\<lparr>cs_Info := f (info_at i t)\<rparr> else ConnectionStateTable t ! j)"
  by (simp add: upd_info_def)

lemma state_upd_info:
  "j < length (ConnectionStateTable t) \<Longrightarrow>
   cs_State (ConnectionStateTable (upd_info i f t) ! j) = cs_State (ConnectionStateTable t ! j)"
  by (simp add: nth_upd_info)

lemma conn_lookup_upd_info [simp]: "conn_lookup (upd_info i f t) y = conn_lookup t y"
  by (auto simp: conn_lookup_def TCP_GetConnectionState_def state_upd_info dest: first_index_Some
      split: option.splits)

lemma conn_wf_upd_info [simp]:
  assumes "conn_wf t"
  shows "conn_wf (upd_info i f t)"
proof -
  have "length (cs_RemoteAddress (ConnectionStateTable (upd_info i f t) ! j)) = 4"
    if "j < length (ConnectionStateTable t)" for j
    using assms that nth_mem [OF that] by (simp add: conn_wf_def nth_upd_info)
  moreover have "tbl_wf conn_of cs_State TCP_Connection_Closed (ConnectionStateTable (upd_info i f t))"
    using assms by (auto simp: conn_wf_def tbl_wf_def nth_upd_info split: if_splits)
  ultimately show ?thesis
    using assms by (auto simp: conn_wf_def in_set_conv_nth)
qed


lemma tcp_wf_upd_info:
  assumes "tcp_wf t" "i < length (ConnectionStateTable t)" "buffer_ok (f (info_at i t))"
  shows "tcp_wf (upd_info i f t)"
  using assms
  by (auto simp: tcp_wf_def port_wf_def) (auto simp: upd_info_def dest!: subsetD [OF set_update_subset_insert])

lemma tcp_wf_conn_update:
  assumes "tcp_wf t" "conn_key x"
  shows "tcp_wf (snd (conn_update x s t))"
proof -
  have "buffer_ok (cs_Info c)" if "c \<in> set (ConnectionStateTable (snd (conn_update x s t)))" for c
    using assms that nth_mem
    by (auto simp: tcp_wf_def conn_update_def TCP_SetConnectionState_def split: option.splits
        dest!: subsetD [OF set_update_subset_insert] first_index_Some)
  with assms show ?thesis
    by (auto simp: tcp_wf_def conn_update_wf port_wf_def)
qed

section \<open>The connection state machine\<close>

text \<open>
  The transitions of a single connection, for a segment with flags \<open>f\<close> that arrives on an open port.
  \<open>room\<close> tells whether the table can hold the connection.
\<close>

definition tcp_moves :: "(TCP_ConnectionStates_t \<times> u8 \<times> TCP_ConnectionStates_t) list" where
  "tcp_moves =
     [(TCP_Connection_SYNReceived, TCP_FLAG_ACK, TCP_Connection_Established),
      (TCP_Connection_Established, TCP_FLAG_FIN OR TCP_FLAG_ACK, TCP_Connection_CloseWait),
      (TCP_Connection_CloseWait, TCP_FLAG_ACK, TCP_Connection_Closed),
      (TCP_Connection_FINWait1, TCP_FLAG_ACK, TCP_Connection_FINWait2),
      (TCP_Connection_FINWait1, TCP_FLAG_FIN OR TCP_FLAG_ACK, TCP_Connection_Closed),
      (TCP_Connection_FINWait2, TCP_FLAG_FIN OR TCP_FLAG_ACK, TCP_Connection_Closed)]"

inductive tcp_step :: "bool \<Rightarrow> u8 \<Rightarrow> TCP_ConnectionStates_t \<Rightarrow> TCP_ConnectionStates_t \<Rightarrow> bool" where
  reset: "f AND TCP_FLAG_RST \<noteq> 0 \<Longrightarrow> tcp_step room f s TCP_Connection_Closed"
| refused: "f AND TCP_FLAG_RST = 0 \<Longrightarrow> f AND TCP_FLAG_SYN \<noteq> 0 \<Longrightarrow>
    tcp_step False f TCP_Connection_Closed TCP_Connection_Closed"
| accept: "tcp_step True TCP_FLAG_SYN s TCP_Connection_SYNReceived"
| listen: "f AND TCP_FLAG_RST = 0 \<Longrightarrow> f AND TCP_FLAG_SYN \<noteq> 0 \<Longrightarrow> f \<noteq> TCP_FLAG_SYN \<Longrightarrow>
    tcp_step True f s TCP_Connection_Listen"
| move: "(s, f, s') \<in> set tcp_moves \<Longrightarrow> tcp_step room f s s'"
| finish: "f AND TCP_FLAG_RST = 0 \<Longrightarrow> f AND TCP_FLAG_SYN = 0 \<Longrightarrow>
    tcp_step room f TCP_Connection_Closing TCP_Connection_FINWait1"
| stay: "f AND TCP_FLAG_RST = 0 \<Longrightarrow> f AND TCP_FLAG_SYN = 0 \<Longrightarrow> s \<noteq> TCP_Connection_Closing \<Longrightarrow>
    \<forall>s'. (s, f, s') \<notin> set tcp_moves \<Longrightarrow> tcp_step room f s s"

fun flow_state :: "'a tcp_flow \<Rightarrow> 'a tcp" where
  "flow_state (Return r t out) = t"
| "flow_state (Continue b t out) = t"

text \<open>
  What a step of the module keeps: its invariant, the ports, the application, the state of every
  other connection, and the whole table entry (addresses, state, sequence numbers and buffer) of every
  other open connection.
\<close>

definition keeps :: "u16 \<times> IP_Address_t \<times> u16 \<Rightarrow> 'a tcp \<Rightarrow> 'a tcp \<Rightarrow> bool" where
  "keeps x t t' = (tcp_wf t' \<and> PortStateTable t' = PortStateTable t \<and> App t' = App t \<and>
     (\<forall>y. conn_key y \<longrightarrow> y \<noteq> x \<longrightarrow> conn_lookup t' y = conn_lookup t y) \<and>
     (\<forall>i < MAX_TCP_CONNECTIONS. conn_of (ConnectionStateTable t ! i) \<noteq> x \<longrightarrow>
        cs_State (ConnectionStateTable t ! i) \<noteq> TCP_Connection_Closed \<longrightarrow>
        ConnectionStateTable t' ! i = ConnectionStateTable t ! i))"

lemma keeps_refl: "tcp_wf t \<Longrightarrow> keeps x t t"
  by (simp add: keeps_def)

lemma keeps_trans: "keeps x t t' \<Longrightarrow> keeps x t' t'' \<Longrightarrow> keeps x t t''"
  by (simp add: keeps_def)

lemma conn_update_entry:
  assumes "conn_wf t" "conn_key x" "conn_of (ConnectionStateTable t ! i) \<noteq> x"
    "cs_State (ConnectionStateTable t ! i) \<noteq> TCP_Connection_Closed"
  shows "ConnectionStateTable (snd (conn_update x s t)) ! i = ConnectionStateTable t ! i"
  using assms(1,2)
proof (cases rule: conn_update_cases [where s = s])
  case (found j)
  then show ?thesis
    using assms(3) first_index_Some [OF found(1)] by (cases "i = j") simp_all
next
  case (fresh j)
  then show ?thesis
    using assms(4) first_index_Some [OF fresh(2)] by (cases "i = j") simp_all
qed simp

lemma keeps_conn_update: "tcp_wf t \<Longrightarrow> conn_key x \<Longrightarrow> keeps x t (snd (conn_update x s t))"
  by (simp add: keeps_def tcp_wf_conn_update) (simp add: conns.update_frame conn_update_entry tcp_wf_def)

definition entry_for :: "u16 \<times> IP_Address_t \<times> u16 \<Rightarrow> 'a tcp \<Rightarrow> nat \<Rightarrow> bool" where
  "entry_for x t i = (i < length (ConnectionStateTable t) \<and> conn_of (ConnectionStateTable t ! i) = x)"

lemma keeps_upd_info:
  assumes "tcp_wf t" "entry_for x t i"
    and "buffer_ok (f (info_at i t))"
  shows "keeps x t (upd_info i f t)"
  using assms by (auto simp: keeps_def entry_for_def tcp_wf_upd_info) (auto simp: nth_upd_info tcp_wf_def conn_wf_def)

lemma buffer_ok_nth: "tcp_wf t \<Longrightarrow> i < length (ConnectionStateTable t) \<Longrightarrow> buffer_ok (info_at i t)"
  by (simp add: tcp_wf_def)


lemma claim_keeps:
  assumes "tcp_wf t" "entry_for x t ci"
  shows "keeps x t (upd_info ci (\<lambda>n. n\<lparr>Buffer := (Buffer n)
    \<lparr>buf_Direction := d, buf_InUse := u, buf_Length := 0\<rparr>\<rparr>) t)"
  using assms buffer_ok_nth [OF assms(1), of ci] by (intro keeps_upd_info) (simp_all add: entry_for_def buffer_ok_def)

lemma append_length:
  assumes "buffer_ok n" "wrn (buf_Data (Buffer n)) (unat (buf_Length (Buffer n))) payload = Some Data"
    "length payload = unat D"
  shows "length Data = unat TCP_WINDOW_SIZE \<and> buf_Length (Buffer n) + D \<le> TCP_WINDOW_SIZE \<and>
    unat (buf_Length (Buffer n) + D) = unat (buf_Length (Buffer n)) + unat D"
proof -
  have "unat (buf_Length (Buffer n)) + unat D \<le> unat TCP_WINDOW_SIZE"
    using assms by (simp add: wrn_def buffer_ok_def split: if_splits)
  moreover then have "unat (buf_Length (Buffer n) + D) = unat (buf_Length (Buffer n)) + unat D"
    by (simp add: unat_word_ariths TCP_WINDOW_SIZE_def)
  ultimately show ?thesis
    using assms length_wrn [OF assms(2)] by (simp add: word_le_nat_alt buffer_ok_def)
qed

lemma receive_keeps:
  assumes "tcp_wf t" "entry_for x t ci"
    and "TCP_receive_data fin ih j th ci t out p = Some flow"
  shows "keeps x t (flow_state flow) \<and> conn_lookup (flow_state flow) y = conn_lookup t y"
proof -
  define t1 where "t1 = (if \<not> buf_InUse (Buffer (info_at ci t)) \<and> \<not> buf_Ready (Buffer (info_at ci t))
    then upd_info ci (\<lambda>n. n\<lparr>Buffer := (Buffer n)
      \<lparr>buf_Direction := TCP_PACKETDIR_IN, buf_InUse := True, buf_Length := 0\<rparr>\<rparr>) t else t)"
  let ?b = "Buffer (info_at ci t1)"
  have t1: "keeps x t t1" "conn_lookup t1 y = conn_lookup t y" and
    at: "entry_for x t1 ci"
    using assms(1,2) by (simp_all add: t1_def keeps_refl claim_keeps) (simp add: entry_for_def nth_upd_info)
  then have len: "ci < length (ConnectionStateTable t1)"
    by (simp add: entry_for_def)
  have wf1: "tcp_wf t1"
    using t1(1) by (simp add: keeps_def)
  show ?thesis
  proof (cases "buf_Direction ?b = TCP_PACKETDIR_IN \<and> buf_Length ?b \<noteq> TCP_WINDOW_SIZE")
    case False
    then show ?thesis
      using assms(3) t1 unfolding TCP_receive_data_def t1_def [symmetric] Let_def by auto
  next
    case True
    define D where "D = SwapEndian_16 False (ip_TotalLength ih) - ucast (ip_HeaderLength ih) * 4 -
      ucast (tcp_DataOffset th) * 4"
    from True assms(3) obtain payload Data where
      *: "rdn fin (j + unat (ucast (tcp_DataOffset th) * 4 :: u16)) (unat D) = Some payload"
        "wrn (buf_Data ?b) (unat (buf_Length ?b)) payload = Some Data"
      unfolding TCP_receive_data_def t1_def [symmetric] Let_def D_def [symmetric]
      by (auto simp: bind_Some_conv)
    define t2 where "t2 = upd_info ci (\<lambda>n. n\<lparr>SequenceNumberIn := SequenceNumberIn n + ucast D,
      Buffer := (Buffer n)\<lparr>buf_Data := Data, buf_Length := buf_Length ?b + D\<rparr>\<rparr>) t1"
    have "keeps x t1 t2"
      unfolding t2_def using wf1 len at append_length [OF buffer_ok_nth [OF wf1 len] *(2)] length_rdn [OF *(1)]
      by (intro keeps_upd_info) (simp_all add: buffer_ok_def)
    with t1 have t2: "keeps x t t2" "conn_lookup t2 y = conn_lookup t y" "tcp_wf t2"
      by (auto simp: keeps_def t2_def)
    have "keeps x t2 (upd_info ci (\<lambda>n. n\<lparr>Buffer := (Buffer n)\<lparr>buf_InUse := False, buf_Ready := True\<rparr>\<rparr>) t2)"
      using t2(3) len at buffer_ok_nth [OF t2(3), of ci]
      by (intro keeps_upd_info) (simp_all add: entry_for_def buffer_ok_def t2_def nth_upd_info)
    with t2 have t3: "keeps x t (upd_info ci
        (\<lambda>n. n\<lparr>Buffer := (Buffer n)\<lparr>buf_InUse := False, buf_Ready := True\<rparr>\<rparr>) t2)"
      using keeps_trans by blast
    show ?thesis
      using True assms(3) * t2 t3
      unfolding TCP_receive_data_def t1_def [symmetric] Let_def D_def [symmetric]
      by (auto simp: bind_Some_conv t2_def split: if_splits)
  qed
qed


text \<open>The switch, on the states it tests.\<close>

lemma present_update:
  "tcp_wf t \<Longrightarrow> conn_key x \<Longrightarrow> conn_lookup t x \<noteq> TCP_Connection_Closed \<Longrightarrow>
   conn_lookup (snd (conn_update x s t)) x = s \<and> fst (conn_update x s t)"
  using conns.update_same [of t x s] conns.update_present [of t x s] by (simp add: tcp_wf_def)

lemma info_range:
  "TCP_GetConnectionInfo P A R t = Some i \<Longrightarrow> i < length (ConnectionStateTable t)"
  by (auto simp: TCP_GetConnectionInfo_def dest: first_index_Some)

lemma info_entry:
  assumes "TCP_GetConnectionInfo P A R t = Some i" "tcp_wf t" "conn_key (P, A, R)"
  shows "entry_for (P, A, R) t i"
  using assms find_connection [of t P A R] first_index_Some [of "\<lambda>c. conn_of c = (P, A, R)"]
  by (simp add: TCP_GetConnectionInfo_def tcp_wf_def entry_for_def)

lemma keeps_update_info:
  assumes "tcp_wf t" "conn_key x" "entry_for x (snd (conn_update x s t)) i"
    "\<And>n. buffer_ok n \<Longrightarrow> buffer_ok (f n)"
  shows "keeps x t (upd_info i f (snd (conn_update x s t)))"
  using assms tcp_wf_conn_update [OF assms(1,2), of s]
  by (intro keeps_trans [OF keeps_conn_update keeps_upd_info]) (auto simp: entry_for_def intro: buffer_ok_nth)

lemma keeps_info_update:
  assumes "tcp_wf t" "conn_key x" "entry_for x t i" "\<And>n. buffer_ok n \<Longrightarrow> buffer_ok (f n)"
  shows "keeps x t (snd (conn_update x s (upd_info i f t)))"
proof -
  have "keeps x t (upd_info i f t)"
    using assms by (intro keeps_upd_info) (auto simp: entry_for_def intro: buffer_ok_nth)
  moreover from this have "keeps x (upd_info i f t) (snd (conn_update x s (upd_info i f t)))"
    using assms by (intro keeps_conn_update) (auto simp: keeps_def)
  ultimately show ?thesis
    by (rule keeps_trans)
qed

lemma buffer_ok_simps [simp]:
  "buffer_ok (n\<lparr>SequenceNumberIn := a\<rparr>) = buffer_ok n"
  "buffer_ok (n\<lparr>SequenceNumberOut := a\<rparr>) = buffer_ok n"
  "buffer_ok (n\<lparr>Buffer := (Buffer n)\<lparr>buf_InUse := u\<rparr>\<rparr>) = buffer_ok n"
  "buffer_ok (n\<lparr>Buffer := (Buffer n)\<lparr>buf_Ready := u\<rparr>\<rparr>) = buffer_ok n"
  by (simp_all add: buffer_ok_def)

definition switch_next :: "u8 \<Rightarrow> TCP_ConnectionStates_t \<Rightarrow> TCP_ConnectionStates_t" where
  "switch_next f s =
     (case s of
        TCP_Connection_Listen \<Rightarrow> if f = TCP_FLAG_SYN then TCP_Connection_SYNReceived else s
      | TCP_Connection_Closing \<Rightarrow> TCP_Connection_FINWait1
      | _ \<Rightarrow> (case map_of (map (\<lambda>(a, f, b). ((a, f), b)) tcp_moves) (s, f) of
               Some s' \<Rightarrow> s' | None \<Rightarrow> s))"

lemma fin_ack_neq [simp]: "TCP_FLAG_FIN OR TCP_FLAG_ACK \<noteq> TCP_FLAG_ACK" "TCP_FLAG_ACK \<noteq> TCP_FLAG_FIN OR TCP_FLAG_ACK"
  "TCP_FLAG_ACK OR TCP_FLAG_PSH \<noteq> TCP_FLAG_FIN OR TCP_FLAG_ACK" "TCP_FLAG_ACK \<noteq> TCP_FLAG_SYN"
  by (simp_all add: tcp_flags)

lemma switch_step:
  assumes wf: "tcp_wf t" and x: "conn_key x"
    and x_def: "x = (tcp_DestinationPort th, ip_SourceAddress ih, tcp_SourcePort th)"
    and run: "TCP_state_switch fin ih j th t out p = Some flow"
  shows "keeps x t (flow_state flow) \<and>
    conn_lookup (flow_state flow) x = switch_next (tcp_Flags th) (conn_lookup t x)"
proof -
  let ?P = "tcp_DestinationPort th" and ?A = "ip_SourceAddress ih" and ?R = "tcp_SourcePort th"
  have get: "TCP_GetConnectionState ?P ?A ?R t = conn_lookup t x"
    and set: "TCP_SetConnectionState ?P ?A ?R s t' = conn_update x s t'" for s t'
    by (simp_all add: conn_lookup_def conn_update_def x_def)
  note run' = run [unfolded TCP_state_switch_def Let_def get set]
  have info: "entry_for x t i" if "TCP_GetConnectionInfo ?P ?A ?R t = Some i" for i
    using info_entry [OF that wf] x by (simp add: x_def)
  have info_upd: "entry_for x (snd (conn_update x s t)) i"
    if "TCP_GetConnectionInfo ?P ?A ?R (snd (conn_update x s t)) = Some i" for s i
    using info_entry [OF that tcp_wf_conn_update [OF wf x]] x by (simp add: x_def)
  note upd = present_update [OF wf x] keeps_refl [OF wf, of x] keeps_conn_update [OF wf x]
  have upd2: "conn_lookup (snd (conn_update x s (upd_info i f t))) x = s"
    if "conn_lookup t x \<noteq> TCP_Connection_Closed" "entry_for x t i" "\<And>n. buffer_ok n \<Longrightarrow> buffer_ok (f n)"
    for s i f
    using that wf x by (intro conjunct1 [OF present_update] tcp_wf_upd_info) (auto simp: entry_for_def intro: buffer_ok_nth)
  show ?thesis
  proof (cases "conn_lookup t x")
    case TCP_Connection_Listen
    then obtain t1 where t1: "conn_update x TCP_Connection_SYNReceived t = (True, t1)"
      "conn_lookup t1 x = TCP_Connection_SYNReceived"
      using upd(1) [of TCP_Connection_SYNReceived]
      by (cases "conn_update x TCP_Connection_SYNReceived t") auto
    with TCP_Connection_Listen run' upd(2) show ?thesis
      by (auto simp: bind_Some_conv switch_next_def buffer_ok_def split: if_splits
          dest!: info_upd [of TCP_Connection_SYNReceived, unfolded t1 snd_conv]
          intro!: keeps_update_info [OF wf x, of TCP_Connection_SYNReceived, unfolded t1 snd_conv])
  next
    case TCP_Connection_SYNReceived
    with run' upd show ?thesis
      by (auto simp: bind_Some_conv switch_next_def tcp_moves_def split: if_splits
          dest!: info info_upd intro!: keeps_update_info [OF wf x])
  next
    case TCP_Connection_Established
    show ?thesis
    proof (cases "tcp_Flags th = TCP_FLAG_FIN OR TCP_FLAG_ACK")
      case True
      with TCP_Connection_Established run' upd show ?thesis
        by (auto simp: bind_Some_conv switch_next_def tcp_moves_def
            dest!: info info_upd intro!: keeps_update_info [OF wf x])
    next
      case False
      with TCP_Connection_Established run' upd(2) receive_keeps [OF wf, where x = x and y = x]
      show ?thesis
        by (auto simp: bind_Some_conv switch_next_def tcp_moves_def split: if_splits dest!: info info_upd)
    qed
  next
    case TCP_Connection_Closing
    with run' upd upd2 show ?thesis
      by (auto simp: bind_Some_conv switch_next_def split: if_splits
          dest!: info info_upd intro!: keeps_info_update [OF wf x])
  next
    case TCP_Connection_FINWait1
    with run' upd upd2 show ?thesis
      by (auto simp: bind_Some_conv switch_next_def tcp_moves_def split: if_splits
          dest!: info info_upd intro!: keeps_info_update [OF wf x])
  next
    case TCP_Connection_FINWait2
    with run' upd upd2 show ?thesis
      by (auto simp: bind_Some_conv switch_next_def tcp_moves_def split: if_splits
          dest!: info info_upd intro!: keeps_info_update [OF wf x])
  next
    case TCP_Connection_CloseWait
    with run' upd show ?thesis
      by (auto simp: bind_Some_conv switch_next_def tcp_moves_def split: if_splits)
  qed (use run' upd in \<open>auto simp: switch_next_def tcp_moves_def\<close>)
qed


text \<open>The whole branch for an open port follows the transition relation.\<close>

lemma moves_lookup: "map_of (map (\<lambda>(a, f, b). ((a, f), b)) tcp_moves) (s, f) = Some s' \<longleftrightarrow> (s, f, s') \<in> set tcp_moves"
  by (auto simp: tcp_moves_def split: if_splits)

lemma moves_plain: "(s, f, s') \<in> set tcp_moves \<Longrightarrow> f AND TCP_FLAG_RST = 0 \<and> f AND TCP_FLAG_SYN = 0"
  by (auto simp: tcp_moves_def tcp_flags)

lemma switch_next_step:
  assumes "f AND TCP_FLAG_RST = 0" "f AND TCP_FLAG_SYN = 0"
  shows "tcp_step room f s (switch_next f s)"
proof (cases "s = TCP_Connection_Listen \<or> s = TCP_Connection_Closing")
  case True
  moreover have "f \<noteq> TCP_FLAG_SYN"
    using assms(2) by (auto simp: tcp_flags)
  moreover have "\<forall>s'. (TCP_Connection_Listen, f, s') \<notin> set tcp_moves"
    by (simp add: tcp_moves_def)
  ultimately show ?thesis
    using assms by (auto simp: switch_next_def intro: tcp_step.stay tcp_step.finish)
next
  case False
  then have nx: "switch_next f s =
      (case map_of (map (\<lambda>(a, f, b). ((a, f), b)) tcp_moves) (s, f) of Some s' \<Rightarrow> s' | None \<Rightarrow> s)"
    by (cases s) (auto simp: switch_next_def)
  show ?thesis
  proof (cases "map_of (map (\<lambda>(a, f, b). ((a, f), b)) tcp_moves) (s, f)")
    case None
    then have "\<forall>s'. (s, f, s') \<notin> set tcp_moves"
      using moves_lookup [of s f] by auto
    with None False assms nx show ?thesis
      by (auto intro: tcp_step.stay)
  next
    case (Some s')
    with nx moves_lookup [of s f s'] show ?thesis
      by (auto intro: tcp_step.move)
  qed
qed

lemma open_port_step:
  assumes wf: "tcp_wf t" and x: "conn_key x"
    and x_def: "x = (tcp_DestinationPort th, ip_SourceAddress ih, tcp_SourcePort th)"
    and run: "TCP_open_port fin ih j th t out p = Some flow"
  shows "keeps x t (flow_state flow) \<and>
    tcp_step (fst (conn_update x TCP_Connection_Listen t)) (tcp_Flags th) (conn_lookup t x)
      (conn_lookup (flow_state flow) x)"
proof -
  let ?f = "tcp_Flags th"
  have set: "TCP_SetConnectionState (tcp_DestinationPort th) (ip_SourceAddress ih) (tcp_SourcePort th) s t' =
      conn_update x s t'" for s t'
    by (simp add: conn_update_def x_def)
  define t1 where "t1 = (if ?f AND TCP_FLAG_SYN \<noteq> 0 then snd (conn_update x TCP_Connection_Listen t) else t)"
  have t1: "keeps x t t1"
    using keeps_refl [OF wf] keeps_conn_update [OF wf x] by (simp add: t1_def)
  then have wf1: "tcp_wf t1"
    by (simp add: keeps_def)
  note run' = run [unfolded TCP_open_port_def Let_def set, folded t1_def]
  show ?thesis
  proof (cases "?f AND TCP_FLAG_RST = 0")
    case False
    have "flow_state flow = snd (conn_update x TCP_Connection_Closed t1)"
      using run' False
      by (cases "conn_update x TCP_Connection_Closed t1") (auto simp: bind_Some_conv split: bool.splits)
    moreover have "conn_lookup (snd (conn_update x TCP_Connection_Closed t1)) x = TCP_Connection_Closed"
      using conns.update_same [of t1 x TCP_Connection_Closed] wf1 x by (simp add: tcp_wf_def)
    ultimately show ?thesis
      using keeps_trans [OF t1 keeps_conn_update [OF wf1 x]] False by (auto intro: tcp_step.reset)
  next
    case True
    have sw: "keeps x t1 (flow_state flow)" "conn_lookup (flow_state flow) x = switch_next ?f (conn_lookup t1 x)"
      using switch_step [OF wf1 x x_def] run' True by auto
    show ?thesis
    proof (cases "?f AND TCP_FLAG_SYN = 0")
      case no_syn: True
      then have "t1 = t"
        by (simp add: t1_def)
      with sw True no_syn show ?thesis
        by (simp add: switch_next_step)
    next
      case syn: False
      then have "conn_lookup t1 x =
          (if fst (conn_update x TCP_Connection_Listen t) then TCP_Connection_Listen else TCP_Connection_Closed)"
        using conns.update_same [of t x TCP_Connection_Listen] wf x by (simp add: t1_def tcp_wf_def)
      moreover have "conn_lookup t x = TCP_Connection_Closed" if "\<not> fst (conn_update x TCP_Connection_Listen t)"
        using conns.update_refused [of t x TCP_Connection_Listen] wf x that by (simp add: tcp_wf_def)
      ultimately show ?thesis
        using sw keeps_trans [OF t1 sw(1)] True syn
        by (auto simp: switch_next_def tcp_moves_def intro: tcp_step.intros)
    qed
  qed
qed


section \<open>The response\<close>

text \<open>A header written with a zero checksum word, completed with the checksum of the segment.\<close>

lemma segment_checksum:
  assumes len: "length src = 4" "length dst = 4"
    and seg: "rdn m p (unat n) = Some (enc_tcp h @ payload)" "20 \<le> unat n" "tcp_Checksum h = 0"
    and room: "p + unat n + (if even (unat n) then 0 else 1) \<le> length m"
  shows "\<exists>c m'. TCP_Checksum16 m p src dst n = Some c \<and> wr16 m (p + 16) c = Some m' \<and>
    rdn m' p (unat n) = Some (enc_tcp (h\<lparr>tcp_Checksum := c\<rparr>) @ payload) \<and>
    tcp_valid src dst (enc_tcp (h\<lparr>tcp_Checksum := c\<rparr>) @ payload)"
proof -
  obtain c where c: "TCP_Checksum16 m p src dst n = Some c"
    using TCP_Checksum16_value [OF len room] by blast
  have zero: "rd16 m (p + 16) = Some 0"
    using rd16_of_rdn [OF seg(1), of 16] seg(2,3)
    by (simp add: enc_tcp_def le16_def le32_def at16_def)
  then obtain m' where m': "wr16 m (p + 16) c = Some m'"
    by (auto simp: wr16_def rd16_def split: if_splits)
  have "rdn m' p (unat n) = Some (enc_tcp (h\<lparr>tcp_Checksum := c\<rparr>) @ payload)"
    using rdn_wr16 [OF seg(1) m'] seg(2) by (simp add: enc_tcp_def le16_def le32_def)
  moreover from this have "take (unat n) (drop p m') = enc_tcp (h\<lparr>tcp_Checksum := c\<rparr>) @ payload"
    by (simp add: rdn_def split: if_splits)
  ultimately show ?thesis
    using c m' TCP_Checksum16_verifies [OF len room _ c zero m'] seg(2) by auto
qed

lemma tcp_header_length: "length (enc_tcp h) = 20"
  using tcp.enc_length [of h] by (simp add: sizeof_TCP_Header_t_def)

lemma TCP_respond_result:
  assumes ci: "TCP_GetConnectionInfo (tcp_DestinationPort th) (ip_SourceAddress ih) (tcp_SourcePort th) t = Some ci"
    and out: "p + 20 \<le> length out" "rd8 out (p + 13) = Some f" and ih: "ip_ok ih"
  shows "\<exists>c out'. TCP_respond ih th t out p = Some (20, t, out') \<and>
    rdn out' p 20 = Some (enc_tcp ((TCP_response_header th (info_at ci t) f)\<lparr>tcp_Checksum := c\<rparr>)) \<and>
    tcp_valid (ip_DestinationAddress ih) (ip_SourceAddress ih)
      (enc_tcp ((TCP_response_header th (info_at ci t) f)\<lparr>tcp_Checksum := c\<rparr>))"
proof -
  let ?h = "TCP_response_header th (info_at ci t) f"
  obtain o1 where o1: "wrn out p (enc_tcp ?h) = Some o1"
    using tcp.put_defined [of p out ?h] out(1) by (auto simp: sizeof_TCP_Header_t_def)
  have bytes: "rdn o1 p (unat (20 :: u16)) = Some (enc_tcp ?h @ [])"
    using rdn_wrn [OF o1] tcp_header_length by simp
  have room: "p + unat (20 :: u16) + (if even (unat (20 :: u16)) then 0 else 1) \<le> length o1"
    using out(1) length_wrn [OF o1] by simp
  have "tcp_Checksum ?h = 0"
    by (simp add: TCP_response_header_def)
  with segment_checksum [OF _ _ bytes _ _ room, where src = "ip_DestinationAddress ih" and
      dst = "ip_SourceAddress ih"] ih obtain c o2 where
    "TCP_Checksum16 o1 p (ip_DestinationAddress ih) (ip_SourceAddress ih) 20 = Some c"
    "wr16 o1 (p + 16) c = Some o2" "rdn o2 p 20 = Some (enc_tcp (?h\<lparr>tcp_Checksum := c\<rparr>))"
    "tcp_valid (ip_DestinationAddress ih) (ip_SourceAddress ih) (enc_tcp (?h\<lparr>tcp_Checksum := c\<rparr>))"
    by (auto simp: ip_ok_def)
  with ci out o1 show ?thesis
    by (auto simp: TCP_respond_def put_tcp_def sizeof_TCP_Header_t_def)
qed

lemma info_present:
  assumes "conn_lookup t (P, A, R) \<noteq> TCP_Connection_Closed"
  shows "\<exists>ci < length (ConnectionStateTable t). TCP_GetConnectionInfo P A R t = Some ci"
  using assms by (auto simp: conn_lookup_def TCP_GetConnectionState_def TCP_GetConnectionInfo_def
      split: option.splits dest: first_index_Some)


text \<open>A first SYN, followed through the module.\<close>

lemma syn_accepted:
  assumes wf: "tcp_wf t" and ih: "ip_ok ih"
    and x: "x = (tcp_DestinationPort th, ip_SourceAddress ih, tcp_SourcePort th)"
    and syn: "tcp_Flags th = TCP_FLAG_SYN" and room: "fst (conn_update x TCP_Connection_Listen t)"
    and out: "p + 20 \<le> length out"
  shows "\<exists>t2 ci out'. TCP_open_port fin ih j th t out p = Some (Continue True t2 out') \<and>
    TCP_GetConnectionInfo (tcp_DestinationPort th) (ip_SourceAddress ih) (tcp_SourcePort th) t2 = Some ci \<and>
    SequenceNumberIn (info_at ci t2) = SwapEndian_32 False (tcp_SequenceNumber th) + 1 \<and>
    SequenceNumberOut (info_at ci t2) = 0 \<and> \<not> buf_InUse (Buffer (info_at ci t2)) \<and>
    length out' = length out \<and> rd8 out' (p + 13) = Some (TCP_FLAG_SYN OR TCP_FLAG_ACK)"
proof -
  let ?P = "tcp_DestinationPort th" and ?A = "ip_SourceAddress ih" and ?R = "tcp_SourcePort th"
  have key: "conn_key x"
    using ih by (simp add: x conn_key_def ip_ok_def)
  have get: "TCP_GetConnectionState ?P ?A ?R t' = conn_lookup t' x"
    and set: "TCP_SetConnectionState ?P ?A ?R s t' = conn_update x s t'" for s t'
    by (simp_all add: conn_lookup_def conn_update_def x)
  define t1 where "t1 = snd (conn_update x TCP_Connection_Listen t)"
  have wf1: "tcp_wf t1" and l1: "conn_lookup t1 x = TCP_Connection_Listen"
    using wf key room conns.update_same [of t x TCP_Connection_Listen]
    by (auto simp: t1_def tcp_wf_conn_update tcp_wf_def [of t])
  obtain t2 where t2: "conn_update x TCP_Connection_SYNReceived t1 = (True, t2)"
      "conn_lookup t2 x = TCP_Connection_SYNReceived"
    using present_update [OF wf1 key, of TCP_Connection_SYNReceived] l1
    by (cases "conn_update x TCP_Connection_SYNReceived t1") auto
  then obtain ci where ci: "ci < length (ConnectionStateTable t2)" "TCP_GetConnectionInfo ?P ?A ?R t2 = Some ci"
    using info_present [of t2 ?P ?A ?R] by (auto simp: x)
  define t3 where "t3 = upd_info ci (\<lambda>n. n\<lparr>SequenceNumberIn := SwapEndian_32 False (tcp_SequenceNumber th) + 1,
    SequenceNumberOut := 0, Buffer := (Buffer n)\<lparr>buf_InUse := False\<rparr>\<rparr>) t2"
  let ?out = "out[p + 13 := TCP_FLAG_SYN OR TCP_FLAG_ACK]"
  have w: "wr8 out (p + 13) (TCP_FLAG_SYN OR TCP_FLAG_ACK) = Some ?out"
    using out by (simp add: wr8_def)
  have "TCP_open_port fin ih j th t out p = Some (Continue True t3 ?out)"
    unfolding TCP_open_port_def TCP_state_switch_def Let_def get set t1_def [symmetric] l1 syn
    using t2 ci w l1 by (simp add: tcp_flags t3_def)
  moreover have "TCP_GetConnectionInfo ?P ?A ?R t3 = Some ci"
    using ci by (simp add: TCP_GetConnectionInfo_def t3_def)
  ultimately show ?thesis
    using ci out by (intro exI [of _ t3] exI [of _ ci] exI [of _ ?out])
      (simp add: t3_def nth_upd_info rd8_def)
qed


text \<open>A pushed segment that finds the connection's buffer idle.\<close>

definition segment_data :: "IP_Header_t \<Rightarrow> TCP_Header_t \<Rightarrow> u16" where
  "segment_data ih th = SwapEndian_16 False (ip_TotalLength ih) - ucast (ip_HeaderLength ih) * 4 -
     ucast (tcp_DataOffset th) * 4"

definition data_start :: "TCP_Header_t \<Rightarrow> nat" where
  "data_start th = unat (ucast (tcp_DataOffset th) * 4 :: u16)"

lemma idle_claim:
  assumes "ci < length (ConnectionStateTable t)"
  defines "t1 \<equiv> upd_info ci (\<lambda>n. n\<lparr>Buffer := (Buffer n)
    \<lparr>buf_Direction := TCP_PACKETDIR_IN, buf_InUse := True, buf_Length := 0\<rparr>\<rparr>) t"
  shows "info_at ci t1 = (info_at ci t)\<lparr>Buffer := (Buffer (info_at ci t))
    \<lparr>buf_Direction := TCP_PACKETDIR_IN, buf_InUse := True, buf_Length := 0\<rparr>\<rparr>"
  using assms(1) unfolding t1_def by (simp add: nth_upd_info)

lemma push_received:
  assumes wf: "tcp_wf t" and ci: "ci < length (ConnectionStateTable t)"
    and idle: "\<not> buf_InUse (Buffer (info_at ci t))" "\<not> buf_Ready (Buffer (info_at ci t))"
    and psh: "tcp_Flags th = TCP_FLAG_ACK OR TCP_FLAG_PSH" and out: "p + 13 < length out"
    and fits: "unat (segment_data ih th) \<le> unat TCP_WINDOW_SIZE"
    and src: "rdn fin (j + data_start th) (unat (segment_data ih th)) = Some payload"
  shows "\<exists>t'. TCP_receive_data fin ih j th ci t out p =
      Some (Continue True t' (out[p + 13 := TCP_FLAG_ACK])) \<and>
    length (ConnectionStateTable t') = length (ConnectionStateTable t) \<and>
    (\<forall>P A R. TCP_GetConnectionInfo P A R t' = TCP_GetConnectionInfo P A R t) \<and>
    SequenceNumberIn (info_at ci t') = SequenceNumberIn (info_at ci t) + ucast (segment_data ih th) \<and>
    SequenceNumberOut (info_at ci t') = SequenceNumberOut (info_at ci t) \<and>
    take (length payload) (buf_Data (Buffer (info_at ci t'))) = payload \<and>
    buf_Length (Buffer (info_at ci t')) = segment_data ih th \<and>
    buf_Ready (Buffer (info_at ci t')) \<and> \<not> buf_InUse (Buffer (info_at ci t')) \<and>
    buf_Direction (Buffer (info_at ci t')) = TCP_PACKETDIR_IN"
proof -
  let ?D = "segment_data ih th"
  define t1 where "t1 = upd_info ci (\<lambda>n. n\<lparr>Buffer := (Buffer n)
    \<lparr>buf_Direction := TCP_PACKETDIR_IN, buf_InUse := True, buf_Length := 0\<rparr>\<rparr>) t"
  let ?n = "info_at ci t1"
  have n: "?n = (info_at ci t)\<lparr>Buffer := (Buffer (info_at ci t))
      \<lparr>buf_Direction := TCP_PACKETDIR_IN, buf_InUse := True, buf_Length := 0\<rparr>\<rparr>"
    unfolding t1_def using idle_claim [OF ci] .
  have "length (buf_Data (Buffer ?n)) = 512"
    using buffer_ok_nth [OF wf ci] by (simp add: n buffer_ok_def TCP_WINDOW_SIZE_def)
  then obtain Data where Data: "wrn (buf_Data (Buffer ?n)) 0 payload = Some Data" "take (length payload) Data = payload"
    using fits length_rdn [OF src] by (simp add: wrn_def TCP_WINDOW_SIZE_def)
  define t2 where "t2 = upd_info ci (\<lambda>n. n\<lparr>SequenceNumberIn := SequenceNumberIn n + ucast ?D,
    Buffer := (Buffer n)\<lparr>buf_Data := Data, buf_Length := ?D\<rparr>\<rparr>) t1"
  define t3 where "t3 = upd_info ci (\<lambda>n. n\<lparr>Buffer := (Buffer n)\<lparr>buf_InUse := False, buf_Ready := True\<rparr>\<rparr>) t2"
  have "TCP_receive_data fin ih j th ci t out p = Some (Continue True t3 (out[p + 13 := TCP_FLAG_ACK]))"
    unfolding TCP_receive_data_def segment_data_def [symmetric] Let_def
    using idle src Data out psh
    by (auto simp: t1_def [symmetric] data_start_def [symmetric] n wr8_def t2_def t3_def
        TCP_WINDOW_SIZE_def TCP_FLAG_PSH_def)
  moreover have "info_at ci t3 = (info_at ci t)\<lparr>
      SequenceNumberIn := SequenceNumberIn (info_at ci t) + ucast ?D,
      Buffer := (Buffer (info_at ci t))\<lparr>buf_Direction := TCP_PACKETDIR_IN, buf_Length := ?D,
        buf_Data := Data, buf_InUse := False, buf_Ready := True\<rparr>\<rparr>"
    using ci unfolding t3_def t2_def t1_def by (simp add: nth_upd_info)
  moreover have "TCP_GetConnectionInfo P A R t3 = TCP_GetConnectionInfo P A R t" for P A R
    by (simp add: TCP_GetConnectionInfo_def t3_def t2_def t1_def)
  ultimately show ?thesis
    using Data(2) by (intro exI [of _ t3]) (simp add: t3_def t2_def t1_def)
qed


lemma push_overrun:
  assumes wf: "tcp_wf t" and ci: "ci < length (ConnectionStateTable t)"
    and idle: "\<not> buf_InUse (Buffer (info_at ci t))" "\<not> buf_Ready (Buffer (info_at ci t))"
    and bad: "unat TCP_WINDOW_SIZE < unat (segment_data ih th) \<or>
      rdn fin (j + data_start th) (unat (segment_data ih th)) = None"
  shows "TCP_receive_data fin ih j th ci t out p = None"
proof -
  define t1 where "t1 = upd_info ci (\<lambda>n. n\<lparr>Buffer := (Buffer n)
    \<lparr>buf_Direction := TCP_PACKETDIR_IN, buf_InUse := True, buf_Length := 0\<rparr>\<rparr>) t"
  have n: "info_at ci t1 = (info_at ci t)\<lparr>Buffer := (Buffer (info_at ci t))
      \<lparr>buf_Direction := TCP_PACKETDIR_IN, buf_InUse := True, buf_Length := 0\<rparr>\<rparr>"
    unfolding t1_def using idle_claim [OF ci] .
  have "wrn (buf_Data (Buffer (info_at ci t))) 0 payload = None"
    if "rdn fin (j + data_start th) (unat (segment_data ih th)) = Some payload" for payload
    using bad that length_rdn [OF that] buffer_ok_nth [OF wf ci] by (auto simp: wrn_def buffer_ok_def)
  then show ?thesis
    unfolding TCP_receive_data_def segment_data_def [symmetric] Let_def
    using idle
    by (auto simp: t1_def [symmetric] data_start_def [symmetric] n TCP_WINDOW_SIZE_def bind_eq_None_conv)
qed

lemma established_switch:
  assumes "conn_lookup t (tcp_DestinationPort th, ip_SourceAddress ih, tcp_SourcePort th) = TCP_Connection_Established"
    and "TCP_GetPortState (tcp_DestinationPort th) t = TCP_Port_Open"
    and "tcp_Flags th = TCP_FLAG_ACK OR TCP_FLAG_PSH"
    and "TCP_GetConnectionInfo (tcp_DestinationPort th) (ip_SourceAddress ih) (tcp_SourcePort th) t = Some ci"
  shows "TCP_open_port fin ih j th t out p = TCP_receive_data fin ih j th ci t out p"
  using assms by (simp add: TCP_open_port_def TCP_state_switch_def conn_lookup_def tcp_flags)

lemma process_flow:
  assumes "get_ip fin i = Some ih" "get_tcp fin j = Some th"
    and "TCP_GetPortState (tcp_DestinationPort th) t = TCP_Port_Open"
    and "TCP_ProcessTCPPacket fin i j t out p = Some (r, t', out')"
  shows "\<exists>flow. TCP_open_port fin ih j th t out p = Some flow \<and> flow_state flow = t'"
proof -
  from assms obtain flow where flow: "TCP_open_port fin ih j th t out p = Some flow"
    by (auto simp: TCP_ProcessTCPPacket_def bind_Some_conv)
  with assms show ?thesis
    by (cases flow) (auto simp: TCP_ProcessTCPPacket_def TCP_respond_def bind_Some_conv split: if_splits)
qed

text \<open>A segment for a closed port from a peer that is not in the connection table: the response code
  follows the null pointer.\<close>

lemma closed_port_null_pointer:
  assumes "get_ip fin i = Some ih" "get_tcp fin j = Some th"
    and "TCP_GetPortState (tcp_DestinationPort th) t \<noteq> TCP_Port_Open"
    and "TCP_GetConnectionInfo (tcp_DestinationPort th) (ip_SourceAddress ih) (tcp_SourcePort th) t = None"
  shows "TCP_ProcessTCPPacket fin i j t out p = None"
  using assms by (simp add: TCP_ProcessTCPPacket_def TCP_respond_def bind_eq_None_conv)

text \<open>A SYN that finds the table full gets no answer; the branch that would send a reset is never
  taken.\<close>

lemma full_table_silent:
  assumes "tcp_wf t" "ip_ok ih" "x = (tcp_DestinationPort th, ip_SourceAddress ih, tcp_SourcePort th)"
    and "tcp_Flags th = TCP_FLAG_SYN" "\<not> fst (conn_update x TCP_Connection_Listen t)"
  shows "TCP_open_port fin ih j th t out p = Some (Continue False t out)"
proof -
  have "conn_key x"
    using assms(2,3) by (simp add: conn_key_def ip_ok_def)
  then have "snd (conn_update x TCP_Connection_Listen t) = t" "conn_lookup t x = TCP_Connection_Closed"
    using conns.update_refused [of t x TCP_Connection_Listen] assms(1,5) by (auto simp: tcp_wf_def)
  then show ?thesis
    using assms(3,4)
    by (simp add: TCP_open_port_def TCP_state_switch_def conn_update_def conn_lookup_def tcp_flags)
qed

section \<open>A sample connection\<close>

text \<open>Port 80 is open, and one peer has a connection in the given state.\<close>

definition idle_info :: TCP_ConnectionInfo_t where
  "idle_info = \<lparr>SequenceNumberIn = 0, SequenceNumberOut = 0, Buffer = \<lparr>buf_Length = 0,
     buf_Data = replicate 512 0, buf_Direction = False, buf_Ready = False, buf_InUse = False\<rparr>\<rparr>"

definition free_conn :: TCP_ConnectionState_t where
  "free_conn = \<lparr>cs_Port = 0, cs_RemotePort = 0, cs_RemoteAddress = [0, 0, 0, 0], cs_Info = idle_info,
     cs_State = TCP_Connection_Closed\<rparr>"

definition tcp_sample :: "TCP_ConnectionStates_t \<Rightarrow> unit tcp" where
  "tcp_sample s = \<lparr>PortStateTable = [\<lparr>ps_Port = 0x5000, ps_State = TCP_Port_Open, ps_ApplicationHandler = None\<rparr>],
     ConnectionStateTable = [free_conn\<lparr>cs_Port := 0x5000, cs_RemotePort := 0x3412,
       cs_RemoteAddress := [10, 0, 0, 1], cs_State := s\<rparr>, free_conn, free_conn], App = ()\<rparr>"

definition tcp_frame :: "u8 \<Rightarrow> bytes" where
  "tcp_frame f = replicate 14 0 @
     [0x45, 0, 0, 44, 0, 0, 0, 0, 128, 6, 0, 0, 10, 0, 0, 1, 10, 0, 0, 2] @
     [0x12, 0x34, 0, 80, 0, 0, 0, 7, 0, 0, 0, 0, 0x50, f, 2, 0, 0, 0, 0, 0] @ [71, 69, 84, 32]"

definition frame_ip :: IP_Header_t where
  "frame_ip = dec_ip [0x45, 0, 0, 44, 0, 0, 0, 0, 128, 6, 0, 0, 10, 0, 0, 1, 10, 0, 0, 2]"

definition frame_tcp :: "u8 \<Rightarrow> TCP_Header_t" where
  "frame_tcp f = dec_tcp [0x12, 0x34, 0, 80, 0, 0, 0, 7, 0, 0, 0, 0, 0x50, f, 2, 0, 0, 0, 0, 0]"

lemma tcp_frame_headers:
  "get_ip (tcp_frame f) 14 = Some frame_ip" "get_tcp (tcp_frame f) 34 = Some (frame_tcp f)"
  by (simp_all add: tcp_frame_def frame_ip_def frame_tcp_def get_ip_def get_tcp_def rdn_def
      sizeof_IP_Header_t_def sizeof_TCP_Header_t_def)

lemma frame_fields [simp]:
  "tcp_DestinationPort (frame_tcp f) = 0x5000" "tcp_SourcePort (frame_tcp f) = 0x3412"
  "tcp_Flags (frame_tcp f) = f" "tcp_DataOffset (frame_tcp f) = 5"
  "ip_SourceAddress frame_ip = [10, 0, 0, 1]" "ip_DestinationAddress frame_ip = [10, 0, 0, 2]"
  "ip_HeaderLength frame_ip = 5" "ip_TotalLength frame_ip = 0x2C00"
  by (simp_all add: frame_tcp_def frame_ip_def dec_tcp_def dec_ip_def at16_def word16_of_def)

lemma less_3: "(i :: nat) < 3 \<longleftrightarrow> i = 0 \<or> i = 1 \<or> i = 2"
  by auto

lemma tcp_sample_wf: "tcp_wf (tcp_sample s)"
  by (auto simp: tcp_wf_def conn_wf_def port_wf_def tbl_wf_def tcp_sample_def free_conn_def idle_info_def
      buffer_ok_def conn_of_def MAX_TCP_CONNECTIONS_def MAX_OPEN_TCP_PORTS_def TCP_WINDOW_SIZE_def
      less_3 nth_Cons' less_Suc_eq)

lemma tcp_sample_lookup:
  "conn_lookup (tcp_sample s) (0x5000, [10, 0, 0, 1], 0x3412) = s"
  "TCP_GetPortState 0x5000 (tcp_sample s) = TCP_Port_Open"
  "TCP_GetConnectionInfo 0x5000 [10, 0, 0, 1] 0x3412 (tcp_sample s) = Some 0"
  "info_at 0 (tcp_sample s) = idle_info"
  "fst (conn_update (0x5000, [10, 0, 0, 1], 0x3412) s' (tcp_sample s))"
  by (simp_all add: tcp_sample_def free_conn_def conn_lookup_def TCP_GetConnectionState_def
      is_connection_def IP_COMPARE_def TCP_GetPortState_def TCP_GetConnectionInfo_def
      conn_update_def TCP_SetConnectionState_def)

section \<open>Properties\<close>

text \<open>
  C26. The connection table keeps the promise of its comments: on a well-formed table, setting the
  state of a connection succeeds if the connection is open or fewer connections than the table has
  entries are; after a success that connection has the state and every other connection keeps its
  own; a refusal changes nothing and happens only when the table is full.
\<close>

theorem connection_table:
  assumes "conn_wf t" "length A = 4"
  shows "case TCP_SetConnectionState P A R s t of (ok, t') \<Rightarrow>
    conn_wf t' \<and>
    (\<forall>P' A' R'. length A' = 4 \<longrightarrow> TCP_GetConnectionState P' A' R' t' =
       (if ok \<and> (P', A', R') = (P, A, R) then s else TCP_GetConnectionState P' A' R' t)) \<and>
    (\<not> ok \<longrightarrow> t' = t \<and> TCP_GetConnectionState P A R t = TCP_Connection_Closed \<and>
       card {(P, A, R). length A = 4 \<and> TCP_GetConnectionState P A R t \<noteq> TCP_Connection_Closed} =
         MAX_TCP_CONNECTIONS)"
proof -
  let ?x = "(P, A, R)"
  have key: "conn_key ?x"
    using assms(2) by (simp add: conn_key_def)
  obtain ok t' where run: "TCP_SetConnectionState P A R s t = (ok, t')"
    by fastforce
  then have upd: "conn_update ?x s t = (ok, t')"
    by (simp add: conn_update_def)
  have "conn_lookup t' y = (if ok \<and> y = ?x then s else conn_lookup t y)" if "conn_key y" for y
    using conns.update_lookup [OF assms(1) key that, of s] conns.update_refused [OF assms(1) key, of s] upd
    by (cases ok) auto
  from this [of "(P', A', R')" for P' A' R'] have
    "length A' = 4 \<Longrightarrow> TCP_GetConnectionState P' A' R' t' =
       (if ok \<and> (P', A', R') = ?x then s else TCP_GetConnectionState P' A' R' t)" for P' A' R'
    by (simp add: conn_lookup_def conn_key_def)
  moreover have "{k. conn_key k \<and> conn_lookup t k \<noteq> TCP_Connection_Closed} =
      {(P, A, R). length A = 4 \<and> TCP_GetConnectionState P A R t \<noteq> TCP_Connection_Closed}"
    by (auto simp: conn_key_def conn_lookup_def)
  ultimately show ?thesis
    using run upd conns.update_wf [OF assms(1) key, of s] conns.update_refused [OF assms(1) key, of s]
      conns.refused_full [OF assms(1) key, of s]
    by (auto simp: conn_lookup_def)
qed

theorem connection_table_witness:
  "conn_wf (tcp_sample TCP_Connection_Established) \<and> length [10, 0, 0, 7 :: u8] = 4 \<and>
   (case TCP_SetConnectionState 0x5000 [10, 0, 0, 7] 1 TCP_Connection_Listen (tcp_sample TCP_Connection_Established)
    of (ok, t') \<Rightarrow> ok \<and> conn_wf t' \<and>
      TCP_GetConnectionState 0x5000 [10, 0, 0, 7] 1 t' = TCP_Connection_Listen \<and>
      TCP_GetConnectionState 0x5000 [10, 0, 0, 1] 0x3412 t' = TCP_Connection_Established)"
proof -
  let ?t = "tcp_sample TCP_Connection_Established"
  have wf: "conn_wf ?t"
    using tcp_sample_wf by (simp add: tcp_wf_def)
  have ok: "fst (TCP_SetConnectionState 0x5000 [10, 0, 0, 7] 1 TCP_Connection_Listen ?t)"
    by (simp add: tcp_sample_def free_conn_def TCP_SetConnectionState_def is_connection_def IP_COMPARE_def)
  have "TCP_GetConnectionState 0x5000 [10, 0, 0, 1] 0x3412 ?t = TCP_Connection_Established"
    using tcp_sample_lookup(1) by (simp add: conn_lookup_def)
  with ok connection_table [OF wf, where A = "[10, 0, 0, 7]" and P = "0x5000" and R = 1 and
      s = TCP_Connection_Listen] wf show ?thesis
    by (auto split: prod.splits)
qed

text \<open>
  C27. The module implements the connection state machine: a segment that is processed without an
  undefined access leaves the ports, the applications and the state of every other connection as they
  were, and of every other open connection also the table entry with its sequence numbers and its
  buffer; it keeps the module's invariant, and moves the connection it belongs to by a transition of
  \<^const>\<open>tcp_step\<close> if its port is open; on a closed port nothing changes.
\<close>

theorem tcp_refines_state_machine:
  assumes "tcp_wf t" "get_ip fin i = Some ih" "get_tcp fin j = Some th"
    and "TCP_ProcessTCPPacket fin i j t out p = Some (r, t', out')"
    and "x = (tcp_DestinationPort th, ip_SourceAddress ih, tcp_SourcePort th)"
  shows "keeps x t t' \<and>
    (if TCP_GetPortState (tcp_DestinationPort th) t = TCP_Port_Open
     then tcp_step (fst (conn_update x TCP_Connection_Listen t)) (tcp_Flags th) (conn_lookup t x) (conn_lookup t' x)
     else t' = t)"
proof -
  have "ip_ok ih"
    using assms(2) ip.get_ok by (simp add: get_ip_def)
  then have key: "conn_key x"
    by (simp add: assms(5) conn_key_def ip_ok_def)
  show ?thesis
  proof (cases "TCP_GetPortState (tcp_DestinationPort th) t = TCP_Port_Open")
    case True
    with assms(2,3,4) obtain flow where flow: "TCP_open_port fin ih j th t out p = Some flow"
      "flow_state flow = t'"
      using process_flow by blast
    with open_port_step [OF assms(1) key assms(5) flow(1)] True show ?thesis
      by simp
  next
    case False
    with assms(2,3,4) have "t' = t"
      by (auto simp: TCP_ProcessTCPPacket_def TCP_respond_def bind_Some_conv)
    with False keeps_refl [OF assms(1)] show ?thesis
      by simp
  qed
qed


theorem tcp_refines_state_machine_witness:
  "tcp_wf (tcp_sample TCP_Connection_SYNReceived) \<and>
   get_ip (tcp_frame TCP_FLAG_ACK) 14 = Some frame_ip \<and>
   get_tcp (tcp_frame TCP_FLAG_ACK) 34 = Some (frame_tcp TCP_FLAG_ACK) \<and>
   (case TCP_ProcessTCPPacket (tcp_frame TCP_FLAG_ACK) 14 34 (tcp_sample TCP_Connection_SYNReceived)
       (replicate 60 0) 34 of
      None \<Rightarrow> False
    | Some (r, t', out') \<Rightarrow>
        keeps (0x5000, [10, 0, 0, 1], 0x3412) (tcp_sample TCP_Connection_SYNReceived) t' \<and>
        tcp_step True TCP_FLAG_ACK TCP_Connection_SYNReceived
          (conn_lookup t' (0x5000, [10, 0, 0, 1], 0x3412)))"
proof -
  let ?t = "tcp_sample TCP_Connection_SYNReceived" and ?fin = "tcp_frame TCP_FLAG_ACK"
  let ?x = "(0x5000, [10, 0, 0, 1], 0x3412) :: u16 \<times> IP_Address_t \<times> u16"
  have set: "TCP_GetConnectionInfo 0x5000 [10, 0, 0, 1] 0x3412
      (snd (TCP_SetConnectionState 0x5000 [10, 0, 0, 1] 0x3412 TCP_Connection_Established ?t)) = Some 0"
    by (simp add: tcp_sample_def free_conn_def TCP_SetConnectionState_def TCP_GetConnectionInfo_def
        is_connection_def IP_COMPARE_def)
  have get: "TCP_GetConnectionState 0x5000 [10, 0, 0, 1] 0x3412 ?t = TCP_Connection_SYNReceived"
    using tcp_sample_lookup(1) by (simp add: conn_lookup_def)
  obtain r t' out' where run: "TCP_ProcessTCPPacket ?fin 14 34 ?t (replicate 60 0) 34 = Some (r, t', out')"
    using set get tcp_sample_lookup(2) [of TCP_Connection_SYNReceived]
    by (simp add: TCP_ProcessTCPPacket_def tcp_frame_headers TCP_open_port_def TCP_state_switch_def tcp_flags)
  have "?x = (tcp_DestinationPort (frame_tcp TCP_FLAG_ACK), ip_SourceAddress frame_ip,
      tcp_SourcePort (frame_tcp TCP_FLAG_ACK))"
    by simp
  from tcp_refines_state_machine [OF tcp_sample_wf tcp_frame_headers run this] run show ?thesis
    by (simp add: tcp_sample_wf tcp_frame_headers tcp_sample_lookup)
qed

text \<open>
  C28. A connection request is answered: for a SYN to an open port with room in the connection table,
  the handler returns a segment with the ports exchanged, SYN and ACK set, the acknowledgement one
  past the peer's sequence number, and a checksum that is valid for the reply's addresses; the
  connection is then waiting for the final acknowledgement.
\<close>

theorem tcp_accepts_connection:
  assumes "tcp_wf t" "get_ip fin i = Some ih" "get_tcp fin j = Some th" "p + 20 \<le> length out"
    and "TCP_GetPortState (tcp_DestinationPort th) t = TCP_Port_Open" "tcp_Flags th = TCP_FLAG_SYN"
    and "x = (tcp_DestinationPort th, ip_SourceAddress ih, tcp_SourcePort th)"
    and "fst (conn_update x TCP_Connection_Listen t)"
  shows "\<exists>t' out' c h. TCP_ProcessTCPPacket fin i j t out p = Some (20, t', out') \<and>
    conn_lookup t' x = TCP_Connection_SYNReceived \<and>
    rdn out' p 20 = Some (enc_tcp h) \<and>
    h = \<lparr>tcp_SourcePort = tcp_DestinationPort th, tcp_DestinationPort = tcp_SourcePort th,
      tcp_SequenceNumber = 0,
      tcp_AcknowledgmentNumber = SwapEndian_32 False (SwapEndian_32 False (tcp_SequenceNumber th) + 1),
      tcp_Reserved = 0, tcp_DataOffset = 5, tcp_Flags = TCP_FLAG_SYN OR TCP_FLAG_ACK,
      tcp_WindowSize = SwapEndian_16 False TCP_WINDOW_SIZE, tcp_Checksum = c, tcp_UrgentPointer = 0\<rparr> \<and>
    tcp_valid (ip_DestinationAddress ih) (ip_SourceAddress ih) (enc_tcp h)"
proof -
  have ih: "ip_ok ih"
    using assms(2) ip.get_ok by (simp add: get_ip_def)
  then have key: "conn_key x"
    by (simp add: assms(7) conn_key_def ip_ok_def)
  obtain t2 ci o2 where syn: "TCP_open_port fin ih j th t out p = Some (Continue True t2 o2)"
    "TCP_GetConnectionInfo (tcp_DestinationPort th) (ip_SourceAddress ih) (tcp_SourcePort th) t2 = Some ci"
    "SequenceNumberIn (info_at ci t2) = SwapEndian_32 False (tcp_SequenceNumber th) + 1"
    "SequenceNumberOut (info_at ci t2) = 0" "\<not> buf_InUse (Buffer (info_at ci t2))"
    "length o2 = length out" "rd8 o2 (p + 13) = Some (TCP_FLAG_SYN OR TCP_FLAG_ACK)"
    using syn_accepted [OF assms(1) ih assms(7,6,8,4), of fin j] by blast
  have o2: "p + 20 \<le> length o2"
    using assms(4) syn(6) by simp
  obtain c out' where resp: "TCP_respond ih th t2 o2 p = Some (20, t2, out')"
    "rdn out' p 20 = Some (enc_tcp ((TCP_response_header th (info_at ci t2)
       (TCP_FLAG_SYN OR TCP_FLAG_ACK))\<lparr>tcp_Checksum := c\<rparr>))"
    "tcp_valid (ip_DestinationAddress ih) (ip_SourceAddress ih) (enc_tcp ((TCP_response_header th (info_at ci t2)
       (TCP_FLAG_SYN OR TCP_FLAG_ACK))\<lparr>tcp_Checksum := c\<rparr>))"
    using TCP_respond_result [OF syn(2) o2 syn(7) ih] by blast
  have "conn_lookup t2 x = TCP_Connection_SYNReceived"
    using open_port_step [OF assms(1) key assms(7) syn(1)] assms(6,8)
    by (auto simp: tcp_moves_def tcp_flags elim: tcp_step.cases)
  moreover have "(TCP_response_header th (info_at ci t2) (TCP_FLAG_SYN OR TCP_FLAG_ACK))\<lparr>tcp_Checksum := c\<rparr> =
    \<lparr>tcp_SourcePort = tcp_DestinationPort th, tcp_DestinationPort = tcp_SourcePort th,
      tcp_SequenceNumber = 0,
      tcp_AcknowledgmentNumber = SwapEndian_32 False (SwapEndian_32 False (tcp_SequenceNumber th) + 1),
      tcp_Reserved = 0, tcp_DataOffset = 5, tcp_Flags = TCP_FLAG_SYN OR TCP_FLAG_ACK,
      tcp_WindowSize = SwapEndian_16 False TCP_WINDOW_SIZE, tcp_Checksum = c, tcp_UrgentPointer = 0\<rparr>"
    using syn(3,4,5) by (simp add: TCP_response_header_def) (simp add: byte0_def byte1_def byte2_def byte3_def word32_of_def)
  ultimately show ?thesis
    using resp syn(1) assms(2,3,5) by (auto simp: TCP_ProcessTCPPacket_def)
qed


theorem tcp_accepts_connection_witness:
  "tcp_wf (tcp_sample TCP_Connection_Closed) \<and>
   TCP_GetPortState (tcp_DestinationPort (frame_tcp TCP_FLAG_SYN)) (tcp_sample TCP_Connection_Closed) = TCP_Port_Open \<and>
   (\<exists>t' out' c. TCP_ProcessTCPPacket (tcp_frame TCP_FLAG_SYN) 14 34 (tcp_sample TCP_Connection_Closed)
       (replicate 60 0) 34 = Some (20, t', out') \<and>
     conn_lookup t' (0x5000, [10, 0, 0, 1], 0x3412) = TCP_Connection_SYNReceived \<and>
     rdn out' 34 20 = Some ([0, 80, 0x12, 0x34, 0, 0, 0, 0, 0, 0, 0, 8, 0x50, 0x12, 2, 0] @ le16 c @ [0, 0]) \<and>
     tcp_valid [10, 0, 0, 2] [10, 0, 0, 1]
       ([0, 80, 0x12, 0x34, 0, 0, 0, 0, 0, 0, 0, 8, 0x50, 0x12, 2, 0] @ le16 c @ [0, 0]))"
proof -
  let ?t = "tcp_sample TCP_Connection_Closed" and ?th = "frame_tcp TCP_FLAG_SYN"
  have out: "34 + 20 \<le> length (replicate 60 (0 :: u8))" and f: "tcp_Flags ?th = TCP_FLAG_SYN"
    and open_port: "TCP_GetPortState (tcp_DestinationPort ?th) ?t = TCP_Port_Open"
    and x: "(0x5000, [10, 0, 0, 1], 0x3412) = (tcp_DestinationPort ?th, ip_SourceAddress frame_ip, tcp_SourcePort ?th)"
    by (simp_all add: tcp_sample_lookup)
  note run = tcp_accepts_connection [OF tcp_sample_wf tcp_frame_headers out open_port f x tcp_sample_lookup(5)]
  have seq: "tcp_SequenceNumber ?th = 0x07000000"
    by (simp add: frame_tcp_def dec_tcp_def at32_def word32_of_def)
  have "enc_tcp \<lparr>tcp_SourcePort = tcp_DestinationPort ?th, tcp_DestinationPort = tcp_SourcePort ?th,
      tcp_SequenceNumber = 0,
      tcp_AcknowledgmentNumber = SwapEndian_32 False (SwapEndian_32 False (tcp_SequenceNumber ?th) + 1),
      tcp_Reserved = 0, tcp_DataOffset = 5, tcp_Flags = TCP_FLAG_SYN OR TCP_FLAG_ACK,
      tcp_WindowSize = SwapEndian_16 False TCP_WINDOW_SIZE, tcp_Checksum = c, tcp_UrgentPointer = 0\<rparr> =
    [0, 80, 0x12, 0x34, 0, 0, 0, 0, 0, 0, 0, 8, 0x50, 0x12, 2, 0] @ le16 c @ [0, 0]" for c
    unfolding seq frame_fields enc_tcp_def le32_def
    by (simp add: tcp_flags TCP_WINDOW_SIZE_def)
      (simp add: le16_def byte0_def byte1_def byte2_def byte3_def word32_of_def word16_of_def)
  with run open_port show ?thesis
    by (auto simp: tcp_sample_wf)
qed

text \<open>
  C29. Received data: a pushed segment on an established connection with an idle buffer is copied into
  the buffer, marked ready, counted in the next acknowledgement and acknowledged with a valid
  segment, if its data fits the window and lies inside the frame buffer; a segment whose length
  fields say otherwise makes the \<^verbatim>\<open>memcpy\<close> of the handler leave the window or the frame.
\<close>

theorem tcp_data_received:
  assumes "tcp_wf t" "get_ip fin i = Some ih" "get_tcp fin j = Some th" "p + 20 \<le> length out"
    and "TCP_GetPortState (tcp_DestinationPort th) t = TCP_Port_Open"
    and "conn_lookup t (tcp_DestinationPort th, ip_SourceAddress ih, tcp_SourcePort th) = TCP_Connection_Established"
    and "tcp_Flags th = TCP_FLAG_ACK OR TCP_FLAG_PSH"
    and "TCP_GetConnectionInfo (tcp_DestinationPort th) (ip_SourceAddress ih) (tcp_SourcePort th) t = Some ci"
    and "\<not> buf_InUse (Buffer (info_at ci t))" "\<not> buf_Ready (Buffer (info_at ci t))"
  shows "case if unat (segment_data ih th) \<le> unat TCP_WINDOW_SIZE
              then rdn fin (j + data_start th) (unat (segment_data ih th)) else None of
      None \<Rightarrow> TCP_ProcessTCPPacket fin i j t out p = None
    | Some payload \<Rightarrow> \<exists>t' out' h. TCP_ProcessTCPPacket fin i j t out p = Some (20, t', out') \<and>
        take (length payload) (buf_Data (Buffer (info_at ci t'))) = payload \<and>
        buf_Length (Buffer (info_at ci t')) = segment_data ih th \<and>
        buf_Ready (Buffer (info_at ci t')) \<and>
        SequenceNumberIn (info_at ci t') = SequenceNumberIn (info_at ci t) + ucast (segment_data ih th) \<and>
        rdn out' p 20 = Some (enc_tcp h) \<and> tcp_Flags h = TCP_FLAG_ACK \<and>
        tcp_AcknowledgmentNumber h = SwapEndian_32 False (SequenceNumberIn (info_at ci t')) \<and>
        tcp_valid (ip_DestinationAddress ih) (ip_SourceAddress ih) (enc_tcp h)"
proof -
  have ih: "ip_ok ih"
    using assms(2) ip.get_ok by (simp add: get_ip_def)
  have ci: "ci < length (ConnectionStateTable t)"
    using assms(8) by (rule info_range)
  note open_port = established_switch [OF assms(6,5,7,8)]
  show ?thesis
  proof (cases "if unat (segment_data ih th) \<le> unat TCP_WINDOW_SIZE
      then rdn fin (j + data_start th) (unat (segment_data ih th)) else None")
    case None
    then have "TCP_receive_data fin ih j th ci t out p = None"
      using push_overrun [OF assms(1) ci assms(9,10)] by (auto split: if_splits)
    with None assms(2,3,5) open_port show ?thesis
      by (simp add: TCP_ProcessTCPPacket_def)
  next
    case (Some payload)
    then have fits: "unat (segment_data ih th) \<le> unat TCP_WINDOW_SIZE"
      and src: "rdn fin (j + data_start th) (unat (segment_data ih th)) = Some payload"
      by (auto split: if_splits)
    let ?o = "out[p + 13 := TCP_FLAG_ACK]"
    have p13: "p + 13 < length out" and o: "p + 20 \<le> length ?o" "rd8 ?o (p + 13) = Some TCP_FLAG_ACK"
      using assms(4) by (auto simp: rd8_def)
    obtain t' where t': "TCP_receive_data fin ih j th ci t out p = Some (Continue True t' ?o)"
      "TCP_GetConnectionInfo (tcp_DestinationPort th) (ip_SourceAddress ih) (tcp_SourcePort th) t' = Some ci"
      "SequenceNumberIn (info_at ci t') = SequenceNumberIn (info_at ci t) + ucast (segment_data ih th)"
      "take (length payload) (buf_Data (Buffer (info_at ci t'))) = payload"
      "buf_Length (Buffer (info_at ci t')) = segment_data ih th" "buf_Ready (Buffer (info_at ci t'))"
      using push_received [OF assms(1) ci assms(9,10,7) p13 fits src] assms(8) by auto
    obtain c out' where resp: "TCP_respond ih th t' ?o p = Some (20, t', out')"
      "rdn out' p 20 = Some (enc_tcp ((TCP_response_header th (info_at ci t') TCP_FLAG_ACK)\<lparr>tcp_Checksum := c\<rparr>))"
      "tcp_valid (ip_DestinationAddress ih) (ip_SourceAddress ih)
         (enc_tcp ((TCP_response_header th (info_at ci t') TCP_FLAG_ACK)\<lparr>tcp_Checksum := c\<rparr>))"
      using TCP_respond_result [OF t'(2) o ih] by blast
    have "TCP_ProcessTCPPacket fin i j t out p = Some (20, t', out')"
      using assms(2,3,5) open_port t'(1) resp(1) by (simp add: TCP_ProcessTCPPacket_def)
    with Some t' resp show ?thesis
      by (auto simp: TCP_response_header_def
          intro!: exI [of _ "(TCP_response_header th (info_at ci t') TCP_FLAG_ACK)\<lparr>tcp_Checksum := c\<rparr>"])
  qed
qed


lemma take_four: "take (Suc (Suc (Suc (Suc 0)))) xs = take 4 xs"
  by (simp add: eval_nat_numeral)

lemma sample_data: "segment_data frame_ip (frame_tcp f) = 4" "data_start (frame_tcp f) = 20"
  by (simp_all add: segment_data_def data_start_def) (simp add: byte0_def byte1_def word16_of_def)

theorem tcp_data_received_witness:
  "tcp_wf (tcp_sample TCP_Connection_Established) \<and>
   (\<exists>t' out'. TCP_ProcessTCPPacket (tcp_frame 24) 14 34 (tcp_sample TCP_Connection_Established)
       (replicate 60 0) 34 = Some (20, t', out') \<and>
     take 4 (buf_Data (Buffer (info_at 0 t'))) = [71, 69, 84, 32] \<and>
     buf_Length (Buffer (info_at 0 t')) = 4 \<and> SequenceNumberIn (info_at 0 t') = 4)"
proof -
  let ?t = "tcp_sample TCP_Connection_Established" and ?th = "frame_tcp 24"
  have out: "34 + 20 \<le> length (replicate 60 (0 :: u8))"
    and open_port: "TCP_GetPortState (tcp_DestinationPort ?th) ?t = TCP_Port_Open"
    and est: "conn_lookup ?t (tcp_DestinationPort ?th, ip_SourceAddress frame_ip, tcp_SourcePort ?th) =
      TCP_Connection_Established"
    and f: "tcp_Flags ?th = TCP_FLAG_ACK OR TCP_FLAG_PSH"
    and ci: "TCP_GetConnectionInfo (tcp_DestinationPort ?th) (ip_SourceAddress frame_ip) (tcp_SourcePort ?th) ?t = Some 0"
    and idle: "\<not> buf_InUse (Buffer (info_at 0 ?t))" "\<not> buf_Ready (Buffer (info_at 0 ?t))"
    by (simp_all add: tcp_sample_lookup tcp_flags idle_info_def)
  have "rdn (tcp_frame 24) (34 + 20) 4 = Some [71, 69, 84, 32]"
    by (simp add: tcp_frame_def rdn_def)
  with tcp_data_received [OF tcp_sample_wf tcp_frame_headers out open_port est f ci idle] show ?thesis
    by (auto simp: sample_data TCP_WINDOW_SIZE_def tcp_sample_wf tcp_sample_lookup idle_info_def take_four)
qed

end
