(* ===== verification/Net_TCP_Task.thy ===== *)
theory Net_TCP_Task
  imports Net_TCP_State
begin

text \<open>
  What \<^verbatim>\<open>TCP_TCPTask\<close> puts into the outgoing frame: the Ethernet, IP and TCP headers and the data of
  the first connection whose buffer is ready to be sent.
\<close>

lemma bytes_at:
  "rdn m i n = Some bs \<Longrightarrow> take n (drop i m) = bs"
  by (simp add: rdn_def split: if_splits)

lemma TCP_send_buffer_result:
  assumes wf: "tcp_wf t" and c: "c < length (ConnectionStateTable t)"
    and F: "length (FrameData F) = ETHERNET_FRAME_SIZE_MAX"
  defines "cs \<equiv> ConnectionStateTable t ! c"
  defines "L \<equiv> buf_Length (Buffer (cs_Info cs))"
  shows "\<exists>F' h ihc k.
    TCP_send_buffer c t F =
      Some (upd_info c (\<lambda>n. n\<lparr>SequenceNumberOut := SequenceNumberOut n + ucast L,
              Buffer := (Buffer n)\<lparr>buf_Ready := False\<rparr>\<rparr>) t, F') \<and>
    length (FrameData F') = ETHERNET_FRAME_SIZE_MAX \<and> FrameLength F' = 54 + L \<and>
    get_eth (FrameData F') 0 = Some \<lparr>eth_Destination = [2, 0, 2, 0, 2, 0], eth_Source = ServerMACAddress,
      eth_EtherType = SwapEndian_16 True ETHERTYPE_IPV4\<rparr> \<and>
    get_ip (FrameData F') 14 = Some ((IP_reply_header (20 + L) PROTOCOL_TCP ServerIPAddress
      (cs_RemoteAddress cs))\<lparr>ip_HeaderChecksum := ihc\<rparr>) \<and>
    (\<exists>bs. rdn (FrameData F') 14 20 = Some bs \<and> inet_valid bs) \<and>
    rdn (FrameData F') 34 (20 + unat L) = Some (enc_tcp h @ take (unat L) (buf_Data (Buffer (cs_Info cs)))) \<and>
    h = (TCP_data_header cs)\<lparr>tcp_Checksum := k\<rparr> \<and>
    tcp_valid ServerIPAddress (cs_RemoteAddress cs) (enc_tcp h @ take (unat L) (buf_Data (Buffer (cs_Info cs))))"
proof -
  let ?data = "take (unat L) (buf_Data (Buffer (cs_Info cs)))"
  have buf: "length (buf_Data (Buffer (cs_Info cs))) = 512" "unat L \<le> 512" and addr: "length (cs_RemoteAddress cs) = 4"
    using buffer_ok_nth [OF wf c] wf nth_mem [OF c]
    by (auto simp: buffer_ok_def cs_def L_def TCP_WINDOW_SIZE_def word_le_nat_alt tcp_wf_def conn_wf_def)
  have n: "unat (20 + L) = 20 + unat L"
    using buf by (simp add: unat_word_ariths)
  obtain o1 where o1: "wrn (FrameData F) 34 (enc_tcp (TCP_data_header cs)) = Some o1"
    using F tcp_header_length by (simp add: wrn_def ETHERNET_FRAME_SIZE_MAX_def)
  obtain o2 where o2: "wrn o1 54 ?data = Some o2"
    using F length_wrn [OF o1] buf by (simp add: wrn_def ETHERNET_FRAME_SIZE_MAX_def)
  have seg: "rdn o2 34 (unat (20 + L)) = Some (enc_tcp (TCP_data_header cs) @ ?data)"
    using wrn_append [OF o1, of ?data o2] o2 tcp_header_length buf n by (simp add: rdn_wrn)
  have room: "34 + unat (20 + L) + (if even (unat (20 + L)) then 0 else 1) \<le> length o2"
    using F length_wrn [OF o1] length_wrn [OF o2] buf n by (simp add: ETHERNET_FRAME_SIZE_MAX_def)
  obtain k o3 where o3: "TCP_Checksum16 o2 34 ServerIPAddress (cs_RemoteAddress cs) (20 + L) = Some k"
    "wr16 o2 50 k = Some o3"
    "rdn o3 34 (20 + unat L) = Some (enc_tcp ((TCP_data_header cs)\<lparr>tcp_Checksum := k\<rparr>) @ ?data)"
    "tcp_valid ServerIPAddress (cs_RemoteAddress cs) (enc_tcp ((TCP_data_header cs)\<lparr>tcp_Checksum := k\<rparr>) @ ?data)"
    using segment_checksum [OF _ addr seg _ _ room, of ServerIPAddress] n
    by (auto simp: TCP_data_header_def)
  let ?h = "(TCP_data_header cs)\<lparr>tcp_Checksum := k\<rparr>"
  have len3: "length o3 = 1500"
    using F length_wrn [OF o1] length_wrn [OF o2] length_wr16 [OF o3(2)] by (simp add: ETHERNET_FRAME_SIZE_MAX_def)
  obtain ihc o4 where o4: "IP_write_header o3 14 (20 + L) PROTOCOL_TCP ServerIPAddress (cs_RemoteAddress cs) = Some o4"
    "length o4 = 1500"
    "get_ip o4 14 = Some ((IP_reply_header (20 + L) PROTOCOL_TCP ServerIPAddress
      (cs_RemoteAddress cs))\<lparr>ip_HeaderChecksum := ihc\<rparr>)"
    "\<exists>bs. rdn o4 14 20 = Some bs \<and> inet_valid bs" "rdn o4 34 (20 + unat L) = rdn o3 34 (20 + unat L)"
    using IP_write_header_result [of ServerIPAddress "cs_RemoteAddress cs" 14 o3 "20 + L" PROTOCOL_TCP] addr len3
    by auto
  let ?e = "\<lparr>eth_Destination = [2, 0, 2, 0, 2, 0], eth_Source = ServerMACAddress,
      eth_EtherType = SwapEndian_16 True ETHERTYPE_IPV4\<rparr>"
  have e_ok: "eth_ok ?e"
    by (simp add: eth_ok_def)
  obtain o5 where o5: "put_eth o4 0 ?e = Some o5"
    using eth.put_defined [OF _ e_ok, of 0 o4] o4(2)
    by (auto simp: put_eth_def sizeof_Ethernet_Frame_Header_t_def)
  have e5: "get_eth o5 0 = Some ?e" "length o5 = 1500"
    using eth.get_put [OF _ e_ok] o5 o4(2) length_wrn by (auto simp: get_eth_def put_eth_def)
  have after: "rdn o5 j m = rdn o4 j m" if "14 \<le> j" for j m
    using eth.put_after [OF _ e_ok, of o4 0 o5 j m] o5 that
    by (simp add: put_eth_def sizeof_Ethernet_Frame_Header_t_def)
  have "TCP_send_buffer c t F = Some (upd_info c (\<lambda>n. n\<lparr>Buffer := (Buffer n)\<lparr>buf_Ready := False\<rparr>\<rparr>)
      (upd_info c (\<lambda>n. n\<lparr>SequenceNumberOut := SequenceNumberOut n + ucast L\<rparr>) t),
      F\<lparr>FrameData := o5, FrameLength := L + 20 + 20 + 14\<rparr>)"
    using o1 o2 o3(1,2) o4(1) o5 buf
    by (simp add: TCP_send_buffer_def Let_def put_tcp_def rdn_def cs_def [symmetric] L_def [symmetric]
        sizeof_Ethernet_Frame_Header_t_def sizeof_IP_Header_t_def sizeof_TCP_Header_t_def add.commute)
  moreover have "upd_info c (\<lambda>n. n\<lparr>Buffer := (Buffer n)\<lparr>buf_Ready := False\<rparr>\<rparr>)
      (upd_info c (\<lambda>n. n\<lparr>SequenceNumberOut := SequenceNumberOut n + ucast L\<rparr>) t) =
      upd_info c (\<lambda>n. n\<lparr>SequenceNumberOut := SequenceNumberOut n + ucast L,
        Buffer := (Buffer n)\<lparr>buf_Ready := False\<rparr>\<rparr>) t"
    using c by (simp add: upd_info_def)
  ultimately show ?thesis
    using e5 o3(3,4) o4 after by (auto simp: get_ip_def ETHERNET_FRAME_SIZE_MAX_def)
qed


definition ready_out :: "TCP_ConnectionState_t \<Rightarrow> bool" where
  "ready_out c = (buf_Direction (Buffer (cs_Info c)) = TCP_PACKETDIR_OUT \<and> buf_Ready (Buffer (cs_Info c)))"

lemma TCP_TCPTask_send:
  assumes "TCP_run_applications t = Some t1" "FrameLength F = 0"
    and "first_index ready_out (ConnectionStateTable t1) = Some c"
  shows "TCP_TCPTask t F = TCP_send_buffer c t1 F"
  using assms by (simp add: TCP_TCPTask_def ready_out_def [abs_def])

section \<open>Properties\<close>

text \<open>
  C30. The task sends what the applications produced: with no frame pending, it takes the first
  connection whose buffer is ready to be sent and builds a frame whose Ethernet and IP headers are
  complete, whose IP checksum a receiver accepts, and whose TCP segment carries exactly the buffered
  data under a valid checksum; the connection's sequence number advances by the length of the data
  and its buffer is free for the application again.
\<close>

theorem tcp_task_sends:
  assumes "TCP_run_applications t = Some t1" "tcp_wf t1" "FrameLength F = 0"
    and "length (FrameData F) = ETHERNET_FRAME_SIZE_MAX"
    and "first_index ready_out (ConnectionStateTable t1) = Some c"
    and "cs = ConnectionStateTable t1 ! c" "L = buf_Length (Buffer (cs_Info cs))"
    and "payload = take (unat L) (buf_Data (Buffer (cs_Info cs)))"
  shows "\<exists>F' h q. TCP_TCPTask t F =
      Some (upd_info c (\<lambda>n. n\<lparr>SequenceNumberOut := SequenceNumberOut n + ucast L,
              Buffer := (Buffer n)\<lparr>buf_Ready := False\<rparr>\<rparr>) t1, F') \<and>
    FrameLength F' = 54 + L \<and>
    get_eth (FrameData F') 0 = Some \<lparr>eth_Destination = [2, 0, 2, 0, 2, 0], eth_Source = ServerMACAddress,
      eth_EtherType = SwapEndian_16 True ETHERTYPE_IPV4\<rparr> \<and>
    get_ip (FrameData F') 14 = Some q \<and> ip_TotalLength q = SwapEndian_16 False (40 + L) \<and>
    ip_Protocol q = PROTOCOL_TCP \<and> ip_SourceAddress q = ServerIPAddress \<and>
    ip_DestinationAddress q = cs_RemoteAddress cs \<and>
    (\<exists>bs. rdn (FrameData F') 14 20 = Some bs \<and> inet_valid bs) \<and>
    rdn (FrameData F') 34 (20 + unat L) = Some (enc_tcp h @ payload) \<and>
    tcp_SequenceNumber h = SwapEndian_32 False (SequenceNumberOut (cs_Info cs)) \<and>
    tcp_SourcePort h = cs_Port cs \<and> tcp_DestinationPort h = cs_RemotePort cs \<and>
    tcp_valid ServerIPAddress (cs_RemoteAddress cs) (enc_tcp h @ payload)"
proof -
  have c: "c < length (ConnectionStateTable t1)"
    using first_index_Some [OF assms(5)] by simp
  note send = TCP_send_buffer_result [OF assms(2) c assms(4), folded assms(6), folded assms(7),
      folded assms(8) TCP_TCPTask_send [OF assms(1,3,5)]]
  from send obtain F' h ihc k where
    frame: "TCP_TCPTask t F = Some (upd_info c (\<lambda>n. n\<lparr>SequenceNumberOut := SequenceNumberOut n + ucast L,
        Buffer := (Buffer n)\<lparr>buf_Ready := False\<rparr>\<rparr>) t1, F')"
    "FrameLength F' = 54 + L"
    "get_eth (FrameData F') 0 = Some \<lparr>eth_Destination = [2, 0, 2, 0, 2, 0], eth_Source = ServerMACAddress,
      eth_EtherType = SwapEndian_16 True ETHERTYPE_IPV4\<rparr>"
    "get_ip (FrameData F') 14 = Some ((IP_reply_header (20 + L) PROTOCOL_TCP ServerIPAddress
      (cs_RemoteAddress cs))\<lparr>ip_HeaderChecksum := ihc\<rparr>)"
    "\<exists>bs. rdn (FrameData F') 14 20 = Some bs \<and> inet_valid bs"
    "rdn (FrameData F') 34 (20 + unat L) = Some (enc_tcp h @ payload)"
    "h = (TCP_data_header cs)\<lparr>tcp_Checksum := k\<rparr>"
    "tcp_valid ServerIPAddress (cs_RemoteAddress cs) (enc_tcp h @ payload)"
    by blast
  have h: "tcp_SequenceNumber h = SwapEndian_32 False (SequenceNumberOut (cs_Info cs))"
    "tcp_SourcePort h = cs_Port cs" "tcp_DestinationPort h = cs_RemotePort cs"
    by (simp_all add: frame(7) TCP_data_header_def)
  show ?thesis
    using frame(5)
    by (intro exI [of _ F'] exI [of _ h] exI [of _ "(IP_reply_header (20 + L) PROTOCOL_TCP ServerIPAddress
        (cs_RemoteAddress cs))\<lparr>ip_HeaderChecksum := ihc\<rparr>"])
      (simp add: frame(1-4,6,8) h IP_reply_header_def sizeof_IP_Header_t_def)
qed

text \<open>A connection with four bytes to send, whose application has nothing further to do.\<close>

definition task_sample :: "unit tcp" where
  "task_sample = \<lparr>PortStateTable = [\<lparr>ps_Port = 0x5000, ps_State = TCP_Port_Open,
       ps_ApplicationHandler = Some (\<lambda>c a. Some (c, a))\<rparr>],
     ConnectionStateTable = [free_conn, free_conn\<lparr>cs_Port := 0x5000, cs_RemotePort := 0x3412,
       cs_RemoteAddress := [10, 0, 0, 1],
       cs_Info := idle_info\<lparr>Buffer := \<lparr>buf_Length = 4, buf_Data = [1, 2, 3, 4] @ replicate 508 0,
         buf_Direction = True, buf_Ready = True, buf_InUse = False\<rparr>\<rparr>,
       cs_State := TCP_Connection_Established\<rparr>, free_conn], App = ()\<rparr>"

definition empty_frame :: Ethernet_Frame_Info_t where
  "empty_frame = \<lparr>FrameData = replicate 1500 0, FrameLength = 0\<rparr>"

lemma task_sample_wf: "tcp_wf task_sample"
  by (auto simp: tcp_wf_def conn_wf_def port_wf_def tbl_wf_def task_sample_def free_conn_def idle_info_def
      buffer_ok_def conn_of_def MAX_TCP_CONNECTIONS_def MAX_OPEN_TCP_PORTS_def TCP_WINDOW_SIZE_def
      less_3 nth_Cons' less_Suc_eq)

lemma task_sample_run:
  "TCP_run_applications task_sample = Some task_sample"
  "first_index ready_out (ConnectionStateTable task_sample) = Some 1"
  by (simp_all add: TCP_run_applications_def MAX_TCP_CONNECTIONS_def MAX_OPEN_TCP_PORTS_def upt_rec
      TCP_run_handler_def ready_out_def TCP_PACKETDIR_OUT_def task_sample_def free_conn_def idle_info_def)

theorem tcp_task_sends_witness:
  "TCP_run_applications task_sample = Some task_sample \<and> tcp_wf task_sample \<and>
   (\<exists>t' F' h. TCP_TCPTask task_sample empty_frame = Some (t', F') \<and> FrameLength F' = 58 \<and>
     rdn (FrameData F') 34 24 = Some (enc_tcp h @ [1, 2, 3, 4]) \<and>
     tcp_valid ServerIPAddress [10, 0, 0, 1] (enc_tcp h @ [1, 2, 3, 4]))"
proof -
  have F: "FrameLength empty_frame = 0" "length (FrameData empty_frame) = ETHERNET_FRAME_SIZE_MAX"
    by (simp_all add: empty_frame_def ETHERNET_FRAME_SIZE_MAX_def)
  have len: "buf_Length (Buffer (cs_Info (ConnectionStateTable task_sample ! 1))) = 4"
    "take 4 (buf_Data (Buffer (cs_Info (ConnectionStateTable task_sample ! 1)))) = [1, 2, 3, 4]"
    "cs_RemoteAddress (ConnectionStateTable task_sample ! 1) = [10, 0, 0, 1]"
    by (simp_all add: task_sample_def idle_info_def)
  have four: "unat (4 :: u16) = 4"
    by simp
  from tcp_task_sends [OF task_sample_run(1) task_sample_wf F task_sample_run(2) refl refl refl] show ?thesis
    unfolding len four by (auto simp: task_sample_run task_sample_wf)
qed

end
