(* ===== verification/Net_Webserver.thy ===== *)
theory Net_Webserver
  imports Net_TCP_Task
begin

text \<open>
  \<^verbatim>\<open>Webserver.c\<close> of the RNDIS network demo and the application macros of \<^verbatim>\<open>TCP.h\<close> it uses.  The
  callback's static variable \<^verbatim>\<open>PageBlock\<close> is the application state of the TCP model.  A macro is a
  function on the connection buffer; a C string is a byte list without its terminating zero, and
  the functions that copy or measure strings work on memory that contains the zero.
\<close>

section \<open>Strings\<close>

definition cstr :: "string \<Rightarrow> bytes" where
  "cstr s = map of_char s"

definition crlf :: string where
  "crlf = [CHR 0x0D, CHR 0x0A]"

definition tab :: string where
  "tab = [CHR 0x09]"

definition HTTP200Header :: bytes where
  "HTTP200Header = cstr (''HTTP/1.1 200 OK'' @ crlf @ ''Server: LUFA RNDIS'' @ crlf @
     ''Content-type: text/html'' @ crlf @ ''Connection: close'' @ crlf @ crlf)"

definition HTTP404Header :: bytes where
  "HTTP404Header = cstr (''HTTP/1.1 404 Not Found'' @ crlf @ ''Server: LUFA RNDIS'' @ crlf @
     ''Connection: close'' @ crlf @ crlf)"

definition HTTPPage :: bytes where
  "HTTPPage = cstr (
     ''<html>'' @
     tab @ ''<head>'' @
     tab @ tab @ ''<title>'' @
     tab @ tab @ tab @ ''LUFA Webserver Demo'' @
     tab @ tab @ ''</title>'' @
     tab @ ''</head>'' @
     tab @ ''<body>'' @
     tab @ tab @ ''<h1>Hello from your USB AVR!</h1>'' @
     tab @ tab @ ''<p>'' @
     tab @ tab @ tab @ ''Hello! Welcome to the LUFA RNDIS Demo Webserver test page, running on your USB AVR via the LUFA library. This demonstrates the HTTP webserver, TCP/IP stack and RNDIS demo all running atop the LUFA USB stack.'' @
     tab @ tab @ tab @ ''<br /><br />'' @
     tab @ tab @ tab @ ''<small>Project Information: <a href=\"http://www.lufa-lib.org\">http://www.lufa-lib.org</a>.</small>'' @
     tab @ tab @ tab @ ''<hr />'' @
     tab @ tab @ tab @ ''<i>LUFA Version: </i>'' @ ''120730'' @
     tab @ tab @ ''</p>'' @
     tab @ ''</body>'' @
     ''</html>'')"

definition HTTP_REPLY_BLOCK_SIZE :: nat where
  "HTTP_REPLY_BLOCK_SIZE = 128"

text \<open>The length of the string at a position: the distance to the next zero byte.\<close>

fun strlen :: "bytes \<Rightarrow> nat option" where
  "strlen [] = None"
| "strlen (b # bs) = (if b = 0 then Some 0 else map_option Suc (strlen bs))"

text \<open>\<^verbatim>\<open>strncmp\<close> of the first \<^verbatim>\<open>strlen(Command)\<close> bytes; neither string ends before that unless they
  differ.\<close>

definition IsHTTPCommand :: "bytes \<Rightarrow> string \<Rightarrow> bool" where
  "IsHTTPCommand RequestHeader Command = (take (length Command) RequestHeader = cstr Command)"

section \<open>Application macros\<close>

definition TCP_APP_HAS_RECEIVED_PACKET :: "TCP_ConnectionBuffer_t \<Rightarrow> bool" where
  "TCP_APP_HAS_RECEIVED_PACKET b = (buf_Ready b \<and> buf_Direction b = TCP_PACKETDIR_IN)"

definition TCP_APP_HAVE_CAPTURED_BUFFER :: "TCP_ConnectionBuffer_t \<Rightarrow> bool" where
  "TCP_APP_HAVE_CAPTURED_BUFFER b = (\<not> buf_Ready b \<and> buf_InUse b \<and> buf_Direction b = TCP_PACKETDIR_OUT)"

definition TCP_APP_CAPTURE_BUFFER :: "TCP_ConnectionBuffer_t \<Rightarrow> TCP_ConnectionBuffer_t" where
  "TCP_APP_CAPTURE_BUFFER b = b\<lparr>buf_Direction := TCP_PACKETDIR_OUT, buf_InUse := True\<rparr>"

definition TCP_APP_RELEASE_BUFFER :: "TCP_ConnectionBuffer_t \<Rightarrow> TCP_ConnectionBuffer_t" where
  "TCP_APP_RELEASE_BUFFER b = b\<lparr>buf_InUse := False\<rparr>"

definition TCP_APP_SEND_BUFFER :: "TCP_ConnectionBuffer_t \<Rightarrow> u16 \<Rightarrow> TCP_ConnectionBuffer_t" where
  "TCP_APP_SEND_BUFFER b Len = b\<lparr>buf_Direction := TCP_PACKETDIR_OUT, buf_Length := Len, buf_Ready := True\<rparr>"

definition TCP_APP_CLEAR_BUFFER :: "TCP_ConnectionBuffer_t \<Rightarrow> TCP_ConnectionBuffer_t" where
  "TCP_APP_CLEAR_BUFFER b = b\<lparr>buf_Ready := False, buf_Length := 0\<rparr>"

definition TCP_APP_CLOSECONNECTION :: "TCP_ConnectionState_t \<Rightarrow> TCP_ConnectionState_t" where
  "TCP_APP_CLOSECONNECTION c = c\<lparr>cs_State := TCP_Connection_Closing\<rparr>"

lemmas tcp_app = TCP_APP_HAS_RECEIVED_PACKET_def TCP_APP_HAVE_CAPTURED_BUFFER_def
  TCP_APP_CAPTURE_BUFFER_def TCP_APP_RELEASE_BUFFER_def TCP_APP_SEND_BUFFER_def
  TCP_APP_CLEAR_BUFFER_def TCP_APP_CLOSECONNECTION_def

section \<open>The callback\<close>

abbreviation with_buffer :: "TCP_ConnectionState_t \<Rightarrow> TCP_ConnectionBuffer_t \<Rightarrow> TCP_ConnectionState_t" where
  "with_buffer c b \<equiv> c\<lparr>cs_Info := (cs_Info c)\<lparr>Buffer := b\<rparr>\<rparr>"

text \<open>\<^verbatim>\<open>strcpy_P\<close> of a header into the buffer, and \<^verbatim>\<open>TCP_APP_SEND_BUFFER\<close> of its measured length.\<close>

definition send_header :: "bytes \<Rightarrow> TCP_ConnectionBuffer_t \<Rightarrow> TCP_ConnectionBuffer_t option" where
  "send_header header b = do {
     Data \<leftarrow> wrn (buf_Data b) 0 (header @ [0]);
     len \<leftarrow> strlen Data;
     Some (TCP_APP_SEND_BUFFER (b\<lparr>buf_Data := Data\<rparr>) (of_nat len))
   }"

text \<open>The branch for a request.\<close>

definition Webserver_request :: "TCP_ConnectionState_t \<Rightarrow> u8 \<Rightarrow> (TCP_ConnectionState_t \<times> u8) option" where
  "Webserver_request c PageBlock =
     (let b = Buffer (cs_Info c) in
      if IsHTTPCommand (buf_Data b) ''GET''
      then if IsHTTPCommand (buf_Data b) ''GET / ''
           then do {
             b \<leftarrow> send_header HTTP200Header b;
             Some (with_buffer c (TCP_APP_CAPTURE_BUFFER b), 0)
           }
           else do {
             b \<leftarrow> send_header HTTP404Header b;
             Some (TCP_APP_CLOSECONNECTION (with_buffer c b), PageBlock)
           }
      else if IsHTTPCommand (buf_Data b) ''HEAD''
      then do {
        b \<leftarrow> (if IsHTTPCommand (buf_Data b) ''HEAD / '' then send_header HTTP200Header b
             else send_header HTTP404Header b);
        Some (TCP_APP_CLOSECONNECTION (with_buffer c b), PageBlock)
      }
      else if IsHTTPCommand (buf_Data b) ''TRACE''
      then Some (TCP_APP_CLOSECONNECTION (with_buffer c (TCP_APP_SEND_BUFFER b (buf_Length b))), PageBlock)
      else Some (with_buffer c (TCP_APP_CLEAR_BUFFER b), PageBlock))"

text \<open>The branch that sends the next block of the page.  \<^verbatim>\<open>sizeof(HTTPPage)\<close> counts the zero at its end.\<close>

definition Webserver_next_block :: "TCP_ConnectionState_t \<Rightarrow> u8 \<Rightarrow> (TCP_ConnectionState_t \<times> u8) option" where
  "Webserver_next_block c PageBlock = do {
     let b = Buffer (cs_Info c);
     let start = unat PageBlock * HTTP_REPLY_BLOCK_SIZE;
     RemLength \<leftarrow> strlen (drop start (HTTPPage @ [0]));
     let Length = (if RemLength > HTTP_REPLY_BLOCK_SIZE then HTTP_REPLY_BLOCK_SIZE else RemLength);
     Data \<leftarrow> wrn (buf_Data b) 0 (take Length (drop start (HTTPPage @ [0])));
     let b = TCP_APP_SEND_BUFFER (b\<lparr>buf_Data := Data\<rparr>) (of_nat Length);
     if unat PageBlock = length (HTTPPage @ [0]) div HTTP_REPLY_BLOCK_SIZE
     then Some (TCP_APP_CLOSECONNECTION (with_buffer c (TCP_APP_RELEASE_BUFFER b)), PageBlock + 1)
     else Some (with_buffer c b, PageBlock + 1)
   }"

definition Webserver_ApplicationCallback :: "u8 app_handler" where
  "Webserver_ApplicationCallback ConnectionState PageBlock =
     (if TCP_APP_HAS_RECEIVED_PACKET (Buffer (cs_Info ConnectionState))
      then Webserver_request ConnectionState PageBlock
      else if TCP_APP_HAVE_CAPTURED_BUFFER (Buffer (cs_Info ConnectionState))
      then Webserver_next_block ConnectionState PageBlock
      else Some (ConnectionState, PageBlock))"

definition TCP_PORT_HTTP :: u16 where
  "TCP_PORT_HTTP = SwapEndian_16 True 80"

definition Webserver_Init :: "u8 tcp \<Rightarrow> u8 tcp" where
  "Webserver_Init t = snd (TCP_SetPortState TCP_PORT_HTTP TCP_Port_Open (Some Webserver_ApplicationCallback) t)"


section \<open>Strings of the server\<close>

lemma strlen_append: "0 \<notin> set xs \<Longrightarrow> strlen (xs @ 0 # ys) = Some (length xs)"
  by (induction xs) auto

lemma http_lengths: "length HTTP200Header = 83" "length HTTP404Header = 65" "length HTTPPage = 495"
  by code_simp+

lemma http_nonzero: "0 \<notin> set HTTP200Header" "0 \<notin> set HTTP404Header" "0 \<notin> set HTTPPage"
  by code_simp+

lemma send_header_result:
  assumes "length (buf_Data b) = 512" "0 \<notin> set h" "length h < 512"
  shows "\<exists>D. send_header h b = Some (TCP_APP_SEND_BUFFER (b\<lparr>buf_Data := D\<rparr>) (of_nat (length h))) \<and>
    take (length h) D = h \<and> length D = 512"
proof -
  let ?D = "h @ 0 # drop (length h + 1) (buf_Data b)"
  have "wrn (buf_Data b) 0 (h @ [0]) = Some ?D"
    using assms by (simp add: wrn_def)
  then show ?thesis
    using assms strlen_append [of h] by (intro exI [of _ ?D]) (simp add: send_header_def)
qed

lemma next_block_result:
  assumes "length (buf_Data (Buffer (cs_Info c))) = 512" "unat k \<le> 3"
  shows "\<exists>D. Webserver_next_block c k = Some
      (if unat k = 3
       then c\<lparr>cs_State := TCP_Connection_Closing, cs_Info := (cs_Info c)\<lparr>Buffer := (Buffer (cs_Info c))
         \<lparr>buf_Data := D, buf_Direction := TCP_PACKETDIR_OUT, buf_Length := of_nat (min 128 (495 - 128 * unat k)),
          buf_Ready := True, buf_InUse := False\<rparr>\<rparr>\<rparr>
       else c\<lparr>cs_Info := (cs_Info c)\<lparr>Buffer := (Buffer (cs_Info c))
         \<lparr>buf_Data := D, buf_Direction := TCP_PACKETDIR_OUT, buf_Length := of_nat (min 128 (495 - 128 * unat k)),
          buf_Ready := True\<rparr>\<rparr>\<rparr>, k + 1) \<and>
    take (min 128 (495 - 128 * unat k)) D = take 128 (drop (128 * unat k) HTTPPage) \<and> length D = 512"
proof -
  let ?s = "128 * unat k" and ?n = "min 128 (495 - 128 * unat k)"
  have s: "?s \<le> length HTTPPage"
    using assms(2) by (simp add: http_lengths)
  have "0 \<notin> set (drop ?s HTTPPage)"
    using http_nonzero(3) by (meson in_set_dropD)
  then have len: "strlen (drop ?s (HTTPPage @ [0])) = Some (495 - ?s)"
    using s strlen_append [of "drop ?s HTTPPage" "[]"] by (simp add: http_lengths)
  have block: "take ?n (drop ?s (HTTPPage @ [0])) = take 128 (drop ?s HTTPPage)"
    using s by (simp add: http_lengths min_def)
  let ?D = "take 128 (drop ?s HTTPPage) @ drop ?n (buf_Data (Buffer (cs_Info c)))"
  have n: "length (take 128 (drop ?s HTTPPage)) = ?n"
    by (simp add: http_lengths min.commute)
  have w: "wrn (buf_Data (Buffer (cs_Info c))) 0 (take ?n (drop ?s (HTTPPage @ [0]))) = Some ?D"
    unfolding block using assms(1) n by (simp add: wrn_def)
  have last: "length (HTTPPage @ [0]) div HTTP_REPLY_BLOCK_SIZE = 3"
    by (simp add: http_lengths HTTP_REPLY_BLOCK_SIZE_def)
  have sel: "(if HTTP_REPLY_BLOCK_SIZE < 495 - ?s then HTTP_REPLY_BLOCK_SIZE else 495 - ?s) = ?n"
    by (simp add: HTTP_REPLY_BLOCK_SIZE_def)
  have s': "unat k * HTTP_REPLY_BLOCK_SIZE = ?s"
    by (simp add: HTTP_REPLY_BLOCK_SIZE_def)
  have "Webserver_next_block c k =
    (let b = TCP_APP_SEND_BUFFER ((Buffer (cs_Info c))\<lparr>buf_Data := ?D\<rparr>) (of_nat ?n) in
     if unat k = 3
     then Some (TCP_APP_CLOSECONNECTION (with_buffer c (TCP_APP_RELEASE_BUFFER b)), k + 1)
     else Some (with_buffer c b, k + 1))"
    unfolding Webserver_next_block_def Let_def s' len Option.bind.bind_lunit sel w last ..
  moreover have "take ?n ?D = take 128 (drop ?s HTTPPage)"
    using n by (metis append_eq_conv_conj)
  moreover have "length ?D = 512"
    using n assms(1) by simp
  ultimately show ?thesis
    by (intro exI [of _ ?D]) (simp add: Let_def tcp_app)
qed

section \<open>The server behind the task\<close>

text \<open>The stack with the web server on its port, one client connection and other connections that
  are not to that port.\<close>

definition server_state :: "TCP_ConnectionState_t \<Rightarrow> TCP_ConnectionState_t list \<Rightarrow> u8 \<Rightarrow> u8 tcp" where
  "server_state c others k = \<lparr>
     PortStateTable = [\<lparr>ps_Port = TCP_PORT_HTTP, ps_State = TCP_Port_Open,
       ps_ApplicationHandler = Some Webserver_ApplicationCallback\<rparr>],
     ConnectionStateTable = c # others, App = k\<rparr>"

definition server_ok :: "TCP_ConnectionState_t \<Rightarrow> TCP_ConnectionState_t list \<Rightarrow> bool" where
  "server_ok c others = (tcp_wf (server_state c others 0) \<and> cs_Port c = TCP_PORT_HTTP \<and>
     (\<forall>d \<in> set others. cs_Port d \<noteq> TCP_PORT_HTTP))"

definition sent :: "TCP_ConnectionState_t \<Rightarrow> TCP_ConnectionState_t" where
  "sent c = c\<lparr>cs_Info := (cs_Info c)\<lparr>
     SequenceNumberOut := SequenceNumberOut (cs_Info c) + ucast (buf_Length (Buffer (cs_Info c))),
     Buffer := (Buffer (cs_Info c))\<lparr>buf_Ready := False\<rparr>\<rparr>\<rparr>"

definition frame_payload :: "Ethernet_Frame_Info_t \<Rightarrow> bytes" where
  "frame_payload F = take (unat (FrameLength F) - 54) (drop 54 (FrameData F))"

text \<open>Repeated calls of the task; after each the frame has been passed on to the host.\<close>

fun task_rounds :: "nat \<Rightarrow> 'a tcp \<Rightarrow> Ethernet_Frame_Info_t \<Rightarrow> (bytes list \<times> 'a tcp) option" where
  "task_rounds 0 t F = Some ([], t)"
| "task_rounds (Suc n) t F = do {
     (t, F) \<leftarrow> TCP_TCPTask t (F\<lparr>FrameLength := 0\<rparr>);
     (ps, t) \<leftarrow> task_rounds n t F;
     Some (frame_payload F # ps, t)
   }"

lemma server_ok_head:
  assumes "server_ok c others" "conn_of c' = conn_of c" "buffer_ok (cs_Info c')"
  shows "server_ok c' others"
proof -
  have "cs_Port c' = cs_Port c" "cs_RemoteAddress c' = cs_RemoteAddress c"
    using assms(2) by (simp_all add: conn_of_def)
  moreover have "tbl_wf conn_of cs_State TCP_Connection_Closed (c' # others)"
    if "tbl_wf conn_of cs_State TCP_Connection_Closed (c # others)"
    using that assms(2) unfolding tbl_wf_def by (auto simp: nth_Cons' split: if_splits)
  ultimately show ?thesis
    using assms by (auto simp: server_ok_def server_state_def tcp_wf_def conn_wf_def port_wf_def)
qed

lemma server_applications:
  assumes "server_ok c others" "Webserver_ApplicationCallback c k = Some (c', k')" "cs_Port c' = cs_Port c"
  shows "TCP_run_applications (server_state c others k) = Some (server_state c' others k')"
proof -
  obtain d e where o: "others = [d, e]"
    using assms(1)
    by (auto simp: server_ok_def server_state_def tcp_wf_def conn_wf_def MAX_TCP_CONNECTIONS_def
        length_Suc_conv eval_nat_numeral)
  moreover have "TCP_PORT_HTTP \<noteq> cs_Port d" "TCP_PORT_HTTP \<noteq> cs_Port e" "cs_Port c = TCP_PORT_HTTP"
    using assms(1) o by (auto simp: server_ok_def)
  ultimately show ?thesis
    using assms(2,3)
    by (simp add: server_state_def TCP_run_applications_def MAX_TCP_CONNECTIONS_def
        MAX_OPEN_TCP_PORTS_def upt_rec TCP_run_handler_def)
qed

lemma server_round:
  assumes "server_ok c others" "Webserver_ApplicationCallback c k = Some (c', k')"
    and "conn_of c' = conn_of c" "buffer_ok (cs_Info c')" "ready_out c'"
    and F: "length (FrameData F) = ETHERNET_FRAME_SIZE_MAX"
  shows "\<exists>F'. TCP_TCPTask (server_state c others k) (F\<lparr>FrameLength := 0\<rparr>) =
      Some (server_state (sent c') others k', F') \<and>
    length (FrameData F') = ETHERNET_FRAME_SIZE_MAX \<and>
    frame_payload F' = take (unat (buf_Length (Buffer (cs_Info c')))) (buf_Data (Buffer (cs_Info c'))) \<and>
    server_ok (sent c') others"
proof -
  let ?t = "server_state c' others k'" and ?F = "F\<lparr>FrameLength := 0\<rparr>"
  let ?L = "buf_Length (Buffer (cs_Info c'))"
  have app: "TCP_run_applications (server_state c others k) = Some ?t"
    using server_applications [OF assms(1,2)] assms(3) by (simp add: conn_of_def)
  have ok: "server_ok c' others"
    by (rule server_ok_head [OF assms(1,3,4)])
  then have wf: "tcp_wf ?t"
    by (simp add: server_ok_def server_state_def tcp_wf_def conn_wf_def port_wf_def)
  have first: "first_index ready_out (ConnectionStateTable ?t) = Some 0"
    using assms(5) by (simp add: server_state_def)
  have head: "ConnectionStateTable ?t ! 0 = c'" "0 < length (ConnectionStateTable ?t)"
    by (simp_all add: server_state_def)
  have F0: "length (FrameData ?F) = ETHERNET_FRAME_SIZE_MAX" "FrameLength ?F = 0"
    using F by simp_all
  note task = TCP_TCPTask_send [OF app F0(2) first]
  obtain F' h where F': "TCP_send_buffer 0 ?t ?F = Some (upd_info 0
      (\<lambda>n. n\<lparr>SequenceNumberOut := SequenceNumberOut n + ucast ?L, Buffer := (Buffer n)\<lparr>buf_Ready := False\<rparr>\<rparr>) ?t, F')"
    "length (FrameData F') = ETHERNET_FRAME_SIZE_MAX" "FrameLength F' = 54 + ?L"
    "rdn (FrameData F') 34 (20 + unat ?L) = Some (enc_tcp h @ take (unat ?L) (buf_Data (Buffer (cs_Info c'))))"
    using TCP_send_buffer_result [OF wf head(2) F0(1), unfolded head(1)] by (elim exE conjE) (rule that)
  have L: "unat ?L \<le> 512"
    using assms(4) by (simp add: buffer_ok_def TCP_WINDOW_SIZE_def word_le_nat_alt)
  then have n: "unat (54 + ?L) = 54 + unat ?L"
    by (simp add: unat_word_ariths)
  have "take (unat ?L) (drop 20 (take (20 + unat ?L) (drop 34 (FrameData F')))) =
      take (unat ?L) (buf_Data (Buffer (cs_Info c')))"
    using bytes_at [OF F'(4)] tcp_header_length by simp
  then have "frame_payload F' = take (unat ?L) (buf_Data (Buffer (cs_Info c')))"
    by (simp add: frame_payload_def F'(3) n drop_take)
  moreover have "server_ok (sent c') others"
    by (rule server_ok_head [OF ok]) (use assms(4) in \<open>simp_all add: sent_def buffer_ok_def\<close>)
  ultimately show ?thesis
    unfolding task using F'(1,2) by (simp add: upd_info_def server_state_def sent_def)
qed

text \<open>Sending one block of the page.\<close>

lemma block_round:
  assumes "server_ok c others" "TCP_APP_HAVE_CAPTURED_BUFFER (Buffer (cs_Info c))" "unat k \<le> 3"
    and F: "length (FrameData F) = ETHERNET_FRAME_SIZE_MAX"
  shows "\<exists>c' F'. TCP_TCPTask (server_state c others k) (F\<lparr>FrameLength := 0\<rparr>) =
      Some (server_state c' others (k + 1), F') \<and>
    length (FrameData F') = ETHERNET_FRAME_SIZE_MAX \<and> server_ok c' others \<and>
    frame_payload F' = take 128 (drop (128 * unat k) HTTPPage) \<and>
    (if unat k = 3 then cs_State c' = TCP_Connection_Closing \<and> \<not> buf_InUse (Buffer (cs_Info c')) \<and>
       \<not> buf_Ready (Buffer (cs_Info c'))
     else cs_State c' = cs_State c \<and> TCP_APP_HAVE_CAPTURED_BUFFER (Buffer (cs_Info c')))"
proof -
  let ?n = "min 128 (495 - 128 * unat k)"
  have data: "length (buf_Data (Buffer (cs_Info c))) = 512"
    using assms(1) by (simp add: server_ok_def server_state_def tcp_wf_def buffer_ok_def TCP_WINDOW_SIZE_def)
  obtain c1 D where c1: "Webserver_next_block c k = Some (c1, k + 1)" "length D = 512"
    "take ?n D = take 128 (drop (128 * unat k) HTTPPage)"
    "buf_Data (Buffer (cs_Info c1)) = D" "buf_Length (Buffer (cs_Info c1)) = of_nat ?n" "ready_out c1"
    "conn_of c1 = conn_of c"
    "buf_InUse (Buffer (cs_Info c1)) = (unat k \<noteq> 3 \<and> buf_InUse (Buffer (cs_Info c)))"
    "cs_State c1 = (if unat k = 3 then TCP_Connection_Closing else cs_State c)"
    using next_block_result [OF data assms(3)]
    by (cases "unat k = 3") (auto simp: conn_of_def ready_out_def)
  have call: "Webserver_ApplicationCallback c k = Some (c1, k + 1)"
    using assms(2) c1(1) by (simp add: Webserver_ApplicationCallback_def tcp_app)
  have n: "unat (buf_Length (Buffer (cs_Info c1))) = ?n"
    unfolding c1(5) by (rule unat_u16) simp
  then have ok: "buffer_ok (cs_Info c1)"
    by (simp add: buffer_ok_def c1(2,4) TCP_WINDOW_SIZE_def word_le_nat_alt)
  from server_round [OF assms(1) call c1(7) ok c1(6) F] obtain F' where
    F': "TCP_TCPTask (server_state c others k) (F\<lparr>FrameLength := 0\<rparr>) =
      Some (server_state (sent c1) others (k + 1), F')"
    "length (FrameData F') = ETHERNET_FRAME_SIZE_MAX"
    "frame_payload F' = take 128 (drop (128 * unat k) HTTPPage)" "server_ok (sent c1) others"
    unfolding n c1(4) c1(3) by blast
  show ?thesis
    using F' c1(6,8,9) assms(2)
    by (intro exI [of _ "sent c1"] exI [of _ F']) (simp add: sent_def tcp_app ready_out_def)
qed

lemma page_round:
  assumes "server_ok c others" "TCP_APP_HAS_RECEIVED_PACKET (Buffer (cs_Info c))"
    and "IsHTTPCommand (buf_Data (Buffer (cs_Info c))) ''GET / ''"
    and F: "length (FrameData F) = ETHERNET_FRAME_SIZE_MAX"
  shows "\<exists>c' F'. TCP_TCPTask (server_state c others k) (F\<lparr>FrameLength := 0\<rparr>) =
      Some (server_state c' others 0, F') \<and>
    length (FrameData F') = ETHERNET_FRAME_SIZE_MAX \<and> server_ok c' others \<and>
    frame_payload F' = HTTP200Header \<and> cs_State c' = cs_State c \<and>
    TCP_APP_HAVE_CAPTURED_BUFFER (Buffer (cs_Info c'))"
proof -
  have data: "length (buf_Data (Buffer (cs_Info c))) = 512"
    using assms(1) by (simp add: server_ok_def server_state_def tcp_wf_def buffer_ok_def TCP_WINDOW_SIZE_def)
  have get: "IsHTTPCommand (buf_Data (Buffer (cs_Info c))) ''GET''"
    using arg_cong [OF assms(3) [unfolded IsHTTPCommand_def], of "take 3"]
    by (simp add: IsHTTPCommand_def cstr_def)
  have "length HTTP200Header < 512"
    by (simp add: http_lengths)
  from send_header_result [OF data http_nonzero(1) this] obtain D where
    D: "send_header HTTP200Header (Buffer (cs_Info c)) =
        Some (TCP_APP_SEND_BUFFER ((Buffer (cs_Info c))\<lparr>buf_Data := D\<rparr>) 83)"
      "take 83 D = HTTP200Header" "length D = 512"
    by (auto simp: http_lengths)
  define c1 where "c1 = with_buffer c (TCP_APP_CAPTURE_BUFFER
    (TCP_APP_SEND_BUFFER ((Buffer (cs_Info c))\<lparr>buf_Data := D\<rparr>) 83))"
  have call: "Webserver_ApplicationCallback c k = Some (c1, 0)"
    using assms(2,3) get D(1) by (simp add: Webserver_ApplicationCallback_def Webserver_request_def c1_def)
  have c1: "conn_of c1 = conn_of c" "buffer_ok (cs_Info c1)" "ready_out c1"
    using D(3) by (simp_all add: c1_def conn_of_def buffer_ok_def ready_out_def tcp_app TCP_WINDOW_SIZE_def)
  from server_round [OF assms(1) call c1 F] obtain F' where
    F': "TCP_TCPTask (server_state c others k) (F\<lparr>FrameLength := 0\<rparr>) =
      Some (server_state (sent c1) others 0, F')"
    "length (FrameData F') = ETHERNET_FRAME_SIZE_MAX"
    "frame_payload F' = take (unat (buf_Length (Buffer (cs_Info c1)))) (buf_Data (Buffer (cs_Info c1)))"
    "server_ok (sent c1) others"
    by blast
  have "take (unat (buf_Length (Buffer (cs_Info c1)))) (buf_Data (Buffer (cs_Info c1))) = HTTP200Header"
    using D(2) by (simp add: c1_def tcp_app)
  moreover have "cs_State (sent c1) = cs_State c" "TCP_APP_HAVE_CAPTURED_BUFFER (Buffer (cs_Info (sent c1)))"
    by (simp_all add: c1_def sent_def tcp_app)
  ultimately show ?thesis
    using F' by auto
qed

lemma page_blocks:
  assumes "server_ok c others" "TCP_APP_HAVE_CAPTURED_BUFFER (Buffer (cs_Info c))" "unat k + n = 3"
    and "length (FrameData F) = ETHERNET_FRAME_SIZE_MAX"
  shows "\<exists>ps c'. task_rounds (Suc n) (server_state c others k) F = Some (ps, server_state c' others 4) \<and>
    concat ps = drop (128 * unat k) HTTPPage \<and> server_ok c' others \<and>
    cs_State c' = TCP_Connection_Closing \<and> \<not> buf_InUse (Buffer (cs_Info c')) \<and>
    \<not> buf_Ready (Buffer (cs_Info c'))"
  using assms
proof (induction n arbitrary: c k F)
  case 0
  then have k: "k = 3"
    by (simp add: word_unat_eq_iff)
  obtain c' F' where "TCP_TCPTask (server_state c others k) (F\<lparr>FrameLength := 0\<rparr>) =
      Some (server_state c' others 4, F')" "server_ok c' others"
    "frame_payload F' = take 128 (drop 384 HTTPPage)"
    "cs_State c' = TCP_Connection_Closing" "\<not> buf_InUse (Buffer (cs_Info c'))" "\<not> buf_Ready (Buffer (cs_Info c'))"
    using block_round [where k = 3, OF 0(1,2) _ 0(4)] by (auto simp: k)
  then show ?case
    by (intro exI [of _ "[frame_payload F']"] exI [of _ c']) (simp add: k http_lengths)
next
  case (Suc n)
  have k: "unat (k + 1) = unat k + 1" "unat k \<noteq> 3" "unat k \<le> 3"
    using Suc.prems(3) by (simp_all add: unat_word_ariths)
  obtain c1 F1 where one: "TCP_TCPTask (server_state c others k) (F\<lparr>FrameLength := 0\<rparr>) =
      Some (server_state c1 others (k + 1), F1)" "server_ok c1 others"
    "length (FrameData F1) = ETHERNET_FRAME_SIZE_MAX" "TCP_APP_HAVE_CAPTURED_BUFFER (Buffer (cs_Info c1))"
    "frame_payload F1 = take 128 (drop (128 * unat k) HTTPPage)"
    using block_round [OF Suc.prems(1,2) k(3) Suc.prems(4)] k(2) by auto
  have "unat (k + 1) + n = 3"
    using k Suc.prems(3) by simp
  from Suc.IH [OF one(2,4) this one(3)] obtain ps c' where
    rest: "task_rounds (Suc n) (server_state c1 others (k + 1)) F1 = Some (ps, server_state c' others 4)"
    "concat ps = drop (128 * unat k + 128) HTTPPage" "server_ok c' others"
    "cs_State c' = TCP_Connection_Closing" "\<not> buf_InUse (Buffer (cs_Info c'))" "\<not> buf_Ready (Buffer (cs_Info c'))"
    unfolding k(1) by (auto simp: algebra_simps)
  have "take 128 (drop (128 * unat k) HTTPPage) @ drop (128 * unat k + 128) HTTPPage = drop (128 * unat k) HTTPPage"
    by (metis add.commute append_take_drop_id drop_drop)
  moreover have "task_rounds (Suc (Suc n)) (server_state c others k) F =
      Some (frame_payload F1 # ps, server_state c' others 4)"
    using one(1) rest(1) task_rounds.simps(2) [of "Suc n" "server_state c others k" F]
    by (simp del: task_rounds.simps)
  ultimately show ?case
    using one(5) rest(2-6) by (intro exI [of _ "frame_payload F1 # ps"] exI [of _ c']) simp
qed

section \<open>Properties\<close>

text \<open>C31.  Let the connection in table entry 0 be the only one on the HTTP port, with a received
  request for the root page in its buffer.  Then five runs of the TCP task, with nothing arriving in
  between and the outgoing frame passed on after each, send exactly the HTTP header and the page as
  the payloads of their frames; the connection is then closing and its buffer free again.  The
  single client is necessary: the block counter \<^verbatim>\<open>PageBlock\<close> is one static variable for all
  connections, and a second request resets it.\<close>

theorem webserver_serves_page:
  assumes "server_ok c others" "TCP_APP_HAS_RECEIVED_PACKET (Buffer (cs_Info c))"
    and "IsHTTPCommand (buf_Data (Buffer (cs_Info c))) ''GET / ''"
    and "length (FrameData F) = ETHERNET_FRAME_SIZE_MAX"
  shows "\<exists>ps c'. task_rounds 5 (server_state c others k) F = Some (ps, server_state c' others 4) \<and>
    concat ps = HTTP200Header @ HTTPPage \<and> cs_State c' = TCP_Connection_Closing \<and>
    \<not> buf_InUse (Buffer (cs_Info c')) \<and> \<not> buf_Ready (Buffer (cs_Info c'))"
proof -
  from page_round [OF assms] obtain c1 F1 where
    one: "TCP_TCPTask (server_state c others k) (F\<lparr>FrameLength := 0\<rparr>) = Some (server_state c1 others 0, F1)"
    "length (FrameData F1) = ETHERNET_FRAME_SIZE_MAX" "server_ok c1 others"
    "frame_payload F1 = HTTP200Header" "TCP_APP_HAVE_CAPTURED_BUFFER (Buffer (cs_Info c1))"
    by blast
  have nums: "unat (0 :: u8) + 3 = 3" "Suc 3 = 4" "Suc 4 = 5"
    by simp_all
  from page_blocks [OF one(3,5) nums(1) one(2)] obtain ps c' where
    rest: "task_rounds 4 (server_state c1 others 0) F1 = Some (ps, server_state c' others 4)"
    "concat ps = HTTPPage" "cs_State c' = TCP_Connection_Closing"
    "\<not> buf_InUse (Buffer (cs_Info c'))" "\<not> buf_Ready (Buffer (cs_Info c'))"
    unfolding nums(2) by auto
  have "task_rounds 5 (server_state c others k) F = Some (frame_payload F1 # ps, server_state c' others 4)"
    using one(1) rest(1) task_rounds.simps(2) [of 4 "server_state c others k" F] unfolding nums(3) by simp
  then show ?thesis
    using rest one(4) by (intro exI [of _ "frame_payload F1 # ps"] exI [of _ c']) simp
qed

definition client_sample :: TCP_ConnectionState_t where
  "client_sample = free_conn\<lparr>cs_Port := TCP_PORT_HTTP, cs_RemotePort := 0x3412, cs_RemoteAddress := [10, 0, 0, 1],
     cs_Info := idle_info\<lparr>Buffer := \<lparr>buf_Length = 16, buf_Data = cstr ''GET / HTTP/1.1'' @ [13, 10] @ replicate 496 0,
       buf_Direction = False, buf_Ready = True, buf_InUse = False\<rparr>\<rparr>,
     cs_State := TCP_Connection_Established\<rparr>"

lemma http_port_value: "TCP_PORT_HTTP = 0x5000"
  by code_simp

lemma client_sample_ok: "server_ok client_sample [free_conn, free_conn]"
  by (auto simp: server_ok_def server_state_def tcp_wf_def conn_wf_def port_wf_def tbl_wf_def client_sample_def
      free_conn_def idle_info_def buffer_ok_def conn_of_def MAX_TCP_CONNECTIONS_def MAX_OPEN_TCP_PORTS_def
      TCP_WINDOW_SIZE_def http_port_value cstr_def less_3 nth_Cons' less_Suc_eq)

theorem webserver_serves_page_witness:
  "server_ok client_sample [free_conn, free_conn] \<and>
   (\<exists>ps t. task_rounds 5 (server_state client_sample [free_conn, free_conn] 7) empty_frame = Some (ps, t) \<and>
     concat ps = HTTP200Header @ HTTPPage)"
proof -
  have "TCP_APP_HAS_RECEIVED_PACKET (Buffer (cs_Info client_sample))"
    by (simp add: client_sample_def tcp_app TCP_PACKETDIR_IN_def)
  moreover have "IsHTTPCommand (buf_Data (Buffer (cs_Info client_sample))) ''GET / ''"
    by (simp add: client_sample_def IsHTTPCommand_def cstr_def)
  moreover have "length (FrameData empty_frame) = ETHERNET_FRAME_SIZE_MAX"
    by (simp add: empty_frame_def ETHERNET_FRAME_SIZE_MAX_def)
  ultimately show ?thesis
    using webserver_serves_page [OF client_sample_ok, of empty_frame 7] client_sample_ok by blast
qed

end
