(* ===== verification/Net_Stack.thy ===== *)
theory Net_Stack
  imports Net_Services Net_Webserver
begin

text \<open>
  The top of the network demo: \<^verbatim>\<open>IP_ProcessIPPacket\<close>, \<^verbatim>\<open>Ethernet_ProcessPacket\<close> and the body of the loop
  of \<^verbatim>\<open>main\<close> in \<^verbatim>\<open>RNDISEthernet.c\<close>.  A packet the host has sent is an input of the loop body, and the
  packets passed back to the host are collected in the order they are sent.  The sub-protocol
  handlers can change the received frame (DHCP corrects its addresses), so the headers are read
  again after they return, as the pointers of the source do.
\<close>

section \<open>IP and Ethernet\<close>

definition IP_ProcessIPPacket ::
    "Ethernet_Frame_Info_t \<Rightarrow> nat \<Rightarrow> 'a tcp \<Rightarrow> bytes \<Rightarrow> nat \<Rightarrow> (int \<times> bytes \<times> 'a tcp \<times> bytes) option" where
  "IP_ProcessIPPacket FrameIN InDataStart t out OutDataStart = do {
     let fin = FrameData FrameIN;
     IPHeaderIN \<leftarrow> get_ip fin InDataStart;
     let HeaderLengthBytes = unat (ip_HeaderLength IPHeaderIN) * 4;
     if \<not> IP_COMPARE (ip_DestinationAddress IPHeaderIN) ServerIPAddress \<and>
        \<not> IP_COMPARE (ip_DestinationAddress IPHeaderIN) BroadcastIPAddress
     then Some (NO_RESPONSE, fin, t, out)
     else do {
       (RetSize, fin, t, out) \<leftarrow>
         (if ip_Protocol IPHeaderIN = PROTOCOL_ICMP
          then do {
            (RetSize, out) \<leftarrow> ICMP_ProcessICMPPacket FrameIN (InDataStart + HeaderLengthBytes) out
              (OutDataStart + sizeof_IP_Header_t);
            Some (RetSize, fin, t, out)
          }
          else if ip_Protocol IPHeaderIN = PROTOCOL_TCP
          then do {
            (RetSize, t, out) \<leftarrow> TCP_ProcessTCPPacket fin InDataStart (InDataStart + HeaderLengthBytes) t out
              (OutDataStart + sizeof_IP_Header_t);
            Some (RetSize, fin, t, out)
          }
          else if ip_Protocol IPHeaderIN = PROTOCOL_UDP
          then do {
            (RetSize, fin, out) \<leftarrow> UDP_ProcessUDPPacket fin InDataStart (InDataStart + HeaderLengthBytes) out
              (OutDataStart + sizeof_IP_Header_t);
            Some (RetSize, fin, t, out)
          }
          else Some (NO_RESPONSE, fin, t, out));
       if 0 < RetSize
       then do {
         IPHeaderIN \<leftarrow> get_ip fin InDataStart;
         out \<leftarrow> IP_write_header out OutDataStart (of_int RetSize) (ip_Protocol IPHeaderIN)
           (ip_DestinationAddress IPHeaderIN) (ip_SourceAddress IPHeaderIN);
         Some (int sizeof_IP_Header_t + RetSize, fin, t, out)
       }
       else Some (RetSize, fin, t, out)
     }
   }"

definition Ethernet_dispatch ::
    "Ethernet_Frame_Info_t \<Rightarrow> u16 \<Rightarrow> 'a tcp \<Rightarrow> bytes \<Rightarrow> (int \<times> bytes \<times> 'a tcp \<times> bytes) option" where
  "Ethernet_dispatch FrameIN EtherType t out =
     (if SwapEndian_16 False EtherType = ETHERTYPE_ARP
      then do {
        (RetSize, out) \<leftarrow> ARP_ProcessARPPacket (FrameData FrameIN) sizeof_Ethernet_Frame_Header_t out
          sizeof_Ethernet_Frame_Header_t;
        Some (RetSize, FrameData FrameIN, t, out)
      }
      else if SwapEndian_16 False EtherType = ETHERTYPE_IPV4
      then IP_ProcessIPPacket FrameIN sizeof_Ethernet_Frame_Header_t t out sizeof_Ethernet_Frame_Header_t
      else Some (NO_RESPONSE, FrameData FrameIN, t, out))"

definition Ethernet_accepts :: "Ethernet_Frame_Info_t \<Rightarrow> Ethernet_Frame_Header_t \<Rightarrow> bool" where
  "Ethernet_accepts FrameIN FrameINHeader =
     ((MAC_COMPARE (eth_Destination FrameINHeader) ServerMACAddress \<or>
       MAC_COMPARE (eth_Destination FrameINHeader) BroadcastMACAddress) \<and>
      ETHERNET_VER2_MINSIZE < SwapEndian_16 False (FrameLength FrameIN))"

definition Ethernet_ProcessPacket ::
    "Ethernet_Frame_Info_t \<Rightarrow> Ethernet_Frame_Info_t \<Rightarrow> 'a tcp \<Rightarrow>
     (Ethernet_Frame_Info_t \<times> Ethernet_Frame_Info_t \<times> 'a tcp) option" where
  "Ethernet_ProcessPacket FrameIN FrameOUT t = do {
     FrameINHeader \<leftarrow> get_eth (FrameData FrameIN) 0;
     (RetSize, FrameIN, FrameOUT, t) \<leftarrow>
       (if Ethernet_accepts FrameIN FrameINHeader
        then do {
          (RetSize, fin, t, out) \<leftarrow> Ethernet_dispatch FrameIN (eth_EtherType FrameINHeader) t (FrameData FrameOUT);
          if 0 < RetSize
          then do {
            FrameINHeader \<leftarrow> get_eth fin 0;
            out \<leftarrow> put_eth out 0 \<lparr>eth_Destination = eth_Source FrameINHeader, eth_Source = ServerMACAddress,
              eth_EtherType = eth_EtherType FrameINHeader\<rparr>;
            Some (RetSize, FrameIN\<lparr>FrameData := fin\<rparr>,
              \<lparr>FrameData = out, FrameLength = of_int (int sizeof_Ethernet_Frame_Header_t + RetSize)\<rparr>, t)
          }
          else Some (RetSize, FrameIN\<lparr>FrameData := fin\<rparr>, FrameOUT\<lparr>FrameData := out\<rparr>, t)
        }
        else Some (NO_RESPONSE, FrameIN, FrameOUT, t));
     Some (if RetSize \<noteq> NO_PROCESS then FrameIN\<lparr>FrameLength := 0\<rparr> else FrameIN, FrameOUT, t)
   }"

section \<open>The main loop\<close>

record net =
  FrameIN :: Ethernet_Frame_Info_t
  FrameOUT :: Ethernet_Frame_Info_t
  Stack :: "u8 tcp"
  Sent :: "bytes list"

text \<open>The packet is stored into \<open>FrameIN\<close> and processed, and the response is sent.\<close>

definition handle_packet :: "bytes \<Rightarrow> net \<Rightarrow> net option" where
  "handle_packet packet s = do {
     fin \<leftarrow> wrn (FrameData (FrameIN s)) 0 packet;
     (FrameIN, FrameOUT, t) \<leftarrow>
       Ethernet_ProcessPacket \<lparr>FrameData = fin, FrameLength = of_nat (length packet)\<rparr> (FrameOUT s) (Stack s);
     let s = s\<lparr>FrameIN := FrameIN, FrameOUT := FrameOUT, Stack := t\<rparr>;
     if FrameLength FrameOUT \<noteq> 0
     then do {
       reply \<leftarrow> rdn (FrameData FrameOUT) 0 (unat (FrameLength FrameOUT));
       Some (s\<lparr>Sent := Sent s @ [reply], FrameOUT := FrameOUT\<lparr>FrameLength := 0\<rparr>\<rparr>)
     }
     else Some s
   }"

definition main_iteration :: "bytes option \<Rightarrow> net \<Rightarrow> net option" where
  "main_iteration received s = do {
     s \<leftarrow> (case received of Some packet \<Rightarrow> handle_packet packet s | None \<Rightarrow> Some s);
     (t, FrameOUT) \<leftarrow> TCP_TCPTask (Stack s) (FrameOUT s);
     Some (s\<lparr>Stack := t, FrameOUT := FrameOUT\<rparr>)
   }"

fun net_loop :: "bytes option list \<Rightarrow> net \<Rightarrow> net option" where
  "net_loop [] s = Some s"
| "net_loop (r # rs) s = do {
     s \<leftarrow> main_iteration r s;
     net_loop rs s
   }"

text \<open>The state \<^verbatim>\<open>TCP_Init\<close> and \<^verbatim>\<open>Webserver_Init\<close> leave.\<close>

definition main_init :: "u8 tcp \<Rightarrow> u8 tcp" where
  "main_init t = Webserver_Init (TCP_Init t)"

section \<open>An idle server\<close>

definition quiet :: "TCP_ConnectionState_t \<Rightarrow> bool" where
  "quiet c = (\<not> TCP_APP_HAS_RECEIVED_PACKET (Buffer (cs_Info c)) \<and>
     \<not> TCP_APP_HAVE_CAPTURED_BUFFER (Buffer (cs_Info c)) \<and> \<not> ready_out c)"

definition idle_server :: "u8 tcp \<Rightarrow> bool" where
  "idle_server t = (PortStateTable t = [\<lparr>ps_Port = TCP_PORT_HTTP, ps_State = TCP_Port_Open,
       ps_ApplicationHandler = Some Webserver_ApplicationCallback\<rparr>] \<and>
     length (ConnectionStateTable t) = MAX_TCP_CONNECTIONS \<and> list_all quiet (ConnectionStateTable t))"

lemma for_each_same: "(\<And>x. x \<in> set xs \<Longrightarrow> f x s = Some s) \<Longrightarrow> for_each f xs s = Some s"
  by (induction xs) auto

lemma idle_applications:
  assumes "idle_server t"
  shows "TCP_run_applications t = Some t"
proof -
  have call: "Webserver_ApplicationCallback c k = Some (c, k)" if "quiet c" for c k
    using that by (simp add: Webserver_ApplicationCallback_def quiet_def)
  have "TCP_run_handler i p t = Some t" if "i < MAX_TCP_CONNECTIONS" "p < MAX_OPEN_TCP_PORTS" for i p
    using that assms call
    by (auto simp: TCP_run_handler_def idle_server_def MAX_OPEN_TCP_PORTS_def list_all_length)
  then show ?thesis
    unfolding TCP_run_applications_def by (intro for_each_same) auto
qed

lemma idle_task:
  assumes "idle_server t"
  shows "TCP_TCPTask t F = Some (t, F)"
proof -
  have "first_index (\<lambda>c. buf_Direction (Buffer (cs_Info c)) = TCP_PACKETDIR_OUT \<and> buf_Ready (Buffer (cs_Info c)))
      (ConnectionStateTable t) = None"
    using assms by (simp add: first_index_None idle_server_def list_all_iff quiet_def ready_out_def)
  then show ?thesis
    using idle_applications [OF assms] by (simp add: TCP_TCPTask_def)
qed

section \<open>Lengths and headers of a ping\<close>

text \<open>The length test of \<^verbatim>\<open>Ethernet_ProcessPacket\<close>: it looks at the length with its bytes exchanged.\<close>

definition length_accepted :: "nat \<Rightarrow> bool" where
  "length_accepted n = (6 < n mod 256 \<or> n mod 256 = 6 \<and> 256 \<le> n)"

lemma length_test:
  assumes "n \<le> ETHERNET_FRAME_SIZE_MAX"
  shows "ETHERNET_VER2_MINSIZE < SwapEndian_16 False (of_nat n) \<longleftrightarrow> length_accepted n"
proof -
  have n: "unat (of_nat n :: u16) = n"
    using assms by (intro unat_u16) (simp add: ETHERNET_FRAME_SIZE_MAX_def)
  have "n div 256 < 256" "0 < n div 256 \<longleftrightarrow> 256 \<le> n"
    using assms by (simp_all add: ETHERNET_FRAME_SIZE_MAX_def div_greater_zero_iff)
  moreover have "ETHERNET_VER2_MINSIZE < SwapEndian_16 False (of_nat n) \<longleftrightarrow> 1536 < n div 256 + 256 * (n mod 256)"
    unfolding SwapEndian_16_bytes word_less_nat_alt unat_word16_of unat_byte0 unat_byte1 n
    by (simp add: ETHERNET_VER2_MINSIZE_def)
  ultimately show ?thesis
    unfolding length_accepted_def by linarith
qed

text \<open>An echo request in an IP packet without options, for the server, and its answer.\<close>

definition ping_request :: "bytes \<Rightarrow> bool" where
  "ping_request p = (42 \<le> length p \<and> length p \<le> ETHERNET_FRAME_SIZE_MAX \<and>
     take 6 p = ServerMACAddress \<and> take 3 (drop 12 p) = [0x08, 0x00, 0x45] \<and>
     p ! 23 = PROTOCOL_ICMP \<and> take 4 (drop 30 p) = ServerIPAddress \<and> p ! 34 = ICMP_TYPE_ECHOREQUEST)"

definition ping_answer :: "bytes \<Rightarrow> bytes \<Rightarrow> bool" where
  "ping_answer p r = (length r = length p \<and>
     take 14 r = take 6 (drop 6 p) @ ServerMACAddress @ [0x08, 0x00] \<and>
     inet_valid (take 20 (drop 14 r)) \<and> r ! 23 = PROTOCOL_ICMP \<and>
     take 8 (drop 26 r) = ServerIPAddress @ take 4 (drop 26 p) \<and>
     take 2 (drop 34 r) = [0, 0] \<and> drop 38 r = drop 38 p \<and>
     (inet_valid (drop 34 r) \<longleftrightarrow> even (length p) \<or> last p = 0))"

lemma ICMP_length: "ICMP_ProcessICMPPacket F i out p = Some (r, out') \<Longrightarrow> length out' = length out"
  by (auto simp: ICMP_ProcessICMPPacket_def bind_Some_conv put_icmp_def Let_def
      dest!: length_wrn length_wr16 split: if_splits)

lemma ping_headers:
  assumes "ping_request p" "length fin = ETHERNET_FRAME_SIZE_MAX" "take (length p) fin = p"
  shows "\<exists>e h. get_eth fin 0 = Some e \<and> eth_Destination e = ServerMACAddress \<and>
      eth_Source e = take 6 (drop 6 p) \<and> eth_EtherType e = 0x0008 \<and>
    get_ip fin 14 = Some h \<and> ip_HeaderLength h = 5 \<and> ip_Protocol h = PROTOCOL_ICMP \<and>
    ip_DestinationAddress h = ServerIPAddress \<and> ip_SourceAddress h = take 4 (drop 26 p) \<and>
    fin ! 34 = ICMP_TYPE_ECHOREQUEST"
proof -
  have len: "42 \<le> length p"
    using assms(1) by (simp add: ping_request_def)
  have fin: "fin = p @ drop (length p) fin"
    using assms(3) by (metis append_take_drop_id)
  have max: "length fin = 1500"
    using assms(2) by (simp add: ETHERNET_FRAME_SIZE_MAX_def)
  have t: "take 3 (drop 12 p) = [0x08, 0x00, 0x45]"
    using assms(1) by (simp add: ping_request_def)
  have b: "p ! 12 = 0x08" "p ! 13 = 0x00" "p ! 14 = 0x45"
    using arg_cong [OF t, of "\<lambda>l. l ! 0"] arg_cong [OF t, of "\<lambda>l. l ! 1"] arg_cong [OF t, of "\<lambda>l. l ! 2"] len
    by simp_all
  have e: "rdn fin 0 14 = Some (take 14 p)"
    using len max by (simp add: rdn_def) (subst fin, simp)
  have h: "rdn fin 14 20 = Some (take 20 (drop 14 p))"
    using len max by (simp add: rdn_def) (subst fin, simp)
  have "fin ! 34 = p ! 34"
    using len by (subst fin) (simp add: nth_append)
  moreover have "word16_of 8 0 = 8"
    by code_simp
  ultimately show ?thesis
    using assms(1) e h b len
    by (simp add: get_eth_def get_ip_def sizeof_Ethernet_Frame_Header_t_def sizeof_IP_Header_t_def dec_eth_def
        dec_ip_def ping_request_def at16_def drop_take min_def)
qed

lemma rdn_append: "rdn m i a = Some x \<Longrightarrow> rdn m (i + a) b = Some y \<Longrightarrow> rdn m i (a + b) = Some (x @ y)"
  by (auto simp: rdn_def take_add ac_simps split: if_splits)

text \<open>The answer is read off the three headers.\<close>

lemma ping_answer_parts:
  assumes "42 \<le> length p" "length bs = 20" "ip = dec_ip bs" "inet_valid bs"
    and "ip_Protocol ip = PROTOCOL_ICMP" "ip_SourceAddress ip = ServerIPAddress"
    and "ip_DestinationAddress ip = take 4 (drop 26 p)"
    and "icmp = [0, 0] @ le16 c @ drop 38 p" "inet_valid icmp \<longleftrightarrow> even (length icmp) \<or> last icmp = 0"
  shows "ping_answer p (take 6 (drop 6 p) @ ServerMACAddress @ [0x08, 0x00] @ bs @ icmp)"
proof -
  let ?e = "take 6 (drop 6 p) @ ServerMACAddress @ [0x08, 0x00]" and ?r = "take 6 (drop 6 p) @ ServerMACAddress @ [0x08, 0x00] @ bs @ icmp"
  have e: "length ?e = 14"
    using assms(1) by (simp add: ServerMACAddress_def)
  have icmp: "length icmp = length p - 34" "drop 4 icmp = drop 38 p" "take 2 icmp = [0, 0]"
    using assms(1,8) by (simp_all add: le16_def)
  have "last icmp = last p"
    using assms(1,8) by (simp add: last_append)
  moreover have "even (length icmp) \<longleftrightarrow> even (length p)"
    using icmp(1) assms(1) by simp
  ultimately have valid: "inet_valid icmp \<longleftrightarrow> even (length p) \<or> last p = 0"
    using assms(9) by simp
  have r: "?r = ?e @ bs @ icmp"
    by simp
  have d: "drop k (?e @ bs @ icmp) = drop (k - 14) bs @ icmp" if "14 \<le> k" "k \<le> 34" for k
    using that e assms(2) by (simp add: drop_append del: append_assoc)
  have d2: "drop k (?e @ bs @ icmp) = drop (k - 34) icmp" if "34 \<le> k" for k
    using that e assms(2) by (simp add: drop_append del: append_assoc)
  have addr: "take 8 (drop 12 bs) = ServerIPAddress @ take 4 (drop 26 p)"
    using assms(3,6,7) take_add [of 4 4 "drop 12 bs"] by (simp add: dec_ip_def)
  have proto: "bs ! 9 = PROTOCOL_ICMP"
    using assms(3,5) by (simp add: dec_ip_def)
  have "(?e @ bs @ icmp) ! 23 = bs ! 9"
    using e assms(2) by (simp only: nth_append) simp
  then show ?thesis
    unfolding ping_answer_def r
    using e icmp valid addr proto assms(1,2,4) d [of 14] d [of 26] d2 [of 34] d2 [of 38]
    by simp
qed

lemma ping_icmp:
  assumes "ping_request p" "length fin = ETHERNET_FRAME_SIZE_MAX" "take (length p) fin = p"
    and "length out = ETHERNET_FRAME_SIZE_MAX"
  shows "\<exists>c out'. ICMP_ProcessICMPPacket \<lparr>FrameData = fin, FrameLength = of_nat (length p)\<rparr> 34 out 34 =
      Some (int (length p - 34), out') \<and> length out' = ETHERNET_FRAME_SIZE_MAX \<and>
    rdn out' 34 (length p - 34) = Some ([0, 0] @ le16 c @ drop 38 p) \<and>
    (inet_valid ([0, 0] @ le16 c @ drop 38 p) \<longleftrightarrow>
      even (length ([0, 0] @ le16 c @ drop 38 p)) \<or> last ([0, 0] @ le16 c @ drop 38 p) = 0)"
proof -
  let ?F = "\<lparr>FrameData = fin, FrameLength = of_nat (length p)\<rparr> :: Ethernet_Frame_Info_t"
  have n: "42 \<le> length p" "length p \<le> 1500" "length fin = 1500" "length out = 1500"
    using assms by (simp_all add: ping_request_def ETHERNET_FRAME_SIZE_MAX_def)
  have L: "unat (FrameLength ?F) = length p"
    using n by (simp add: unat_u16)
  have echo: "FrameData ?F ! 34 = ICMP_TYPE_ECHOREQUEST"
    using ping_headers [OF assms(1-3)] by auto
  have rest: "take (length p - 38) (drop 38 fin) = drop 38 p"
    using arg_cong [OF assms(3), of "drop 38"] by (simp add: drop_take)
  have bounds: "length (FrameData ?F) < 2 ^ 15" "unat (FrameLength ?F) \<le> length (FrameData ?F)"
    "34 + 8 \<le> unat (FrameLength ?F)" "34 + (unat (FrameLength ?F) - 34) \<le> length out"
    unfolding L using n by simp_all
  from ICMP_reply [OF bounds echo, unfolded L] obtain c out' where
    r: "ICMP_ProcessICMPPacket ?F 34 out 34 = Some (int (length p - 34), out')"
    "rdn out' 34 (length p - 34) = Some ([0, 0] @ le16 c @ drop 38 p)"
    "Ethernet_Checksum16 out' 34 (of_nat (length p - 34)) = Some 0"
    using rest by auto
  have "unat (of_nat (length p - 34) :: u16) = length p - 34"
    using n by (intro unat_u16) simp
  with r(2,3) have "inet_valid ([0, 0] @ le16 c @ drop 38 p) \<longleftrightarrow>
      even (length ([0, 0] @ le16 c @ drop 38 p)) \<or> last ([0, 0] @ le16 c @ drop 38 p) = 0"
    by (intro inet_valid_iff [of out' 34 "of_nat (length p - 34)"]) simp_all
  moreover have "length out' = ETHERNET_FRAME_SIZE_MAX"
    using ICMP_length [OF r(1)] assms(4) by simp
  ultimately show ?thesis
    using r(1,2) by blast
qed

lemma ping_ip:
  assumes "ping_request p" "length fin = ETHERNET_FRAME_SIZE_MAX" "take (length p) fin = p"
    and "length out = ETHERNET_FRAME_SIZE_MAX"
  shows "\<exists>out' bs icmp. IP_ProcessIPPacket \<lparr>FrameData = fin, FrameLength = of_nat (length p)\<rparr> 14 t out 14 =
      Some (int (length p - 14), fin, t, out') \<and> length out' = ETHERNET_FRAME_SIZE_MAX \<and>
    rdn out' 14 (length p - 14) = Some (bs @ icmp) \<and>
    ping_answer p (take 6 (drop 6 p) @ ServerMACAddress @ [0x08, 0x00] @ bs @ icmp)"
proof -
  let ?n = "of_int (int (length p - 34)) :: u16"
  have n: "42 \<le> length p"
    using assms(1) by (simp add: ping_request_def)
  from ping_headers [OF assms(1-3)] obtain h where
    h: "get_ip fin 14 = Some h" "ip_HeaderLength h = 5" "ip_Protocol h = PROTOCOL_ICMP"
      "ip_DestinationAddress h = ServerIPAddress" "ip_SourceAddress h = take 4 (drop 26 p)"
    by blast
  from ping_icmp [OF assms] obtain c o1 where
    o1: "ICMP_ProcessICMPPacket \<lparr>FrameData = fin, FrameLength = of_nat (length p)\<rparr> 34 out 34 =
      Some (int (length p - 34), o1)" "length o1 = ETHERNET_FRAME_SIZE_MAX"
      "rdn o1 34 (length p - 34) = Some ([0, 0] @ le16 c @ drop 38 p)"
      "inet_valid ([0, 0] @ le16 c @ drop 38 p) \<longleftrightarrow>
        even (length ([0, 0] @ le16 c @ drop 38 p)) \<or> last ([0, 0] @ le16 c @ drop 38 p) = 0"
    by blast
  have addr: "length ServerIPAddress = 4" "length (take 4 (drop 26 p)) = 4"
    using n by (simp_all add: ServerIPAddress_def)
  have room: "14 + 20 \<le> length o1"
    using o1(2) by (simp add: ETHERNET_FRAME_SIZE_MAX_def)
  from IP_write_header_result [OF addr room, of ?n PROTOCOL_ICMP] obtain k o2 bs where
    o2: "IP_write_header o1 14 ?n PROTOCOL_ICMP ServerIPAddress (take 4 (drop 26 p)) = Some o2"
      "length o2 = length o1" "get_ip o2 14 = Some ((IP_reply_header ?n PROTOCOL_ICMP
        ServerIPAddress (take 4 (drop 26 p)))\<lparr>ip_HeaderChecksum := k\<rparr>)"
      "rdn o2 14 20 = Some bs" "inet_valid bs"
      "rdn o2 34 (length p - 34) = Some ([0, 0] @ le16 c @ drop 38 p)"
    using o1(3) by auto
  have len: "20 + (length p - 34) = length p - 14" "14 + 20 = (34 :: nat)"
    using n by simp_all
  have bytes: "rdn o2 14 (length p - 14) = Some (bs @ [0, 0] @ le16 c @ drop 38 p)"
    using rdn_append [OF o2(4), of "length p - 34"] o2(6) unfolding len by simp
  have ip: "dec_ip bs = (IP_reply_header ?n PROTOCOL_ICMP ServerIPAddress (take 4 (drop 26 p)))\<lparr>ip_HeaderChecksum := k\<rparr>"
    using o2(3,4) by (simp add: get_ip_def sizeof_IP_Header_t_def)
  have answer: "ping_answer p (take 6 (drop 6 p) @ ServerMACAddress @ [0x08, 0x00] @ bs @ [0, 0] @ le16 c @ drop 38 p)"
    using ping_answer_parts [OF n length_rdn [OF o2(4)] refl o2(5) _ _ _ refl o1(4)] unfolding ip
    by (simp add: IP_reply_header_def)
  have "IP_ProcessIPPacket \<lparr>FrameData = fin, FrameLength = of_nat (length p)\<rparr> 14 t out 14 =
      Some (int (length p - 14), fin, t, o2)"
    using o1(1) o2(1) n len(1)
    by (simp add: IP_ProcessIPPacket_def h IP_COMPARE_def sizeof_IP_Header_t_def Let_def del: of_int_of_nat_eq)
  then show ?thesis
    using o2(2) o1(2) bytes answer by (intro exI [of _ o2] exI [of _ bs] exI [of _ "[0, 0] @ le16 c @ drop 38 p"]) simp
qed

lemma ping_frame:
  assumes "ping_request p" "length fin = ETHERNET_FRAME_SIZE_MAX" "take (length p) fin = p"
    and "length (FrameData FO) = ETHERNET_FRAME_SIZE_MAX" "length_accepted (length p)"
  shows "\<exists>out. Ethernet_ProcessPacket \<lparr>FrameData = fin, FrameLength = of_nat (length p)\<rparr> FO t =
      Some (\<lparr>FrameData = fin, FrameLength = 0\<rparr>, \<lparr>FrameData = out, FrameLength = of_nat (length p)\<rparr>, t) \<and>
    length out = ETHERNET_FRAME_SIZE_MAX \<and> ping_answer p (take (length p) out)"
proof -
  have n: "42 \<le> length p" "length p \<le> ETHERNET_FRAME_SIZE_MAX"
    using assms(1) by (simp_all add: ping_request_def)
  from ping_headers [OF assms(1-3)] obtain e where
    e: "get_eth fin 0 = Some e" "eth_Destination e = ServerMACAddress" "eth_Source e = take 6 (drop 6 p)"
      "eth_EtherType e = 0x0008"
    by blast
  from ping_ip [OF assms(1-4)] obtain o2 bs icmp where
    o2: "IP_ProcessIPPacket \<lparr>FrameData = fin, FrameLength = of_nat (length p)\<rparr> 14 t (FrameData FO) 14 =
      Some (int (length p - 14), fin, t, o2)" "length o2 = ETHERNET_FRAME_SIZE_MAX"
    "rdn o2 14 (length p - 14) = Some (bs @ icmp)"
    "ping_answer p (take 6 (drop 6 p) @ ServerMACAddress @ [0x08, 0x00] @ bs @ icmp)"
    by blast
  let ?e = "\<lparr>eth_Destination = take 6 (drop 6 p), eth_Source = ServerMACAddress, eth_EtherType = 0x0008\<rparr>"
  have enc: "enc_eth ?e = take 6 (drop 6 p) @ ServerMACAddress @ [0x08, 0x00]"
    by (simp add: enc_eth_def le16_def byte0_def byte1_def)
  have enc_len: "length (enc_eth ?e) = 14"
    unfolding enc using n by (simp add: ServerMACAddress_def)
  obtain o3 where w: "wrn o2 0 (enc_eth ?e) = Some o3"
    using enc_len o2(2) by (simp add: wrn_def ETHERNET_FRAME_SIZE_MAX_def)
  note o3 = w length_wrn [OF w, unfolded o2(2)]
  have parts: "rdn o3 0 14 = Some (enc_eth ?e)" "rdn o3 (0 + 14) (length p - 14) = Some (bs @ icmp)"
    using o2(3) rdn_wrn [OF o3(1)] rdn_wrn_after [OF o3(1)] enc_len by simp_all
  have "14 + (length p - 14) = length p"
    using n by simp
  then have "take (length p) o3 = take 6 (drop 6 p) @ ServerMACAddress @ [0x08, 0x00] @ bs @ icmp"
    using bytes_at [OF rdn_append [OF parts]] unfolding enc by simp
  moreover have "Ethernet_accepts \<lparr>FrameData = fin, FrameLength = of_nat (length p)\<rparr> e"
    unfolding Ethernet_accepts_def using length_test [OF n(2)] assms(5) e(2) by (simp add: MAC_COMPARE_def)
  moreover have "SwapEndian_16 False 8 = ETHERTYPE_IPV4" "ETHERTYPE_IPV4 \<noteq> ETHERTYPE_ARP"
    by (simp_all add: ETHERTYPE_IPV4_def ETHERTYPE_ARP_def) (code_simp)
  ultimately show ?thesis
    using o2(1,4) o3 n(1) \<open>14 + (length p - 14) = length p\<close>
    by (intro exI [of _ o3])
      (simp add: Ethernet_ProcessPacket_def Ethernet_dispatch_def e put_eth_def sizeof_Ethernet_Frame_Header_t_def
        NO_PROCESS_def del: SwapEndian_16_bytes)
qed

lemma ping_refused:
  assumes "ping_request p" "length fin = ETHERNET_FRAME_SIZE_MAX" "take (length p) fin = p"
    and "\<not> length_accepted (length p)"
  shows "Ethernet_ProcessPacket \<lparr>FrameData = fin, FrameLength = of_nat (length p)\<rparr> FO t =
      Some (\<lparr>FrameData = fin, FrameLength = 0\<rparr>, FO, t)"
proof -
  have n: "length p \<le> ETHERNET_FRAME_SIZE_MAX"
    using assms(1) by (simp add: ping_request_def)
  from ping_headers [OF assms(1-3)] obtain e where "get_eth fin 0 = Some e"
    by blast
  moreover have "\<not> Ethernet_accepts \<lparr>FrameData = fin, FrameLength = of_nat (length p)\<rparr> e"
    unfolding Ethernet_accepts_def using length_test [OF n] assms(4) by simp
  ultimately show ?thesis
    by (simp add: Ethernet_ProcessPacket_def NO_RESPONSE_def NO_PROCESS_def)
qed

lemma ping_iteration:
  assumes "ping_request p" "idle_server (Stack s)" "length (FrameData (FrameIN s)) = ETHERNET_FRAME_SIZE_MAX"
    and "length (FrameData (FrameOUT s)) = ETHERNET_FRAME_SIZE_MAX" "length_accepted (length p)"
  shows "\<exists>s' reply. main_iteration (Some p) s = Some s' \<and> Stack s' = Stack s \<and>
    FrameLength (FrameIN s') = 0 \<and> FrameLength (FrameOUT s') = 0 \<and> Sent s' = Sent s @ [reply] \<and> ping_answer p reply"
proof -
  have n: "length p \<le> ETHERNET_FRAME_SIZE_MAX" "length p \<noteq> 0"
    using assms(1) by (auto simp: ping_request_def)
  obtain fin where fin: "wrn (FrameData (FrameIN s)) 0 p = Some fin" "length fin = ETHERNET_FRAME_SIZE_MAX"
      "take (length p) fin = p"
    using n(1) assms(3) by (simp add: wrn_def)
  have L: "unat (of_nat (length p) :: u16) = length p"
    using n(1) by (intro unat_u16) (simp add: ETHERNET_FRAME_SIZE_MAX_def)
  have L0: "of_nat (length p) \<noteq> (0 :: u16)"
    using L n(2) by (metis unat_0)
  from ping_frame [OF assms(1) fin(2,3) assms(4,5), of "Stack s"] obtain out where
    out: "Ethernet_ProcessPacket \<lparr>FrameData = fin, FrameLength = of_nat (length p)\<rparr> (FrameOUT s) (Stack s) =
      Some (\<lparr>FrameData = fin, FrameLength = 0\<rparr>, \<lparr>FrameData = out, FrameLength = of_nat (length p)\<rparr>, Stack s)"
      "length out = ETHERNET_FRAME_SIZE_MAX" "ping_answer p (take (length p) out)"
    by blast
  have "rdn out 0 (length p) = Some (take (length p) out)"
    using out(2) n(1) by (simp add: rdn_def)
  then show ?thesis
    using fin(1) out(1,3) L L0 idle_task [OF assms(2)] by (simp add: main_iteration_def handle_packet_def Let_def)
qed

lemma net_loop_append: "net_loop (xs @ ys) s = Option.bind (net_loop xs s) (net_loop ys)"
  by (induction xs arbitrary: s) (auto intro: Option.bind_cong)

lemma idle_loop: "idle_server (Stack s) \<Longrightarrow> net_loop (replicate n None) s = Some s"
  by (induction n) (simp_all add: main_iteration_def idle_task)

section \<open>Properties\<close>

text \<open>C32.  A ping through the whole stack: one pass of the main loop over an idle server answers an
  echo request addressed to it with one frame, whose Ethernet, IP and ICMP headers and data are
  those of the reply, and frees both frame buffers, when the length test accepts the frame's
  length; otherwise nothing is sent.  The test compares the length with its bytes exchanged, so
  that for example a frame of 256 bytes is dropped.\<close>

theorem ping_through_stack:
  assumes "ping_request p" "idle_server (Stack s)" "length (FrameData (FrameIN s)) = ETHERNET_FRAME_SIZE_MAX"
    and "length (FrameData (FrameOUT s)) = ETHERNET_FRAME_SIZE_MAX" "FrameLength (FrameOUT s) = 0"
  shows "\<exists>s'. main_iteration (Some p) s = Some s' \<and> Stack s' = Stack s \<and>
    FrameLength (FrameIN s') = 0 \<and> FrameLength (FrameOUT s') = 0 \<and>
    (if length_accepted (length p) then \<exists>reply. Sent s' = Sent s @ [reply] \<and> ping_answer p reply
     else Sent s' = Sent s)"
proof (cases "length_accepted (length p)")
  case True
  then show ?thesis
    using ping_iteration [OF assms(1-4) True] by auto
next
  case False
  have n: "length p \<le> ETHERNET_FRAME_SIZE_MAX"
    using assms(1) by (simp add: ping_request_def)
  obtain fin where "wrn (FrameData (FrameIN s)) 0 p = Some fin" and fin: "length fin = ETHERNET_FRAME_SIZE_MAX"
      "take (length p) fin = p"
    using n assms(3) by (simp add: wrn_def)
  then show ?thesis
    using ping_refused [OF assms(1) fin False, of "FrameOUT s" "Stack s"] False assms(5) idle_task [OF assms(2)]
    by (simp add: main_iteration_def handle_packet_def Let_def)
qed

definition ping_packet :: "nat \<Rightarrow> bytes" where
  "ping_packet n = [0, 1, 0, 1, 0, 1, 2, 0, 2, 0, 2, 0, 0x08, 0x00,
     0x45, 0, 0, 84, 0, 0, 0, 0, 64, 1, 0, 0, 10, 0, 0, 1, 10, 0, 0, 2, 8, 0, 0, 0, 1, 2, 3, 4] @ replicate n 7"

definition idle_net :: net where
  "idle_net = \<lparr>FrameIN = \<lparr>FrameData = replicate 1500 0, FrameLength = 0\<rparr>,
     FrameOUT = \<lparr>FrameData = replicate 1500 0, FrameLength = 0\<rparr>,
     Stack = server_state free_conn [free_conn, free_conn] 0, Sent = []\<rparr>"

lemma idle_net_ok:
  "idle_server (Stack idle_net)" "length (FrameData (FrameIN idle_net)) = ETHERNET_FRAME_SIZE_MAX"
  "length (FrameData (FrameOUT idle_net)) = ETHERNET_FRAME_SIZE_MAX" "FrameLength (FrameOUT idle_net) = 0"
  by (simp_all add: idle_net_def idle_server_def server_state_def free_conn_def idle_info_def quiet_def tcp_app
      ready_out_def MAX_TCP_CONNECTIONS_def ETHERNET_FRAME_SIZE_MAX_def)

lemma ping_packet_ok: "n \<le> 1458 \<Longrightarrow> ping_request (ping_packet n)"
  by (simp add: ping_packet_def ping_request_def net_consts ETHERNET_FRAME_SIZE_MAX_def ICMP_TYPE_ECHOREQUEST_def)

theorem ping_through_stack_witness:
  "(\<exists>s' reply. main_iteration (Some (ping_packet 56)) idle_net = Some s' \<and> Sent s' = [reply] \<and>
     ping_answer (ping_packet 56) reply) \<and>
   (\<exists>s'. main_iteration (Some (ping_packet 214)) idle_net = Some s' \<and> Sent s' = [])"
proof -
  have a: "length_accepted (length (ping_packet 56))" "\<not> length_accepted (length (ping_packet 214))"
    by (simp_all add: ping_packet_def length_accepted_def)
  have "Sent idle_net = []"
    by (simp add: idle_net_def)
  then show ?thesis
    using ping_through_stack [OF ping_packet_ok idle_net_ok, of 56]
      ping_through_stack [OF ping_packet_ok idle_net_ok, of 214] a
    by auto
qed

text \<open>C33.  A frame the TCP task has built waits for the next packet from the host: as long as none
  arrives, an idle server's main loop sends nothing and keeps the frame; and when the next packet is
  a ping, the answer takes the place of the waiting frame, which is never sent.\<close>

theorem pending_frame_waits:
  assumes "idle_server (Stack s)" "length (FrameData (FrameOUT s)) = ETHERNET_FRAME_SIZE_MAX"
    and "length (FrameData (FrameIN s)) = ETHERNET_FRAME_SIZE_MAX"
    and "ping_request p" "length_accepted (length p)"
  shows "net_loop (replicate n None) s = Some s \<and>
    (\<exists>s' reply. net_loop (replicate n None @ [Some p]) s = Some s' \<and>
      Sent s' = Sent s @ [reply] \<and> ping_answer p reply \<and> FrameLength (FrameOUT s') = 0)"
proof -
  from ping_iteration [OF assms(4,1,3,2,5)] obtain s' reply where
    "main_iteration (Some p) s = Some s'" "FrameLength (FrameOUT s') = 0" "Sent s' = Sent s @ [reply]"
    "ping_answer p reply"
    by blast
  then show ?thesis
    by (simp add: net_loop_append idle_loop [OF assms(1)])
qed

theorem pending_frame_waits_witness:
  "let s = idle_net\<lparr>FrameOUT := \<lparr>FrameData = replicate 1500 9, FrameLength = 60\<rparr>\<rparr> in
   net_loop (replicate 1000 None) s = Some s \<and>
   (\<exists>s' reply. net_loop (replicate 1000 None @ [Some (ping_packet 56)]) s = Some s' \<and>
      Sent s' = [reply] \<and> ping_answer (ping_packet 56) reply)"
proof -
  let ?s = "idle_net\<lparr>FrameOUT := \<lparr>FrameData = replicate 1500 9, FrameLength = 60\<rparr>\<rparr>"
  have s: "idle_server (Stack ?s)" "length (FrameData (FrameOUT ?s)) = ETHERNET_FRAME_SIZE_MAX"
    "length (FrameData (FrameIN ?s)) = ETHERNET_FRAME_SIZE_MAX" "ping_request (ping_packet 56)"
    "length_accepted (length (ping_packet 56))" "Sent ?s = []"
    using idle_net_ok ping_packet_ok [of 56]
    by (simp_all add: ETHERNET_FRAME_SIZE_MAX_def ping_packet_def length_accepted_def idle_net_def)
  from pending_frame_waits [OF s(1-5), of 1000] s(6) show ?thesis
    unfolding Let_def by auto
qed

end
