(* ===== verification/Boot_Hardware.thy ===== *)
theory Boot_Hardware
  imports Prelude
begin

text \<open>
  What the bootloaders use of the AVR (the AT90USB1287 of their makefiles) and of avr-libc: the
  self-programming operations of \<^verbatim>\<open>avr/boot.h\<close>, the flash and EEPROM reads, and the banks of the USB
  endpoints.  Flash and EEPROM are functions from byte addresses.  Operations whose effect the
  data sheet does not define give \<open>None\<close>: writing a page that is not erased, filling a word of the
  page buffer twice, and reading the application section while it is disabled.  Pages of the boot
  section are programmed like any other; that the running code is there is not modelled, so the
  properties about programming are stated for the application section below it.
\<close>

unbundle bit_operations_syntax

section \<open>Memories\<close>

record mcu =
  Flash :: "nat \<Rightarrow> u8"
  PageBuffer :: "nat \<Rightarrow> u16 option"
  RwwEnabled :: bool
  Eeprom :: "nat \<Rightarrow> u8"
  LockBits :: u8

definition SPM_PAGESIZE :: nat where
  "SPM_PAGESIZE = 256"

definition FLASHEND :: nat where
  "FLASHEND = 0x1FFFF"

definition BOOT_START_ADDR :: nat where
  "BOOT_START_ADDR = 0x1E000"

definition E2END :: nat where
  "E2END = 0x0FFF"

text \<open>The address registers have as many bits as the memory needs.\<close>

definition flash_index :: "u32 \<Rightarrow> nat" where
  "flash_index a = unat a mod (FLASHEND + 1)"

definition eeprom_index :: "u16 \<Rightarrow> nat" where
  "eeprom_index a = unat a mod (E2END + 1)"

abbreviation same_page :: "nat \<Rightarrow> nat \<Rightarrow> bool" where
  "same_page i j \<equiv> i div SPM_PAGESIZE = j div SPM_PAGESIZE"

text \<open>Erasing or writing a page of the application section disables reading it.\<close>

definition rww_after :: "u32 \<Rightarrow> mcu \<Rightarrow> bool" where
  "rww_after a m = (RwwEnabled m \<and> BOOT_START_ADDR \<le> flash_index a)"

definition boot_page_erase :: "u32 \<Rightarrow> mcu \<Rightarrow> mcu" where
  "boot_page_erase a m = m\<lparr>
     Flash := (\<lambda>i. if same_page i (flash_index a) then 0xFF else Flash m i),
     RwwEnabled := rww_after a m\<rparr>"

definition boot_page_fill :: "u32 \<Rightarrow> u16 \<Rightarrow> mcu \<Rightarrow> mcu option" where
  "boot_page_fill a w m =
     (let i = flash_index a mod SPM_PAGESIZE div 2 in
      if PageBuffer m i = None then Some (m\<lparr>PageBuffer := (PageBuffer m)(i \<mapsto> w)\<rparr>) else None)"

definition buffer_byte :: "(nat \<Rightarrow> u16 option) \<Rightarrow> nat \<Rightarrow> u8" where
  "buffer_byte b i = (case b (i div 2) of None \<Rightarrow> 0xFF | Some w \<Rightarrow> if even i then byte0 w else byte1 w)"

definition page_erased :: "u32 \<Rightarrow> mcu \<Rightarrow> bool" where
  "page_erased a m = list_all (\<lambda>i. Flash m (flash_index a div SPM_PAGESIZE * SPM_PAGESIZE + i) = 0xFF)
     [0..<SPM_PAGESIZE]"

definition boot_page_write :: "u32 \<Rightarrow> mcu \<Rightarrow> mcu option" where
  "boot_page_write a m =
     (if page_erased a m
      then Some (m\<lparr>
        Flash := (\<lambda>i. if same_page i (flash_index a) then buffer_byte (PageBuffer m) (i mod SPM_PAGESIZE)
                      else Flash m i),
        PageBuffer := Map.empty, RwwEnabled := rww_after a m\<rparr>)
      else None)"

definition boot_rww_enable :: "mcu \<Rightarrow> mcu" where
  "boot_rww_enable m = m\<lparr>RwwEnabled := True, PageBuffer := Map.empty\<rparr>"

definition pgm_read_byte_far :: "u32 \<Rightarrow> mcu \<Rightarrow> u8 option" where
  "pgm_read_byte_far a m =
     (if RwwEnabled m \<or> BOOT_START_ADDR \<le> flash_index a then Some (Flash m (flash_index a)) else None)"

definition pgm_read_word_far :: "u32 \<Rightarrow> mcu \<Rightarrow> u16 option" where
  "pgm_read_word_far a m = do {
     lo \<leftarrow> pgm_read_byte_far a m;
     hi \<leftarrow> pgm_read_byte_far (a + 1) m;
     Some (word16_of lo hi)
   }"

definition eeprom_read_byte :: "u16 \<Rightarrow> mcu \<Rightarrow> u8" where
  "eeprom_read_byte a m = Eeprom m (eeprom_index a)"

text \<open>Writing the EEPROM discards a page buffer that has been filled in part.\<close>

definition eeprom_write_byte :: "u16 \<Rightarrow> u8 \<Rightarrow> mcu \<Rightarrow> mcu" where
  "eeprom_write_byte a b m = m\<lparr>Eeprom := (Eeprom m)(eeprom_index a := b), PageBuffer := Map.empty\<rparr>"

text \<open>A set bit of the argument is programmed, that is cleared in the lock byte.\<close>

definition boot_lock_bits_set :: "u8 \<Rightarrow> mcu \<Rightarrow> mcu" where
  "boot_lock_bits_set bits m = m\<lparr>LockBits := LockBits m AND NOT bits\<rparr>"

section \<open>Shared parts of the bootloaders\<close>

definition MAGIC_BOOT_KEY :: u16 where
  "MAGIC_BOOT_KEY = 0xDC42"

definition AVR_SIGNATURE_1 :: u8 where
  "AVR_SIGNATURE_1 = 0x1E"

definition AVR_SIGNATURE_2 :: u8 where
  "AVR_SIGNATURE_2 = 0x97"

definition AVR_SIGNATURE_3 :: u8 where
  "AVR_SIGNATURE_3 = 0x82"

text \<open>
  The start-up check, the same in the CDC and the DFU bootloader: after a watchdog reset with the key set, the flag and the key are
  cleared and the application is started (\<open>True\<close>).
\<close>

definition Application_Jump_Check :: "bool \<Rightarrow> u16 \<Rightarrow> bool \<times> bool \<times> u16" where
  "Application_Jump_Check WDRF key =
     (if WDRF \<and> key = MAGIC_BOOT_KEY then (True, False, 0) else (False, WDRF, key))"

text \<open>The chip erase of the CDC and the DFU bootloader: each page of the application section is erased and an empty buffer written.\<close>

fun erase_pages :: "nat list \<Rightarrow> mcu \<Rightarrow> mcu option" where
  "erase_pages [] m = Some m"
| "erase_pages (a # as) m = do {
     m \<leftarrow> boot_page_write (of_nat a) (boot_page_erase (of_nat a) m);
     erase_pages as m
   }"

definition application_pages :: "nat list" where
  "application_pages = map (\<lambda>k. k * SPM_PAGESIZE) [0..<BOOT_START_ADDR div SPM_PAGESIZE]"

section \<open>Endpoint banks\<close>

text \<open>
  The bank of the OUT endpoint holds the rest of the packet that has been received, if any; the
  packets the host sends next follow.  When firmware waits for a packet and none follows, the
  device has been unplugged.  The bytes of the IN bank become a packet when the bank is cleared.
\<close>

record usb =
  Bank :: "bytes option"
  Incoming :: "bytes list"
  InBank :: bytes
  InPackets :: "bytes list"
  Unattached :: bool

definition Endpoint_IsOUTReceived :: "usb \<Rightarrow> bool" where
  "Endpoint_IsOUTReceived u = (Bank u \<noteq> None)"

definition Endpoint_BytesInEndpoint :: "usb \<Rightarrow> nat" where
  "Endpoint_BytesInEndpoint u = (case Bank u of None \<Rightarrow> 0 | Some p \<Rightarrow> length p)"

definition Endpoint_ClearOUT :: "usb \<Rightarrow> usb" where
  "Endpoint_ClearOUT u = u\<lparr>Bank := None\<rparr>"

definition Endpoint_ClearIN :: "usb \<Rightarrow> usb" where
  "Endpoint_ClearIN u = u\<lparr>InPackets := InPackets u @ [InBank u], InBank := []\<rparr>"

definition wait_OUT :: "usb \<Rightarrow> usb" where
  "wait_OUT u =
     (case Bank u of
        Some p \<Rightarrow> u
      | None \<Rightarrow> (case Incoming u of
                  [] \<Rightarrow> u\<lparr>Unattached := True\<rparr>
                | p # ps \<Rightarrow> u\<lparr>Bank := Some p, Incoming := ps\<rparr>))"

definition Endpoint_Read_8 :: "usb \<Rightarrow> (u8 \<times> usb) option" where
  "Endpoint_Read_8 u =
     (case Bank u of Some (b # bs) \<Rightarrow> Some (b, u\<lparr>Bank := Some bs\<rparr>) | _ \<Rightarrow> None)"

definition Endpoint_Read_16_LE :: "usb \<Rightarrow> (u16 \<times> usb) option" where
  "Endpoint_Read_16_LE u = do {
     (lo, u) \<leftarrow> Endpoint_Read_8 u;
     (hi, u) \<leftarrow> Endpoint_Read_8 u;
     Some (word16_of lo hi, u)
   }"

definition Endpoint_Write_8 :: "u8 \<Rightarrow> usb \<Rightarrow> usb" where
  "Endpoint_Write_8 b u = u\<lparr>InBank := InBank u @ [b]\<rparr>"

definition Endpoint_Write_16_LE :: "u16 \<Rightarrow> usb \<Rightarrow> usb" where
  "Endpoint_Write_16_LE w u = u\<lparr>InBank := InBank u @ [byte0 w, byte1 w]\<rparr>"

text \<open>The bytes that are still to be read, and the bytes written so far.\<close>

definition pending :: "usb \<Rightarrow> bytes" where
  "pending u = (case Bank u of None \<Rightarrow> [] | Some p \<Rightarrow> p) @ concat (Incoming u)"

definition written :: "usb \<Rightarrow> bytes" where
  "written u = concat (InPackets u) @ InBank u"

section \<open>Programming a page\<close>

fun words_of :: "bytes \<Rightarrow> u16 list" where
  "words_of (a # b # bs) = word16_of a b # words_of bs"
| "words_of _ = []"

definition buf_of :: "u16 list \<Rightarrow> nat \<Rightarrow> u16 option" where
  "buf_of ws = (\<lambda>i. if i < length ws then Some (ws ! i) else None)"

text \<open>A page with the given bytes at its start.\<close>

definition with_page :: "nat \<Rightarrow> bytes \<Rightarrow> (nat \<Rightarrow> u8) \<Rightarrow> nat \<Rightarrow> u8" where
  "with_page a bs f = (\<lambda>i. if same_page i a
     then if i mod SPM_PAGESIZE < length bs then bs ! (i mod SPM_PAGESIZE) else 0xFF else f i)"

lemma length_words_of: "length (words_of bs) = length bs div 2"
  by (induction bs rule: words_of.induct) auto

lemma nth_words_of: "i < length bs div 2 \<Longrightarrow> words_of bs ! i = word16_of (bs ! (2 * i)) (bs ! (2 * i + 1))"
proof (induction bs arbitrary: i rule: words_of.induct [case_names Pair Nil Single])
  case (Pair a b bs)
  then show ?case
    by (cases i) auto
qed auto

lemma words_of_append: "even (length p) \<Longrightarrow> words_of (p @ a # b # r) = words_of p @ word16_of a b # words_of r"
  by (induction p rule: words_of.induct) auto

lemma buf_of_Nil [simp]: "buf_of [] = Map.empty"
  by (auto simp: buf_of_def)

lemma buf_of_snoc: "(buf_of ws)(length ws \<mapsto> w) = buf_of (ws @ [w])"
  by (auto simp: buf_of_def nth_append)

lemma buffer_byte_buf_of:
  assumes "even (length bs)"
  shows "buffer_byte (buf_of (words_of bs)) i = (if i < length bs then bs ! i else 0xFF)"
proof (cases "i < length bs")
  case True
  then have "i div 2 < length bs div 2"
    using assms by (auto elim!: evenE)
  then show ?thesis
    using True by (simp add: buffer_byte_def buf_of_def length_words_of nth_words_of)
next
  case False
  then have "length bs div 2 \<le> i div 2"
    by (intro div_le_mono) simp
  then show ?thesis
    using False by (simp add: buffer_byte_def buf_of_def length_words_of)
qed

lemma page_erased_erase: "PageBuffer m' = b \<Longrightarrow> m' = (boot_page_erase a m)\<lparr>PageBuffer := b\<rparr> \<Longrightarrow> page_erased a m'"
  by (simp add: page_erased_def boot_page_erase_def list_all_iff SPM_PAGESIZE_def)

lemma rww_after_simps [simp]:
  "rww_after a (m\<lparr>Flash := f\<rparr>) = rww_after a m" "rww_after a (m\<lparr>PageBuffer := b\<rparr>) = rww_after a m"
  "rww_after a (m\<lparr>RwwEnabled := rww_after a m\<rparr>) = rww_after a m"
  by (auto simp: rww_after_def)

text \<open>Erasing a page, filling the buffer from its start and writing it.\<close>

lemma program_page:
  assumes "even (length bs)"
  shows "boot_page_write a ((boot_page_erase a m)\<lparr>PageBuffer := buf_of (words_of bs)\<rparr>) =
    Some (m\<lparr>Flash := with_page (flash_index a) bs (Flash m), PageBuffer := Map.empty,
      RwwEnabled := rww_after a m\<rparr>)"
proof -
  have "page_erased a ((boot_page_erase a m)\<lparr>PageBuffer := buf_of (words_of bs)\<rparr>)"
    by (rule page_erased_erase) simp_all
  then show ?thesis
    by (simp add: boot_page_write_def buffer_byte_buf_of [OF assms] boot_page_erase_def with_page_def rww_after_def
        cong: if_cong)
qed

lemma with_page_read:
  assumes "a mod SPM_PAGESIZE = 0" "length bs \<le> SPM_PAGESIZE"
  shows "map (with_page a bs f) [a..<a + length bs] = bs"
proof (rule nth_equalityI)
  fix i
  assume "i < length (map (with_page a bs f) [a..<a + length bs])"
  then have i: "i < length bs" "i < SPM_PAGESIZE"
    using assms(2) by simp_all
  then have "(a + i) mod SPM_PAGESIZE = i" "same_page (a + i) a"
    using assms(1) by (auto simp: mod_add_eq [symmetric] div_add1_eq)
  with i show "map (with_page a bs f) [a..<a + length bs] ! i = bs ! i"
    by (simp add: with_page_def)
qed simp

lemma fill_next:
  assumes "flash_index a mod SPM_PAGESIZE = 2 * length ws" "PageBuffer m = buf_of ws"
  shows "boot_page_fill a w m = Some (m\<lparr>PageBuffer := buf_of (ws @ [w])\<rparr>)"
proof -
  have "buf_of ws (length ws) = None"
    by (simp add: buf_of_def)
  then show ?thesis
    using assms by (simp add: boot_page_fill_def Let_def buf_of_snoc)
qed

section \<open>Programming several pages\<close>

text \<open>Bytes from the start of a page on; the rest of the last page is blank.\<close>

definition programmed :: "nat \<Rightarrow> bytes \<Rightarrow> (nat \<Rightarrow> u8) \<Rightarrow> nat \<Rightarrow> u8" where
  "programmed a bs f = (\<lambda>i.
     if a \<le> i \<and> i < a + length bs then bs ! (i - a)
     else if a \<le> i \<and> i div SPM_PAGESIZE \<le> (a + length bs - 1) div SPM_PAGESIZE then 0xFF else f i)"

lemma page_range: "a mod SPM_PAGESIZE = 0 \<Longrightarrow> same_page i a \<longleftrightarrow> a \<le> i \<and> i < a + SPM_PAGESIZE"
  by (auto simp: SPM_PAGESIZE_def)

lemma page_offset:
  assumes "a mod SPM_PAGESIZE = 0" "a \<le> i" "i < a + SPM_PAGESIZE"
  shows "i mod SPM_PAGESIZE = i - a"
proof -
  obtain k where "i = a + k"
    using assms(2) le_Suc_ex by blast
  then show ?thesis
    using assms(1,3) mod_add_left_eq [of a SPM_PAGESIZE k] by simp
qed

lemma programmed_page:
  assumes "a mod SPM_PAGESIZE = 0" "bs \<noteq> []" "length bs \<le> SPM_PAGESIZE"
  shows "with_page a bs f = programmed a bs f"
proof
  fix i
  have "0 < length bs"
    using assms(2) by simp
  then have "a \<le> a + length bs - 1 \<and> a + length bs - 1 < a + SPM_PAGESIZE"
    using assms(3) by linarith
  then have "same_page (a + length bs - 1) a"
    using page_range [OF assms(1)] by blast
  then have later: "i div SPM_PAGESIZE \<le> (a + length bs - 1) div SPM_PAGESIZE \<longleftrightarrow> i < a + SPM_PAGESIZE"
    using assms(1) by (auto simp: SPM_PAGESIZE_def)
  from page_offset [OF assms(1)] show "with_page a bs f i = programmed a bs f i"
    using assms(3) later by (auto simp: with_page_def programmed_def page_range [OF assms(1)])
qed

lemma programmed_next:
  assumes "a mod SPM_PAGESIZE = 0" "bs \<noteq> []" "length p = SPM_PAGESIZE"
  shows "programmed (a + SPM_PAGESIZE) bs (with_page a p f) = programmed a (p @ bs) f"
proof
  fix i
  have "a div SPM_PAGESIZE \<le> (a + SPM_PAGESIZE + length bs - 1) div SPM_PAGESIZE"
    by (intro div_le_mono) (simp add: SPM_PAGESIZE_def)
  moreover note page_offset [OF assms(1), of i]
  moreover have "\<not> a \<le> i" if "i div SPM_PAGESIZE < a div SPM_PAGESIZE"
    using that div_le_mono [of a i SPM_PAGESIZE] by auto
  ultimately show "programmed (a + SPM_PAGESIZE) bs (with_page a p f) i = programmed a (p @ bs) f i"
    using assms(3) by (auto simp: with_page_def programmed_def page_range [OF assms(1)] nth_append add.assoc)
qed

section \<open>Addresses\<close>

lemma mod_add_small: "i mod p + n < p \<Longrightarrow> (i + n) mod p = i mod p + n" for i n p :: nat
  by (metis mod_add_left_eq mod_less)

lemma flash_index_of_nat: "n \<le> FLASHEND \<Longrightarrow> flash_index (of_nat n) = n"
  by (simp add: flash_index_def unat_of_nat FLASHEND_def)

lemma flash_index_add:
  assumes "flash_index a + n \<le> FLASHEND"
  shows "flash_index (a + of_nat n) = flash_index a + n"
proof -
  have "unat a mod 131072 + n < 131072"
    using assms by (simp add: FLASHEND_def flash_index_def)
  then have "(unat a + n) mod 131072 = unat a mod 131072 + n"
    by (metis mod_add_left_eq mod_less)
  moreover have "unat (a + of_nat n) mod 131072 = (unat a + n) mod 131072"
    by (simp add: unat_word_ariths unat_of_nat mod_mod_cancel mod_add_right_eq)
  ultimately show ?thesis
    by (simp add: flash_index_def FLASHEND_def)
qed

section \<open>The chip erase\<close>

lemma erase_pages_ok:
  assumes "PageBuffer m = Map.empty" "\<And>k. k \<in> set ks \<Longrightarrow> k * SPM_PAGESIZE \<le> FLASHEND"
  shows "\<exists>r. erase_pages (map (\<lambda>k. k * SPM_PAGESIZE) ks) m = Some (m\<lparr>
      Flash := (\<lambda>i. if i div SPM_PAGESIZE \<in> set ks then 0xFF else Flash m i), RwwEnabled := r\<rparr>)"
  using assms
proof (induction ks arbitrary: m)
  case Nil
  then show ?case
    by (intro exI [of _ "RwwEnabled m"]) simp
next
  case (Cons k ks)
  define a :: u32 where "a = of_nat (k * SPM_PAGESIZE)"
  have "k * SPM_PAGESIZE \<le> FLASHEND"
    using Cons.prems(2) by simp
  then have idx: "flash_index a = k * SPM_PAGESIZE"
    unfolding a_def by (rule flash_index_of_nat)
  let ?m = "m\<lparr>Flash := with_page (k * SPM_PAGESIZE) [] (Flash m), PageBuffer := Map.empty, RwwEnabled := rww_after a m\<rparr>"
  have "(boot_page_erase a m)\<lparr>PageBuffer := buf_of (words_of [])\<rparr> = boot_page_erase a m"
    using Cons.prems(1) by (simp add: boot_page_erase_def)
  then have "boot_page_write a (boot_page_erase a m) = Some ?m"
    using program_page [of "[]" a m] by (simp add: idx)
  moreover from Cons.IH [of ?m] Cons.prems obtain r where
    "erase_pages (map (\<lambda>k. k * SPM_PAGESIZE) ks) ?m = Some (?m\<lparr>
      Flash := (\<lambda>i. if i div SPM_PAGESIZE \<in> set ks then 0xFF else Flash ?m i), RwwEnabled := r\<rparr>)"
    by auto
  moreover have "(\<lambda>i. if i div SPM_PAGESIZE \<in> set ks then 0xFF else Flash ?m i) =
      (\<lambda>i. if i div SPM_PAGESIZE \<in> set (k # ks) then 0xFF else Flash m i)"
    by (auto simp: with_page_def SPM_PAGESIZE_def)
  ultimately show ?case
    using Cons.prems(1) by (intro exI [of _ r]) (simp add: a_def [symmetric] del: of_nat_mult)
qed

lemma application_pages_div: "i div SPM_PAGESIZE \<in> set [0..<BOOT_START_ADDR div SPM_PAGESIZE] \<longleftrightarrow> i < BOOT_START_ADDR"
  by (auto simp: SPM_PAGESIZE_def BOOT_START_ADDR_def div_less_iff_less_mult)

lemma erase_application:
  assumes "PageBuffer m = Map.empty"
  shows "\<exists>r. erase_pages application_pages m = Some (m\<lparr>
      Flash := (\<lambda>i. if i < BOOT_START_ADDR then 0xFF else Flash m i), RwwEnabled := r\<rparr>)"
  using erase_pages_ok [OF assms, of "[0..<BOOT_START_ADDR div SPM_PAGESIZE]"]
  unfolding application_pages_def application_pages_div
  by (simp add: SPM_PAGESIZE_def BOOT_START_ADDR_def FLASHEND_def)

end
