(* ===== verification/Boot_CDC.thy ===== *)
theory Boot_CDC
  imports Boot_Hardware
begin

text \<open>
  \<^verbatim>\<open>BootloaderCDC.c\<close>: the AVR109 bootloader on a virtual serial port.  The commands come in packets on
  the OUT endpoint and the responses leave in packets on the IN endpoint.  When the device is
  unplugged in the middle of a command the remaining bytes read as zero, as in the source.
\<close>

unbundle bit_operations_syntax

section \<open>State\<close>

record CDC_LineEncoding_t =
  BaudRateBPS :: u32
  CharFormat :: u8
  ParityType :: u8
  DataBits :: u8

record cdc =
  LineEncoding :: CDC_LineEncoding_t
  CurrAddress :: u32
  RunBootloader :: bool
  MagicBootKey :: u16
  Fuses :: bytes
  Mcu :: mcu
  Usb :: usb

definition CDC_TXRX_EPSIZE :: nat where
  "CDC_TXRX_EPSIZE = 16"

definition BOOTLOADER_VERSION_MAJOR :: u8 where
  "BOOTLOADER_VERSION_MAJOR = 0x01"

definition BOOTLOADER_VERSION_MINOR :: u8 where
  "BOOTLOADER_VERSION_MINOR = 0x00"

definition SOFTWARE_IDENTIFIER :: string where
  "SOFTWARE_IDENTIFIER = ''LUFACDC''"

abbreviation chr :: "char \<Rightarrow> u8" where
  "chr c \<equiv> of_char c"

text \<open>The state of the variables when the bootloader starts.\<close>

definition cdc_init :: "mcu \<Rightarrow> bytes \<Rightarrow> u16 \<Rightarrow> usb \<Rightarrow> cdc" where
  "cdc_init m fuses key u = \<lparr>
     LineEncoding = \<lparr>BaudRateBPS = 0, CharFormat = 0, ParityType = 0, DataBits = 8\<rparr>,
     CurrAddress = 0, RunBootloader = True, MagicBootKey = key, Fuses = fuses, Mcu = m, Usb = u\<rparr>"

section \<open>Bytes from and to the host\<close>

function FetchNextCommandByte :: "usb \<Rightarrow> u8 \<times> usb" where
  "FetchNextCommandByte u =
     (case Bank u of
        Some (b # bs) \<Rightarrow> (b, u\<lparr>Bank := Some bs\<rparr>)
      | _ \<Rightarrow>
        (case Incoming u of
           [] \<Rightarrow> (0, u\<lparr>Bank := None, Unattached := True\<rparr>)
         | p # ps \<Rightarrow> FetchNextCommandByte (u\<lparr>Bank := Some p, Incoming := ps\<rparr>)))"
  by auto

termination FetchNextCommandByte
  by (relation "measure (\<lambda>u. length (Incoming u))") auto

declare FetchNextCommandByte.simps [simp del]

definition WriteNextResponseByte :: "u8 \<Rightarrow> usb \<Rightarrow> usb" where
  "WriteNextResponseByte Response u =
     (if length (InBank u) = CDC_TXRX_EPSIZE
      then let u = Endpoint_ClearIN u in if Unattached u then u else Endpoint_Write_8 Response u
      else Endpoint_Write_8 Response u)"

definition fetch :: "cdc \<Rightarrow> u8 \<times> cdc" where
  "fetch s = (let (b, u) = FetchNextCommandByte (Usb s) in (b, s\<lparr>Usb := u\<rparr>))"

definition respond :: "u8 \<Rightarrow> cdc \<Rightarrow> cdc" where
  "respond b s = s\<lparr>Usb := WriteNextResponseByte b (Usb s)\<rparr>"

section \<open>Memory blocks\<close>

text \<open>The loops of \<^verbatim>\<open>ReadWriteMemoryBlock\<close>; the number is the rest of the block size.\<close>

fun read_flash_block :: "nat \<Rightarrow> bool \<Rightarrow> cdc \<Rightarrow> cdc option" where
  "read_flash_block 0 HighByte s = Some s"
| "read_flash_block (Suc n) HighByte s = do {
     b \<leftarrow> pgm_read_byte_far (CurrAddress s OR (if HighByte then 1 else 0)) (Mcu s);
     let s = respond b s;
     let s = (if HighByte then s\<lparr>CurrAddress := CurrAddress s + 2\<rparr> else s);
     read_flash_block n (\<not> HighByte) s
   }"

fun read_eeprom_block :: "nat \<Rightarrow> cdc \<Rightarrow> cdc" where
  "read_eeprom_block 0 s = s"
| "read_eeprom_block (Suc n) s =
     (let s = respond (eeprom_read_byte (ucast (drop_bit 1 (CurrAddress s))) (Mcu s)) s
      in read_eeprom_block n (s\<lparr>CurrAddress := CurrAddress s + 2\<rparr>))"

fun write_flash_block :: "nat \<Rightarrow> bool \<Rightarrow> u8 \<Rightarrow> cdc \<Rightarrow> cdc option" where
  "write_flash_block 0 HighByte LowByte s = Some s"
| "write_flash_block (Suc n) HighByte LowByte s =
     (let (b, s) = fetch s in
      if HighByte
      then do {
        m \<leftarrow> boot_page_fill (CurrAddress s) (push_bit 8 (ucast b) OR ucast LowByte) (Mcu s);
        write_flash_block n False LowByte (s\<lparr>Mcu := m, CurrAddress := CurrAddress s + 2\<rparr>)
      }
      else write_flash_block n True b s)"

fun write_eeprom_block :: "nat \<Rightarrow> cdc \<Rightarrow> cdc" where
  "write_eeprom_block 0 s = s"
| "write_eeprom_block (Suc n) s =
     (let (b, s) = fetch s;
          s = s\<lparr>Mcu := eeprom_write_byte (ucast (drop_bit 1 (CurrAddress s))) b (Mcu s)\<rparr>
      in write_eeprom_block n (s\<lparr>CurrAddress := CurrAddress s + 2\<rparr>))"

definition ReadWriteMemoryBlock :: "u8 \<Rightarrow> cdc \<Rightarrow> cdc option" where
  "ReadWriteMemoryBlock Command s =
     (let (hi, s) = fetch s;
          (lo, s) = fetch s;
          BlockSize = (push_bit 8 (ucast hi) OR ucast lo :: u16);
          (MemoryType, s) = fetch s in
      if MemoryType \<noteq> chr (CHR ''E'') \<and> MemoryType \<noteq> chr (CHR ''F'') then Some (respond (chr (CHR ''?'')) s)
      else if Command = chr (CHR ''g'')
      then let s = s\<lparr>Mcu := boot_rww_enable (Mcu s)\<rparr> in
        if MemoryType = chr (CHR ''F'') then read_flash_block (unat BlockSize) False s
        else Some (read_eeprom_block (unat BlockSize) s)
      else let PageStartAddress = CurrAddress s in
        if MemoryType = chr (CHR ''F'')
        then do {
          s \<leftarrow> write_flash_block (unat BlockSize) False 0 (s\<lparr>Mcu := boot_page_erase PageStartAddress (Mcu s)\<rparr>);
          m \<leftarrow> boot_page_write PageStartAddress (Mcu s);
          Some (respond 0x0D (s\<lparr>Mcu := m\<rparr>))
        }
        else Some (respond 0x0D (write_eeprom_block (unat BlockSize) s)))"

section \<open>The task\<close>

definition respond_all :: "bytes \<Rightarrow> cdc \<Rightarrow> cdc" where
  "respond_all bs s = fold respond bs s"

text \<open>
  A shifted byte of the address has the 16-bit type \<^verbatim>\<open>int\<close>, and is sign extended when it is
  assigned to the 32-bit address.
\<close>

definition address_of :: "u8 \<Rightarrow> u8 \<Rightarrow> u32" where
  "address_of hi lo = scast (push_bit 9 (ucast hi) :: u16) OR scast (push_bit 1 (ucast lo) :: u16)"

definition set_address :: "cdc \<Rightarrow> cdc" where
  "set_address s =
     (let (hi, s) = fetch s;
          (lo, s) = fetch s
      in s\<lparr>CurrAddress := address_of hi lo\<rparr>)"

text \<open>The commands for single bytes and words, and the answer to an unknown command.\<close>

definition CDC_byte_command :: "u8 \<Rightarrow> cdc \<Rightarrow> cdc option" where
  "CDC_byte_command Command s =
     (if Command = chr (CHR ''C'') then do {
             let (b, s) = fetch s;
             m \<leftarrow> boot_page_fill (CurrAddress s) (ucast b) (Mcu s);
             Some (respond 0x0D (s\<lparr>Mcu := m\<rparr>))
           }
      else if Command = chr (CHR ''c'') then do {
             let (b, s) = fetch s;
             m \<leftarrow> boot_page_fill (CurrAddress s OR 1) (ucast b) (Mcu s);
             Some (respond 0x0D (s\<lparr>Mcu := m, CurrAddress := CurrAddress s + 2\<rparr>))
           }
      else if Command = chr (CHR ''m'') then do {
             m \<leftarrow> boot_page_write (CurrAddress s) (Mcu s);
             Some (respond 0x0D (s\<lparr>Mcu := m\<rparr>))
           }
      else if Command = chr (CHR ''R'') then do {
             w \<leftarrow> pgm_read_word_far (CurrAddress s) (Mcu s);
             Some (respond_all [byte1 w, byte0 w] s)
           }
      else if Command = chr (CHR ''D'') then
             let (b, s) = fetch s;
                 m = eeprom_write_byte (ucast (drop_bit 1 (CurrAddress s))) b (Mcu s)
             in Some (respond 0x0D (s\<lparr>Mcu := m, CurrAddress := CurrAddress s + 2\<rparr>))
      else if Command = chr (CHR ''d'') then
             let s = respond (eeprom_read_byte (ucast (drop_bit 1 (CurrAddress s))) (Mcu s)) s
             in Some (s\<lparr>CurrAddress := CurrAddress s + 2\<rparr>)
      else if Command \<noteq> 27 then Some (respond (chr (CHR ''?'')) s)
      else Some s)"

definition CDC_command :: "u8 \<Rightarrow> cdc \<Rightarrow> cdc option" where
  "CDC_command Command s =
     (if Command = chr (CHR ''E'') then Some (respond 0x0D (s\<lparr>RunBootloader := False\<rparr>))
      else if Command = chr (CHR ''T'') then Some (respond 0x0D (snd (fetch s)))
      else if Command = chr (CHR ''L'') \<or> Command = chr (CHR ''P'') then Some (respond 0x0D s)
      else if Command = chr (CHR ''t'') then Some (respond_all [0x44, 0x00] s)
      else if Command = chr (CHR ''a'') then Some (respond (chr (CHR ''Y'')) s)
      else if Command = chr (CHR ''A'') then Some (respond 0x0D (set_address s))
      else if Command = chr (CHR ''p'') then Some (respond (chr (CHR ''S'')) s)
      else if Command = chr (CHR ''S'') then Some (respond_all (map of_char SOFTWARE_IDENTIFIER) s)
      else if Command = chr (CHR ''V'') then Some (respond_all
             [chr (CHR ''0'') + BOOTLOADER_VERSION_MAJOR, chr (CHR ''0'') + BOOTLOADER_VERSION_MINOR] s)
      else if Command = chr (CHR ''s'') then Some (respond_all [AVR_SIGNATURE_3, AVR_SIGNATURE_2, AVR_SIGNATURE_1] s)
      else if Command = chr (CHR ''e'') then do {
             m \<leftarrow> erase_pages application_pages (Mcu s);
             Some (respond 0x0D (s\<lparr>Mcu := m\<rparr>))
           }
      else if Command = chr (CHR ''l'') then
             let (b, s) = fetch s in Some (respond 0x0D (s\<lparr>Mcu := boot_lock_bits_set b (Mcu s)\<rparr>))
      else if Command = chr (CHR ''r'') then Some (respond (LockBits (Mcu s)) s)
      else if Command = chr (CHR ''F'') then do { b \<leftarrow> arr_rd (Fuses s) 0; Some (respond b s) }
      else if Command = chr (CHR ''N'') then do { b \<leftarrow> arr_rd (Fuses s) 1; Some (respond b s) }
      else if Command = chr (CHR ''Q'') then do { b \<leftarrow> arr_rd (Fuses s) 2; Some (respond b s) }
      else if Command = chr (CHR ''b'') then Some (respond_all
             [chr (CHR ''Y''), of_nat (SPM_PAGESIZE div 256), of_nat (SPM_PAGESIZE mod 256)] s)
      else if Command = chr (CHR ''B'') \<or> Command = chr (CHR ''g'') then ReadWriteMemoryBlock Command s
      else CDC_byte_command Command s)"

text \<open>
  The end of the task: the response is sent, with an empty packet after a full one, and the OUT
  bank is given back.
\<close>

definition finish_command :: "usb \<Rightarrow> usb" where
  "finish_command u =
     (let IsEndpointFull = (length (InBank u) = CDC_TXRX_EPSIZE);
          u = Endpoint_ClearIN u in
      if IsEndpointFull
      then if Unattached u then u
           else let u = Endpoint_ClearIN u in if Unattached u then u else Endpoint_ClearOUT u
      else if Unattached u then u else Endpoint_ClearOUT u)"

definition CDC_Task :: "cdc \<Rightarrow> cdc option" where
  "CDC_Task s =
     (if \<not> Endpoint_IsOUTReceived (Usb s) then Some s
      else let (Command, s) = fetch s in do {
        s \<leftarrow> CDC_command Command s;
        Some (s\<lparr>Usb := finish_command (Usb s)\<rparr>)
      })"

text \<open>
  The main loop, with the packets of one command arriving between two runs of the task; when the
  bootloader is left, the key that makes the next start jump to the application is set.
\<close>

fun cdc_main :: "bytes list list \<Rightarrow> cdc \<Rightarrow> cdc option" where
  "cdc_main cs s =
     (if \<not> RunBootloader s then Some (s\<lparr>MagicBootKey := MAGIC_BOOT_KEY\<rparr>)
      else case cs of
        [] \<Rightarrow> Some s
      | c # cs \<Rightarrow> do {
          s \<leftarrow> CDC_Task (case c of [] \<Rightarrow> s | p # ps \<Rightarrow> s\<lparr>Usb := (Usb s)\<lparr>Bank := Some p, Incoming := ps\<rparr>\<rparr>);
          cdc_main cs s
        })"

declare cdc_main.simps [simp del]

section \<open>The byte stream behind the packets\<close>

definition io :: "usb \<Rightarrow> bytes \<Rightarrow> bytes \<Rightarrow> bool" where
  "io u inp out = (\<not> Unattached u \<and> pending u = inp \<and> written u = out \<and>
     length (InBank u) \<le> CDC_TXRX_EPSIZE \<and> [] \<notin> set (Incoming u))"

definition idle_usb :: "usb \<Rightarrow> bytes \<Rightarrow> bool" where
  "idle_usb u out = (\<not> Unattached u \<and> Bank u = None \<and> Incoming u = [] \<and> InBank u = [] \<and>
     concat (InPackets u) = out)"

lemma fetch_byte:
  "io u (b # r) out \<Longrightarrow> \<exists>u'. FetchNextCommandByte u = (b, u') \<and> io u' r out"
proof (induction u rule: FetchNextCommandByte.induct)
  case (1 u)
  show ?case
  proof (cases "Bank u")
    case None
    with 1(3) obtain p ps where "Incoming u = p # ps"
      by (cases "Incoming u") (auto simp: io_def pending_def)
    with None 1(1) [OF None this] 1(3) show ?thesis
      by (subst FetchNextCommandByte.simps) (auto simp: io_def pending_def written_def)
  next
    case (Some bank)
    show ?thesis
    proof (cases bank)
      case Nil
      with Some 1(3) obtain p ps where "Incoming u = p # ps"
        by (cases "Incoming u") (auto simp: io_def pending_def)
      with Some Nil 1(2) [of bank p ps] 1(3) show ?thesis
        by (subst FetchNextCommandByte.simps) (auto simp: io_def pending_def written_def)
    next
      case (Cons c cs)
      with Some 1(3) show ?thesis
        by (subst FetchNextCommandByte.simps) (auto simp: io_def pending_def written_def)
    qed
  qed
qed

lemma fetch_io: "io (Usb s) (b # r) out \<Longrightarrow> \<exists>u. fetch s = (b, s\<lparr>Usb := u\<rparr>) \<and> io u r out"
  using fetch_byte [of "Usb s" b r out] by (auto simp: fetch_def)

lemma respond_io: "io (Usb s) inp out \<Longrightarrow> \<exists>u. respond b s = s\<lparr>Usb := u\<rparr> \<and> io u inp (out @ [b])"
  by (auto simp: respond_def WriteNextResponseByte_def io_def written_def pending_def Endpoint_ClearIN_def
      Endpoint_Write_8_def CDC_TXRX_EPSIZE_def Let_def)

lemma finish_idle: "io u [] out \<Longrightarrow> idle_usb (finish_command u) out"
  by (cases "Incoming u")
    (auto simp: io_def idle_usb_def finish_command_def pending_def written_def Endpoint_ClearIN_def
      Endpoint_ClearOUT_def Let_def)

lemma task_io:
  assumes "idle_usb (Usb s) out" "concat c = k # args" "[] \<notin> set c"
  shows "\<exists>u. io u args out \<and>
    CDC_Task (s\<lparr>Usb := (Usb s)\<lparr>Bank := Some (hd c), Incoming := tl c\<rparr>\<rparr>) =
      do { s1 \<leftarrow> CDC_command k (s\<lparr>Usb := u\<rparr>); Some (s1\<lparr>Usb := finish_command (Usb s1)\<rparr>) }"
proof -
  let ?s = "s\<lparr>Usb := (Usb s)\<lparr>Bank := Some (hd c), Incoming := tl c\<rparr>\<rparr>"
  have "io (Usb ?s) (k # args) out"
    using assms by (cases c) (auto simp: io_def idle_usb_def pending_def written_def)
  from fetch_io [OF this] obtain u where "fetch ?s = (k, ?s\<lparr>Usb := u\<rparr>)" "io u args out"
    by blast
  then show ?thesis
    by (auto simp: CDC_Task_def Endpoint_IsOUTReceived_def)
qed

section \<open>Blocks\<close>

lemma address_word: "push_bit 8 (ucast b) OR ucast a = word16_of a b"
  by (simp add: word16_of_def or.commute)

lemma write_flash_block_ok:
  assumes "io (Usb s) (bs @ r) out" "even (length bs)" "PageBuffer (Mcu s) = buf_of ws"
    and "flash_index (CurrAddress s) mod SPM_PAGESIZE = 2 * length ws"
    and "2 * length ws + length bs \<le> SPM_PAGESIZE" "flash_index (CurrAddress s) + length bs \<le> FLASHEND"
  shows "\<exists>u. write_flash_block (length bs) False l s = Some (s\<lparr>Usb := u,
      Mcu := (Mcu s)\<lparr>PageBuffer := buf_of (ws @ words_of bs)\<rparr>,
      CurrAddress := CurrAddress s + of_nat (length bs)\<rparr>) \<and> io u r out"
  using assms
proof (induction bs arbitrary: s ws l rule: words_of.induct [case_names Pair Nil Single])
  case (Pair a b bs)
  from fetch_io [of s a "b # bs @ r" out] Pair.prems(1) obtain u1 where
    u1: "fetch s = (a, s\<lparr>Usb := u1\<rparr>)" "io u1 (b # bs @ r) out"
    by auto
  from fetch_io [of "s\<lparr>Usb := u1\<rparr>" b "bs @ r" out] u1(2) obtain u2 where
    u2: "fetch (s\<lparr>Usb := u1\<rparr>) = (b, s\<lparr>Usb := u2\<rparr>)" "io u2 (bs @ r) out"
    by auto
  let ?m = "(Mcu s)\<lparr>PageBuffer := buf_of (ws @ [word16_of a b])\<rparr>"
  let ?s = "s\<lparr>Usb := u2, Mcu := ?m, CurrAddress := CurrAddress s + 2\<rparr>"
  have fill: "boot_page_fill (CurrAddress s) (word16_of a b) (Mcu s) = Some ?m"
    using Pair.prems(3,4) by (simp add: fill_next)
  have idx: "flash_index (CurrAddress s + 2) = flash_index (CurrAddress s) + 2"
    using flash_index_add [of "CurrAddress s" 2] Pair.prems(6) by simp
  have step: "write_flash_block (length (a # b # bs)) False l s = write_flash_block (length bs) False a ?s"
    using u1(1) u2(1) fill by (simp add: address_word)
  show ?case
  proof (cases bs)
    case Nil
    with step u2(2) show ?thesis
      by (auto intro!: exI [of _ u2])
  next
    case (Cons c cs)
    then have "2 * length ws + 2 < SPM_PAGESIZE"
      using Pair.prems(2,5) by simp
    then have "flash_index (CurrAddress ?s) mod SPM_PAGESIZE = 2 * length (ws @ [word16_of a b])"
      using Pair.prems(4) mod_add_small [of "flash_index (CurrAddress s)" SPM_PAGESIZE 2] by (simp add: idx)
    with Pair.IH [of ?s "ws @ [word16_of a b]" a] u2(2) Pair.prems idx obtain u where
      "write_flash_block (length bs) False a ?s = Some (?s\<lparr>Usb := u,
        Mcu := (Mcu ?s)\<lparr>PageBuffer := buf_of ((ws @ [word16_of a b]) @ words_of bs)\<rparr>,
        CurrAddress := CurrAddress ?s + of_nat (length bs)\<rparr>)" "io u r out"
      by auto
    then show ?thesis
      unfolding step by (auto simp: algebra_simps intro!: exI [of _ u])
  qed
qed (auto intro!: exI [of _ "Usb s" for s])

lemma flash_index_high: "even a \<Longrightarrow> flash_index a + 1 \<le> FLASHEND \<Longrightarrow> flash_index (a OR 1) = flash_index a + 1"
  using flash_index_add [of a 1] by (simp add: or_one_eq)

lemma read_flash_block_ok:
  assumes "io (Usb s) inp out" "RwwEnabled (Mcu s)" "even (CurrAddress s)"
    and "flash_index (CurrAddress s) + 2 * k \<le> FLASHEND"
  shows "\<exists>u. read_flash_block (2 * k) False s = Some (s\<lparr>Usb := u,
      CurrAddress := CurrAddress s + of_nat (2 * k)\<rparr>) \<and>
    io u inp (out @ map (Flash (Mcu s)) [flash_index (CurrAddress s)..<flash_index (CurrAddress s) + 2 * k])"
  using assms
proof (induction k arbitrary: s out)
  case 0
  then show ?case
    by (auto intro!: exI [of _ "Usb s"])
next
  case (Suc k)
  let ?a = "CurrAddress s" and ?f = "Flash (Mcu s)"
  have reads: "pgm_read_byte_far ?a (Mcu s) = Some (?f (flash_index ?a))"
    "pgm_read_byte_far (?a OR 1) (Mcu s) = Some (?f (flash_index ?a + 1))"
    using Suc.prems by (simp_all add: pgm_read_byte_far_def flash_index_high)
  from respond_io [OF Suc.prems(1), of "?f (flash_index ?a)"] obtain u1 where
    u1: "respond (?f (flash_index ?a)) s = s\<lparr>Usb := u1\<rparr>" "io u1 inp (out @ [?f (flash_index ?a)])"
    by blast
  from respond_io [of "s\<lparr>Usb := u1\<rparr>" inp "out @ [?f (flash_index ?a)]" "?f (flash_index ?a + 1)"] u1(2) obtain u2 where
    u2: "respond (?f (flash_index ?a + 1)) (s\<lparr>Usb := u1\<rparr>) = s\<lparr>Usb := u2\<rparr>"
      "io u2 inp ((out @ [?f (flash_index ?a)]) @ [?f (flash_index ?a + 1)])"
    by auto
  let ?s = "s\<lparr>Usb := u2, CurrAddress := ?a + 2\<rparr>"
  have idx: "flash_index (?a + 2) = flash_index ?a + 2"
    using flash_index_add [of ?a 2] Suc.prems(4) by simp
  have step: "read_flash_block (2 * Suc k) False s = read_flash_block (2 * k) False ?s"
    using reads u1(1) u2(1) by (simp add: Let_def)
  have "[flash_index ?a..<flash_index ?a + 2 * Suc k] =
      [flash_index ?a, flash_index ?a + 1] @ [flash_index ?a + 2..<flash_index ?a + 2 + 2 * k]"
    by (simp add: upt_conv_Cons)
  with Suc.IH [of ?s "(out @ [?f (flash_index ?a)]) @ [?f (flash_index ?a + 1)]"] u2(2) Suc.prems idx show ?case
    unfolding step by (auto simp: algebra_simps)
qed

section \<open>Commands\<close>

lemma block_size: "unat (push_bit 8 (ucast hi) OR ucast lo :: u16) = 256 * unat hi + unat lo" for hi lo :: u8
  using unat_word16_of [of lo hi] by (simp add: address_word)

lemma three_bytes:
  assumes "io (Usb s) (a # b # c # r) out"
  shows "\<exists>u1 u2 u3. fetch s = (a, s\<lparr>Usb := u1\<rparr>) \<and> fetch (s\<lparr>Usb := u1\<rparr>) = (b, s\<lparr>Usb := u2\<rparr>) \<and>
    fetch (s\<lparr>Usb := u2\<rparr>) = (c, s\<lparr>Usb := u3\<rparr>) \<and> io u3 r out"
proof -
  from fetch_io [OF assms] obtain u1 where u1: "fetch s = (a, s\<lparr>Usb := u1\<rparr>)" "io u1 (b # c # r) out"
    by blast
  from fetch_io [of "s\<lparr>Usb := u1\<rparr>" b "c # r" out] u1(2) obtain u2 where
    u2: "fetch (s\<lparr>Usb := u1\<rparr>) = (b, s\<lparr>Usb := u2\<rparr>)" "io u2 (c # r) out"
    by auto
  from fetch_io [of "s\<lparr>Usb := u2\<rparr>" c r out] u2(2) obtain u3 where
    u3: "fetch (s\<lparr>Usb := u2\<rparr>) = (c, s\<lparr>Usb := u3\<rparr>)" "io u3 r out"
    by auto
  from u1(1) u2(1) u3 show ?thesis
    by blast
qed

lemma flash_write_command:
  assumes "io (Usb s) (hi # lo # chr (CHR ''F'') # bs) out" "256 * unat hi + unat lo = length bs"
    and "even (length bs)" "length bs \<le> SPM_PAGESIZE" "PageBuffer (Mcu s) = Map.empty"
    and "flash_index (CurrAddress s) mod SPM_PAGESIZE = 0" "flash_index (CurrAddress s) < BOOT_START_ADDR"
  shows "\<exists>u. CDC_command (chr (CHR ''B'')) s = Some (s\<lparr>CurrAddress := CurrAddress s + of_nat (length bs),
      Mcu := (Mcu s)\<lparr>Flash := with_page (flash_index (CurrAddress s)) bs (Flash (Mcu s)), PageBuffer := Map.empty,
        RwwEnabled := False\<rparr>, Usb := u\<rparr>) \<and> io u [] (out @ [0x0D])"
proof -
  let ?a = "CurrAddress s"
  from three_bytes [OF assms(1)] obtain u1 u2 u3 where
    u: "fetch s = (hi, s\<lparr>Usb := u1\<rparr>)" "fetch (s\<lparr>Usb := u1\<rparr>) = (lo, s\<lparr>Usb := u2\<rparr>)"
      "fetch (s\<lparr>Usb := u2\<rparr>) = (chr (CHR ''F''), s\<lparr>Usb := u3\<rparr>)" "io u3 bs out"
    by blast
  let ?s = "s\<lparr>Usb := u3, Mcu := boot_page_erase ?a (Mcu s)\<rparr>"
  have "io (Usb ?s) (bs @ []) out" "PageBuffer (Mcu ?s) = buf_of []"
    "flash_index (CurrAddress ?s) mod SPM_PAGESIZE = 2 * length ([] :: u16 list)"
    "2 * length ([] :: u16 list) + length bs \<le> SPM_PAGESIZE" "flash_index (CurrAddress ?s) + length bs \<le> FLASHEND"
    using u(4) assms by (simp_all add: boot_page_erase_def BOOT_START_ADDR_def FLASHEND_def SPM_PAGESIZE_def)
  from write_flash_block_ok [OF this(1) assms(3) this(2-), of 0] obtain u4 where
    u4: "write_flash_block (length bs) False 0 ?s = Some (s\<lparr>Usb := u4,
        Mcu := (boot_page_erase ?a (Mcu s))\<lparr>PageBuffer := buf_of (words_of bs)\<rparr>,
        CurrAddress := ?a + of_nat (length bs)\<rparr>)" "io u4 [] out"
    by auto
  let ?m = "(Mcu s)\<lparr>Flash := with_page (flash_index ?a) bs (Flash (Mcu s)), PageBuffer := Map.empty, RwwEnabled := False\<rparr>"
  let ?t = "s\<lparr>Usb := u4, CurrAddress := ?a + of_nat (length bs), Mcu := ?m\<rparr>"
  have w: "boot_page_write ?a ((boot_page_erase ?a (Mcu s))\<lparr>PageBuffer := buf_of (words_of bs)\<rparr>) = Some ?m"
    using program_page [OF assms(3), of ?a "Mcu s"] assms(7) by (simp add: rww_after_def)
  from respond_io [of ?t "[]" out "0x0D"] u4(2) obtain u5 where
    u5: "respond 0x0D ?t = ?t\<lparr>Usb := u5\<rparr>" "io u5 [] (out @ [0x0D])"
    by auto
  have "ReadWriteMemoryBlock (chr (CHR ''B'')) s = Some (?t\<lparr>Usb := u5\<rparr>)"
    using u(1-3) u4(1) w u5(1) assms(2) by (simp add: ReadWriteMemoryBlock_def block_size Let_def)
  then show ?thesis
    using u5(2) by (auto simp: CDC_command_def)
qed

lemma flash_read_command:
  assumes "io (Usb s) [hi, lo, chr (CHR ''F'')] out" "256 * unat hi + unat lo = 2 * k"
    and "even (CurrAddress s)" "flash_index (CurrAddress s) + 2 * k \<le> FLASHEND"
  shows "\<exists>u. CDC_command (chr (CHR ''g'')) s = Some (s\<lparr>CurrAddress := CurrAddress s + of_nat (2 * k),
      Mcu := boot_rww_enable (Mcu s), Usb := u\<rparr>) \<and>
    io u [] (out @ map (Flash (Mcu s)) [flash_index (CurrAddress s)..<flash_index (CurrAddress s) + 2 * k])"
proof -
  from three_bytes [OF assms(1)] obtain u1 u2 u3 where
    u: "fetch s = (hi, s\<lparr>Usb := u1\<rparr>)" "fetch (s\<lparr>Usb := u1\<rparr>) = (lo, s\<lparr>Usb := u2\<rparr>)"
      "fetch (s\<lparr>Usb := u2\<rparr>) = (chr (CHR ''F''), s\<lparr>Usb := u3\<rparr>)" "io u3 [] out"
    by blast
  let ?s = "s\<lparr>Usb := u3, Mcu := boot_rww_enable (Mcu s)\<rparr>"
  from read_flash_block_ok [of ?s "[]" out k] u(4) assms(3,4) obtain u4 where
    u4: "read_flash_block (2 * k) False ?s = Some (?s\<lparr>Usb := u4, CurrAddress := CurrAddress s + of_nat (2 * k)\<rparr>)"
      "io u4 [] (out @ map (Flash (Mcu s)) [flash_index (CurrAddress s)..<flash_index (CurrAddress s) + 2 * k])"
    by (auto simp: boot_rww_enable_def)
  have "ReadWriteMemoryBlock (chr (CHR ''g'')) s =
      Some (?s\<lparr>Usb := u4, CurrAddress := CurrAddress s + of_nat (2 * k)\<rparr>)"
    using u(1-3) u4(1) assms(2) by (simp add: ReadWriteMemoryBlock_def block_size Let_def)
  then show ?thesis
    using u4(2) by (intro exI [of _ u4]) (simp add: CDC_command_def)
qed

lemma address_command:
  assumes "io (Usb s) [hi, lo] out"
  shows "\<exists>u. CDC_command (chr (CHR ''A'')) s = Some (s\<lparr>CurrAddress := address_of hi lo, Usb := u\<rparr>) \<and>
    io u [] (out @ [0x0D])"
proof -
  from fetch_io [OF assms] obtain u1 where u1: "fetch s = (hi, s\<lparr>Usb := u1\<rparr>)" "io u1 [lo] out"
    by blast
  from fetch_io [of "s\<lparr>Usb := u1\<rparr>" lo "[]" out] u1(2) obtain u2 where
    u2: "fetch (s\<lparr>Usb := u1\<rparr>) = (lo, s\<lparr>Usb := u2\<rparr>)" "io u2 [] out"
    by auto
  let ?s = "s\<lparr>Usb := u2, CurrAddress := address_of hi lo\<rparr>"
  from respond_io [of ?s "[]" out "0x0D"] u2(2) obtain u3 where
    "respond 0x0D ?s = ?s\<lparr>Usb := u3\<rparr>" "io u3 [] (out @ [0x0D])"
    by auto
  then show ?thesis
    using u1(1) u2(1) by (intro exI [of _ u3]) (simp add: CDC_command_def set_address_def)
qed

text \<open>The value of the address a host sets, as the flash sees it.\<close>

lemma sint_u16: "sint (x :: u16) = (if unat x < 32768 then int (unat x) else int (unat x) - 65536)"
proof -
  have lt: "uint x < 65536" "0 \<le> uint x"
    using uint_bounded [of x] by simp_all
  have "sint x = signed_take_bit 15 (uint x)"
    by (simp add: sint_uint)
  also have "\<dots> = uint x - 65536 * of_bool (bit (uint x) 15)"
    using lt by (simp add: signed_take_bit_eq_take_bit_minus take_bit_int_eq_self)
  also have "bit (uint x) 15 \<longleftrightarrow> 32768 \<le> uint x"
  proof (cases "uint x < 32768")
    case True
    then show ?thesis
      using lt by (simp add: bit_iff_odd div_pos_pos_trivial)
  next
    case False
    then have "uint x div 32768 = 1"
      using lt by (simp add: div_pos_geq div_pos_pos_trivial)
    then show ?thesis
      using False by (simp add: bit_iff_odd)
  qed
  finally have "sint x = uint x - 65536 * of_bool (32768 \<le> uint x)" .
  moreover have "unat x < 32768 \<longleftrightarrow> \<not> 32768 \<le> uint x"
    using of_nat_less_iff [of "unat x" 32768, where 'a = int] by (simp add: not_le)
  moreover have "int (unat x) = uint x"
    by simp
  ultimately show ?thesis
    by (simp only:) simp
qed

lemma scast_u16: "scast (x :: u16) = (word_of_int (sint x) :: u32)"
  by simp

lemma address_sum:
  "address_of hi lo = scast (push_bit 9 (ucast hi) :: u16) + scast (push_bit 1 (ucast lo) :: u16)"
  "even (address_of hi lo)"
proof -
  define X Y :: u16 where "X = push_bit 9 (ucast hi)" and "Y = push_bit 1 (ucast lo)"
  have X: "9 \<le> n" if "bit X n" for n
    using that unfolding X_def bit_push_bit_iff by simp
  have Y: "1 \<le> n \<and> n \<le> 8" if "bit Y n" for n
    using that unfolding Y_def bit_push_bit_iff bit_ucast_iff by (auto dest: bit_imp_le_length)
  have bits: "bit (scast X :: u32) n \<longleftrightarrow> n < 32 \<and> bit X (min 15 n)" "bit (scast Y :: u32) n \<longleftrightarrow> n < 32 \<and> bit Y (min 15 n)" for n
    by (simp_all add: bit_signed_iff)
  have "scast X OR scast Y = (scast X + scast Y :: u32)"
  proof (rule disjunctive_add [symmetric])
    fix n
    have "\<not> (bit X (min 15 n) \<and> bit Y (min 15 n))"
      using X [of "min 15 n"] Y [of "min 15 n"] by linarith
    then show "\<not> bit (scast X :: u32) n \<or> \<not> bit (scast Y :: u32) n"
      unfolding bits by blast
  qed
  moreover have "even (scast X OR scast Y :: u32)"
  proof -
    have "\<not> bit X 0" "\<not> bit Y 0"
      using X Y by force+
    then show ?thesis
      using bits [of 0] by (simp add: even_or_iff bit_0)
  qed
  ultimately show "address_of hi lo = scast (push_bit 9 (ucast hi) :: u16) + scast (push_bit 1 (ucast lo) :: u16)"
    "even (address_of hi lo)"
    unfolding address_of_def X_def Y_def by simp_all
qed

lemma shifted_byte: "unat (push_bit 9 (ucast b) :: u16) = 512 * (unat b mod 128)" for b :: u8
proof -
  have "unat (push_bit 9 (ucast b) :: u16) = 512 * unat b mod 65536"
    using unat_bound [of b] by (simp add: push_bit_eq_mult unat_word_ariths unsigned_ucast_eq take_bit_nat_eq_self mult.commute)
  also have "\<dots> = 512 * (unat b mod 128)"
    using mult_mod_right [of 512 "unat b" 128] by simp
  finally show ?thesis .
qed

lemma doubled_byte: "unat (push_bit 1 (ucast b) :: u16) = 2 * unat b" for b :: u8
    using unat_bound [of b] by (simp add: push_bit_eq_mult unat_word_ariths unsigned_ucast_eq take_bit_nat_eq_self)

lemma unat_of_int_mod: "unat (word_of_int i :: u32) mod 131072 = nat (i mod 131072)"
proof -
  have "uint (word_of_int i :: u32) mod 131072 = i mod 131072"
    by (simp add: uint_word_of_int mod_mod_cancel)
  moreover have "uint (word_of_int i :: u32) mod 131072 = int (unat (word_of_int i :: u32) mod 131072)"
    by (simp only: of_nat_mod uint_nat of_nat_numeral)
  ultimately have "i mod 131072 = int (unat (word_of_int i :: u32) mod 131072)"
    by (simp only:)
  then show ?thesis
    by (simp only: nat_int)
qed

lemma flash_size: "FLASHEND + 1 = 131072"
  by (simp add: FLASHEND_def)

lemma address_index:
  "flash_index (address_of hi lo) = 512 * (unat hi mod 128) + 2 * unat lo + (if 64 \<le> unat hi mod 128 then 65536 else 0)"
proof -
  define q where "q = unat hi mod 128"
  have lim: "q < 128" "unat lo < 256" "uint lo < 256" "0 \<le> uint lo"
    using unat_bound [of lo] uint_bounded [of lo] by (simp_all add: q_def)
  have "address_of hi lo = word_of_int (sint (push_bit 9 (ucast hi) :: u16) + sint (push_bit 1 (ucast lo) :: u16))"
    unfolding address_sum(1) by simp
  also have "sint (push_bit 1 (ucast lo) :: u16) = int (2 * unat lo)"
    unfolding sint_u16 doubled_byte using lim by simp
  also have "sint (push_bit 9 (ucast hi) :: u16) = (if 64 \<le> q then int (512 * q) - 65536 else int (512 * q))"
    unfolding sint_u16 shifted_byte q_def [symmetric] by auto
  finally have "flash_index (address_of hi lo) =
      nat (((if 64 \<le> q then int (512 * q) - 65536 else int (512 * q)) + int (2 * unat lo)) mod 131072)"
    by (simp only: flash_index_def flash_size unat_of_int_mod)
  also have "((if 64 \<le> q then int (512 * q) - 65536 else int (512 * q)) + int (2 * unat lo)) mod 131072 =
      int (512 * q + 2 * unat lo + (if 64 \<le> q then 65536 else 0))"
  proof (cases "64 \<le> q")
    case True
    have "(int (512 * q) - 65536 + int (2 * unat lo)) mod 131072 = (int (512 * q) + 65536 + int (2 * unat lo)) mod 131072"
      using mod_add_self2 [of "int (512 * q) - 65536 + int (2 * unat lo)" 131072] by (simp add: algebra_simps)
    also have "\<dots> = int (512 * q) + 65536 + int (2 * unat lo)"
      using lim by (intro mod_pos_pos_trivial) simp_all
    finally show ?thesis
      using True by simp
  next
    case False
    then show ?thesis
      using lim by (simp add: mod_pos_pos_trivial)
  qed
  finally show ?thesis
    by (simp only: nat_int q_def)
qed

lemma command_step:
  assumes "idle_usb (Usb s) out" "concat c = k # args" "[] \<notin> set c" "RunBootloader s"
    and "\<And>u. io u args out \<Longrightarrow> \<exists>u'. CDC_command k (s\<lparr>Usb := u\<rparr>) = Some (t\<lparr>Usb := u'\<rparr>) \<and> io u' [] out'"
  shows "\<exists>u. cdc_main (c # cs) s = cdc_main cs (t\<lparr>Usb := u\<rparr>) \<and> idle_usb u out'"
proof -
  obtain p ps where c: "c = p # ps"
    using assms(2) by (cases c) auto
  from task_io [OF assms(1-3)] obtain u where u: "io u args out"
    "CDC_Task (s\<lparr>Usb := (Usb s)\<lparr>Bank := Some p, Incoming := ps\<rparr>\<rparr>) =
      do { s1 \<leftarrow> CDC_command k (s\<lparr>Usb := u\<rparr>); Some (s1\<lparr>Usb := finish_command (Usb s1)\<rparr>) }"
    by (auto simp: c)
  from assms(5) [OF u(1)] obtain u' where "CDC_command k (s\<lparr>Usb := u\<rparr>) = Some (t\<lparr>Usb := u'\<rparr>)" "io u' [] out'"
    by blast
  with u(2) assms(4) finish_idle show ?thesis
    by (subst cdc_main.simps) (auto simp: c)
qed

text \<open>One command of the main loop each.\<close>

lemma address_step:
  assumes "idle_usb (Usb s) out" "concat c = [chr (CHR ''A''), hi, lo]" "[] \<notin> set c" "RunBootloader s"
  shows "\<exists>u. cdc_main (c # cs) s = cdc_main cs (s\<lparr>CurrAddress := address_of hi lo, Usb := u\<rparr>) \<and>
    idle_usb u (out @ [0x0D])"
proof -
  have "\<exists>u'. CDC_command (chr (CHR ''A'')) (s\<lparr>Usb := u\<rparr>) = Some (s\<lparr>CurrAddress := address_of hi lo, Usb := u'\<rparr>) \<and>
      io u' [] (out @ [0x0D])" if "io u [hi, lo] out" for u
    using address_command [of "s\<lparr>Usb := u\<rparr>"] that by simp
  then show ?thesis
    by (rule command_step [OF assms])
qed

lemma write_step:
  assumes "idle_usb (Usb s) out" "concat c = [chr (CHR ''B''), nh, nl, chr (CHR ''F'')] @ bs" "[] \<notin> set c"
    and "RunBootloader s" "256 * unat nh + unat nl = length bs" "even (length bs)" "length bs \<le> SPM_PAGESIZE"
    and "PageBuffer (Mcu s) = Map.empty"
    and "flash_index (CurrAddress s) mod SPM_PAGESIZE = 0" "flash_index (CurrAddress s) < BOOT_START_ADDR"
  shows "\<exists>u. cdc_main (c # cs) s = cdc_main cs (s\<lparr>CurrAddress := CurrAddress s + of_nat (length bs),
      Mcu := (Mcu s)\<lparr>Flash := with_page (flash_index (CurrAddress s)) bs (Flash (Mcu s)), PageBuffer := Map.empty,
        RwwEnabled := False\<rparr>, Usb := u\<rparr>) \<and> idle_usb u (out @ [0x0D])"
proof -
  have c: "concat c = chr (CHR ''B'') # nh # nl # chr (CHR ''F'') # bs"
    using assms(2) by simp
  have "\<exists>u'. CDC_command (chr (CHR ''B'')) (s\<lparr>Usb := u\<rparr>) = Some (s\<lparr>CurrAddress := CurrAddress s + of_nat (length bs),
      Mcu := (Mcu s)\<lparr>Flash := with_page (flash_index (CurrAddress s)) bs (Flash (Mcu s)), PageBuffer := Map.empty,
        RwwEnabled := False\<rparr>, Usb := u'\<rparr>) \<and> io u' [] (out @ [0x0D])"
    if "io u (nh # nl # chr (CHR ''F'') # bs) out" for u
    using flash_write_command [of "s\<lparr>Usb := u\<rparr>" nh nl bs out] that assms(5-) by simp
  then show ?thesis
    by (rule command_step [OF assms(1) c assms(3,4)])
qed

lemma read_step:
  assumes "idle_usb (Usb s) out" "concat c = [chr (CHR ''g''), nh, nl, chr (CHR ''F'')]" "[] \<notin> set c"
    and "RunBootloader s" "256 * unat nh + unat nl = 2 * k" "even (CurrAddress s)"
    and "flash_index (CurrAddress s) + 2 * k \<le> FLASHEND"
  shows "\<exists>u. cdc_main (c # cs) s = cdc_main cs (s\<lparr>CurrAddress := CurrAddress s + of_nat (2 * k),
      Mcu := boot_rww_enable (Mcu s), Usb := u\<rparr>) \<and>
    idle_usb u (out @ map (Flash (Mcu s)) [flash_index (CurrAddress s)..<flash_index (CurrAddress s) + 2 * k])"
proof -
  have "\<exists>u'. CDC_command (chr (CHR ''g'')) (s\<lparr>Usb := u\<rparr>) = Some (s\<lparr>CurrAddress := CurrAddress s + of_nat (2 * k),
      Mcu := boot_rww_enable (Mcu s), Usb := u'\<rparr>) \<and>
    io u' [] (out @ map (Flash (Mcu s)) [flash_index (CurrAddress s)..<flash_index (CurrAddress s) + 2 * k])"
    if "io u [nh, nl, chr (CHR ''F'')] out" for u
    using flash_read_command [of "s\<lparr>Usb := u\<rparr>" nh nl out k] that assms(5-) by simp
  then show ?thesis
    by (rule command_step [OF assms(1-4)])
qed

text \<open>The byte commands do not work on this part: the buffer is filled by words, and the second of the
  two commands for a word hits the word the first has filled.\<close>

lemma even_unat: "even (unat a) \<longleftrightarrow> even a" for a :: u32
  using bit_unsigned_iff [of a 0, where 'a = nat] by (simp add: bit_0)

lemma byte_write_fills_word_twice:
  assumes "even (CurrAddress s)" "flash_index (CurrAddress s) + 1 \<le> FLASHEND"
    and "CDC_command (chr (CHR ''C'')) s = Some t"
  shows "CDC_command (chr (CHR ''c'')) t = None"
proof -
  obtain b u m where f: "fetch s = (b, s\<lparr>Usb := u\<rparr>)" and m: "boot_page_fill (CurrAddress s) (ucast b) (Mcu s) = Some m"
    and t: "t = respond 0x0D (s\<lparr>Usb := u, Mcu := m\<rparr>)"
    using assms(3) by (auto simp: CDC_command_def CDC_byte_command_def fetch_def bind_Some_conv split: prod.splits)
  obtain b' u' where f': "fetch t = (b', t\<lparr>Usb := u'\<rparr>)"
    by (cases "FetchNextCommandByte (Usb t)") (auto simp: fetch_def)
  have a: "CurrAddress t = CurrAddress s" "Mcu t = m"
    by (simp_all add: t respond_def)
  let ?i = "flash_index (CurrAddress s)"
  have "even ?i"
    using assms(1) by (simp add: flash_index_def FLASHEND_def even_unat dvd_mod_iff)
  then have page: "even (?i mod SPM_PAGESIZE)"
    by (simp add: SPM_PAGESIZE_def dvd_mod_iff)
  then have "?i mod SPM_PAGESIZE \<noteq> SPM_PAGESIZE - 1"
    by (auto simp: SPM_PAGESIZE_def)
  then have "?i mod SPM_PAGESIZE + 1 < SPM_PAGESIZE"
    using mod_less_divisor [of SPM_PAGESIZE ?i] by (simp add: SPM_PAGESIZE_def)
  from mod_add_small [OF this] have "(?i + 1) mod SPM_PAGESIZE div 2 = ?i mod SPM_PAGESIZE div 2"
    using page by simp
  moreover have "PageBuffer m (?i mod SPM_PAGESIZE div 2) \<noteq> None"
    using m by (auto simp: boot_page_fill_def Let_def split: if_splits)
  ultimately have "boot_page_fill (CurrAddress t OR 1) w (Mcu t) = None" for w
    using flash_index_high [OF assms(1,2)] by (auto simp: a boot_page_fill_def Let_def)
  then show ?thesis
    using f' by (simp add: CDC_command_def CDC_byte_command_def)
qed

section \<open>Properties\<close>

text \<open>C34.  Programming a page and reading it back: the host sets the address of a page of the
  first 32 KB, sends a block of an even number of at most 256 bytes, sets the address again and
  reads the block, each command cut into packets in any way.  The bootloader acknowledges each
  command and returns exactly the block; the page holds the block and is blank behind it, and no other
  byte of the flash, and no byte of the EEPROM, has changed.\<close>

theorem cdc_program_then_read:
  assumes "idle_usb (Usb s) out" "RunBootloader s" "PageBuffer (Mcu s) = Map.empty"
    and "unat hi < 64" "unat lo mod 128 = 0" "even (length bs)" "length bs \<le> SPM_PAGESIZE"
    and "256 * unat nh + unat nl = length bs"
    and "concat c1 = [chr (CHR ''A''), hi, lo]" "concat c2 = [chr (CHR ''B''), nh, nl, chr (CHR ''F'')] @ bs"
    and "concat c3 = [chr (CHR ''A''), hi, lo]" "concat c4 = [chr (CHR ''g''), nh, nl, chr (CHR ''F'')]"
    and "[] \<notin> set c1" "[] \<notin> set c2" "[] \<notin> set c3" "[] \<notin> set c4"
  shows "\<exists>s'. cdc_main [c1, c2, c3, c4] s = Some s' \<and>
    idle_usb (Usb s') (out @ [0x0D, 0x0D, 0x0D] @ bs) \<and>
    Flash (Mcu s') = with_page (512 * unat hi + 2 * unat lo) bs (Flash (Mcu s)) \<and>
    Eeprom (Mcu s') = Eeprom (Mcu s) \<and> RunBootloader s'"
proof -
  let ?a = "address_of hi lo" and ?i = "512 * unat hi + 2 * unat lo" and ?n = "length bs"
  have idx: "flash_index ?a = ?i"
    using assms(4) by (simp add: address_index)
  have "2 * unat lo mod 256 = 0"
    using assms(5) by presburger
  then have page: "?i mod SPM_PAGESIZE = 0"
    by (simp add: SPM_PAGESIZE_def mod_add_eq [symmetric])
  have low: "?i + ?n \<le> FLASHEND" "?i < BOOT_START_ADDR"
    using assms(4,7) unat_bound [of lo] by (simp_all add: SPM_PAGESIZE_def FLASHEND_def BOOT_START_ADDR_def)
  let ?m = "(Mcu s)\<lparr>Flash := with_page ?i bs (Flash (Mcu s)), PageBuffer := Map.empty, RwwEnabled := False\<rparr>"
  let ?s1 = "\<lambda>u. s\<lparr>CurrAddress := ?a, Usb := u\<rparr>" and ?s2 = "\<lambda>u. s\<lparr>CurrAddress := ?a + of_nat ?n, Mcu := ?m, Usb := u\<rparr>"
  let ?s3 = "\<lambda>u. s\<lparr>Mcu := ?m, CurrAddress := ?a, Usb := u\<rparr>"
  obtain u1 where u1: "cdc_main [c1, c2, c3, c4] s = cdc_main [c2, c3, c4] (?s1 u1)" "idle_usb u1 (out @ [0x0D])"
    using address_step [OF assms(1,9,13,2)] by blast
  obtain u2 where u2: "cdc_main [c2, c3, c4] (?s1 u1) = cdc_main [c3, c4] (?s2 u2)"
      "idle_usb u2 ((out @ [0x0D]) @ [0x0D])"
    using write_step [of "?s1 u1" "out @ [0x0D]" c2 nh nl bs "[c3, c4]"] assms(2,3,6-8,10,14) u1(2) page low(2) idx
    by auto
  obtain u3 where u3: "cdc_main [c3, c4] (?s2 u2) = cdc_main [c4] (?s3 u3)"
      "idle_usb u3 (((out @ [0x0D]) @ [0x0D]) @ [0x0D])"
    using address_step [of "?s2 u2" "(out @ [0x0D]) @ [0x0D]" c3 hi lo "[c4]"] assms(2,11,15) u2(2) by auto
  have n: "256 * unat nh + unat nl = 2 * (?n div 2)"
    using assms(6,8) by simp
  obtain u4 where u4: "cdc_main [c4] (?s3 u3) = cdc_main [] (s\<lparr>CurrAddress := ?a + of_nat (2 * (?n div 2)),
        Mcu := boot_rww_enable ?m, Usb := u4\<rparr>)"
      "idle_usb u4 ((((out @ [0x0D]) @ [0x0D]) @ [0x0D]) @ map (with_page ?i bs (Flash (Mcu s))) [?i..<?i + ?n])"
    using read_step [of "?s3 u3" "((out @ [0x0D]) @ [0x0D]) @ [0x0D]" c4 nh nl "?n div 2" "[]"]
      assms(2,6,12,16) n u3(2) address_sum(2) [of hi lo] low(1) idx by auto
  have "map (with_page ?i bs (Flash (Mcu s))) [?i..<?i + ?n] = bs"
    by (rule with_page_read [OF page assms(7)])
  then show ?thesis
    using u1(1) u2(1) u3(1) u4 assms(2) by (auto simp: cdc_main.simps [of "[]"] boot_rww_enable_def)
qed

definition cdc_sample :: cdc where
  "cdc_sample = cdc_init \<lparr>Flash = (\<lambda>i. of_nat i), PageBuffer = Map.empty, RwwEnabled = True, Eeprom = (\<lambda>i. 0xFF),
       LockBits = 0xFF\<rparr> [0xFF, 0xD9, 0xF4] 0
     \<lparr>Bank = None, Incoming = [], InBank = [], InPackets = [], Unattached = False\<rparr>"

theorem cdc_program_then_read_witness:
  "\<exists>s'. cdc_main [[[65, 1, 128]], [[66, 0], [4, 70, 0xDE, 0xAD], [0xBE, 0xEF]], [[65], [1, 128]], [[103, 0, 4, 70]]]
      cdc_sample = Some s' \<and>
    concat (InPackets (Usb s')) = [0x0D, 0x0D, 0x0D, 0xDE, 0xAD, 0xBE, 0xEF] \<and>
    Flash (Mcu s') 769 = 0xAD \<and> Flash (Mcu s') 772 = 0xFF \<and> Flash (Mcu s') 1030 = 6"
proof -
  have s: "idle_usb (Usb cdc_sample) []" "RunBootloader cdc_sample" "PageBuffer (Mcu cdc_sample) = Map.empty"
    by (simp_all add: cdc_sample_def cdc_init_def idle_usb_def)
  have "\<exists>s'. cdc_main [[[65, 1, 128]], [[66, 0], [4, 70, 0xDE, 0xAD], [0xBE, 0xEF]], [[65], [1, 128]], [[103, 0, 4, 70]]]
      cdc_sample = Some s' \<and> idle_usb (Usb s') ([] @ [0x0D, 0x0D, 0x0D] @ [0xDE, 0xAD, 0xBE, 0xEF]) \<and>
    Flash (Mcu s') = with_page (512 * unat (1 :: u8) + 2 * unat (128 :: u8)) [0xDE, 0xAD, 0xBE, 0xEF] (Flash (Mcu cdc_sample)) \<and>
    Eeprom (Mcu s') = Eeprom (Mcu cdc_sample) \<and> RunBootloader s'"
    by (rule cdc_program_then_read [OF s, where nh = 0 and nl = 4]) (simp_all add: SPM_PAGESIZE_def)
  then show ?thesis
    by (auto simp: idle_usb_def with_page_def SPM_PAGESIZE_def cdc_sample_def cdc_init_def)
qed

text \<open>C36.  The address command: the flash address it sets is the one the host asked for, twice the word
  address, exactly when the two highest bits of the word address are equal.  A shifted byte is a signed 16-bit
  \<^verbatim>\<open>int\<close>, so that words from 0x4000 to 0xBFFF are mapped to the other half of the flash.\<close>

theorem cdc_address_command:
  assumes "io (Usb s) [hi, lo] out"
  shows "\<exists>s'. CDC_command (chr (CHR ''A'')) s = Some s' \<and>
    (flash_index (CurrAddress s') = 2 * (256 * unat hi + unat lo) \<longleftrightarrow> unat hi < 0x40 \<or> 0xC0 \<le> unat hi) \<and>
    (\<not> (unat hi < 0x40 \<or> 0xC0 \<le> unat hi) \<longrightarrow>
      (flash_index (CurrAddress s') + 0x10000) mod 0x20000 = 2 * (256 * unat hi + unat lo))"
proof -
  have "unat hi < 256" "unat lo < 256"
    using unat_bound [of hi] unat_bound [of lo] by simp_all
  moreover have "unat hi mod 128 = (if unat hi < 128 then unat hi else unat hi - 128)"
    using unat_bound [of hi] by (simp add: mod_if)
  moreover obtain u where "CDC_command (chr (CHR ''A'')) s = Some (s\<lparr>CurrAddress := address_of hi lo, Usb := u\<rparr>)"
    using address_command [OF assms] by blast
  ultimately show ?thesis
    using address_index [of hi lo] by (auto split: if_splits)
qed

theorem cdc_address_command_witness:
  "\<exists>s'. CDC_command (chr (CHR ''A'')) (cdc_sample\<lparr>Usb := (Usb cdc_sample)\<lparr>Bank := Some [0x40, 0]\<rparr>\<rparr>) = Some s' \<and>
    flash_index (CurrAddress s') \<noteq> 2 * 0x4000 \<and> (flash_index (CurrAddress s') + 0x10000) mod 0x20000 = 2 * 0x4000"
  using cdc_address_command [of "cdc_sample\<lparr>Usb := (Usb cdc_sample)\<lparr>Bank := Some [0x40, 0]\<rparr>\<rparr>" "0x40" 0 "[]"]
  by (auto simp: cdc_sample_def cdc_init_def io_def pending_def written_def)

text \<open>C35.  The chip erase command blanks every byte of the application section, leaves the boot
  section, the EEPROM and the lock bits alone, and is acknowledged.\<close>

theorem cdc_chip_erase:
  assumes "idle_usb (Usb s) out" "RunBootloader s" "PageBuffer (Mcu s) = Map.empty"
  shows "\<exists>s'. cdc_main [[[chr (CHR ''e'')]]] s = Some s' \<and> idle_usb (Usb s') (out @ [0x0D]) \<and>
    Flash (Mcu s') = (\<lambda>i. if i < BOOT_START_ADDR then 0xFF else Flash (Mcu s) i) \<and>
    Eeprom (Mcu s') = Eeprom (Mcu s) \<and> LockBits (Mcu s') = LockBits (Mcu s)"
proof -
  from erase_application [OF assms(3)] obtain r where
    r: "erase_pages application_pages (Mcu s) = Some ((Mcu s)\<lparr>
      Flash := (\<lambda>i. if i < BOOT_START_ADDR then 0xFF else Flash (Mcu s) i), RwwEnabled := r\<rparr>)" (is "_ = Some ?m")
    by blast
  have cmd: "\<exists>u'. CDC_command (chr (CHR ''e'')) (s\<lparr>Usb := u\<rparr>) = Some ((s\<lparr>Mcu := ?m\<rparr>)\<lparr>Usb := u'\<rparr>) \<and>
      io u' [] (out @ [0x0D])" if "io u [] out" for u
    using respond_io [of "s\<lparr>Usb := u, Mcu := ?m\<rparr>" "[]" out "0x0D"] that r by (auto simp: CDC_command_def)
  have c: "concat [[chr (CHR ''e'')]] = chr (CHR ''e'') # []" "[] \<notin> set [[chr (CHR ''e'')]]"
    by simp_all
  from command_step [OF assms(1) c assms(2) cmd, where cs = "[]"] show ?thesis
    using assms(2) by (auto simp: cdc_main.simps [of "[]"])
qed

theorem cdc_chip_erase_witness:
  "\<exists>s'. cdc_main [[[chr (CHR ''e'')]]] cdc_sample = Some s' \<and>
    Flash (Mcu s') 0x1DFFF = 0xFF \<and> Flash (Mcu s') 0x1E001 = 1"
  using cdc_chip_erase [of cdc_sample "[]"]
  by (auto simp: cdc_sample_def cdc_init_def idle_usb_def BOOT_START_ADDR_def)

end
