(* ===== verification/Boot_DFU.thy ===== *)
theory Boot_DFU
  imports Boot_Hardware
begin

text \<open>
  \<^verbatim>\<open>BootloaderDFU.c\<close>: the DFU bootloader, whose commands are wrapped in control requests.  A request
  is given by its direction, its code and its length; the packets of its data and status stages
  are those of the control endpoint.  Where the source returns from the request handler because the
  device has been unplugged, the functions return with the first component set.
\<close>

unbundle bit_operations_syntax

section \<open>Constants and state\<close>

definition FIXED_CONTROL_ENDPOINT_SIZE :: nat where
  "FIXED_CONTROL_ENDPOINT_SIZE = 32"

definition BOOTLOADER_VERSION :: u8 where
  "BOOTLOADER_VERSION = push_bit 4 2 OR 0"

definition BOOTLOADER_ID_BYTE1 :: u8 where
  "BOOTLOADER_ID_BYTE1 = 0xDC"

definition BOOTLOADER_ID_BYTE2 :: u8 where
  "BOOTLOADER_ID_BYTE2 = 0xFB"

definition DFU_FILE_SUFFIX_SIZE :: u8 where
  "DFU_FILE_SUFFIX_SIZE = 16"

definition DFU_FILLER_BYTES_SIZE :: u8 where
  "DFU_FILLER_BYTES_SIZE = 26"

definition DFU_REQ_DNLOAD :: u8 where
  "DFU_REQ_DNLOAD = 0x01"

definition DFU_REQ_UPLOAD :: u8 where
  "DFU_REQ_UPLOAD = 0x02"

definition DFU_REQ_GETSTATUS :: u8 where
  "DFU_REQ_GETSTATUS = 0x03"

definition DFU_REQ_CLRSTATUS :: u8 where
  "DFU_REQ_CLRSTATUS = 0x04"

definition DFU_REQ_GETSTATE :: u8 where
  "DFU_REQ_GETSTATE = 0x05"

definition DFU_REQ_ABORT :: u8 where
  "DFU_REQ_ABORT = 0x06"

definition COMMAND_PROG_START :: u8 where
  "COMMAND_PROG_START = 0x01"

definition COMMAND_DISP_DATA :: u8 where
  "COMMAND_DISP_DATA = 0x03"

definition COMMAND_WRITE :: u8 where
  "COMMAND_WRITE = 0x04"

definition COMMAND_READ :: u8 where
  "COMMAND_READ = 0x05"

definition COMMAND_CHANGE_BASE_ADDR :: u8 where
  "COMMAND_CHANGE_BASE_ADDR = 0x06"

lemmas dfu_codes = DFU_REQ_DNLOAD_def DFU_REQ_UPLOAD_def DFU_REQ_GETSTATUS_def DFU_REQ_CLRSTATUS_def
  DFU_REQ_GETSTATE_def DFU_REQ_ABORT_def COMMAND_PROG_START_def COMMAND_DISP_DATA_def COMMAND_WRITE_def
  COMMAND_READ_def COMMAND_CHANGE_BASE_ADDR_def

datatype DFU_State_t = appIDLE | appDETACH | dfuIDLE | dfuDNLOAD_SYNC | dfuDNBUSY | dfuDNLOAD_IDLE |
  dfuMANIFEST_SYNC | dfuMANIFEST | dfuMANIFEST_WAIT_RESET | dfuUPLOAD_IDLE | dfuERROR

fun state_code :: "DFU_State_t \<Rightarrow> u8" where
  "state_code appIDLE = 0"
| "state_code appDETACH = 1"
| "state_code dfuIDLE = 2"
| "state_code dfuDNLOAD_SYNC = 3"
| "state_code dfuDNBUSY = 4"
| "state_code dfuDNLOAD_IDLE = 5"
| "state_code dfuMANIFEST_SYNC = 6"
| "state_code dfuMANIFEST = 7"
| "state_code dfuMANIFEST_WAIT_RESET = 8"
| "state_code dfuUPLOAD_IDLE = 9"
| "state_code dfuERROR = 10"

datatype DFU_Status_t = OK | errTARGET | errFILE | errWRITE | errERASE | errCHECK_ERASED | errPROG | errVERIFY |
  errADDRESS | errNOTDONE | errFIRMWARE | errVENDOR | errUSBR | errPOR | errUNKNOWN | errSTALLEDPKT

fun status_code :: "DFU_Status_t \<Rightarrow> u8" where
  "status_code OK = 0"
| "status_code errTARGET = 1"
| "status_code errFILE = 2"
| "status_code errWRITE = 3"
| "status_code errERASE = 4"
| "status_code errCHECK_ERASED = 5"
| "status_code errPROG = 6"
| "status_code errVERIFY = 7"
| "status_code errADDRESS = 8"
| "status_code errNOTDONE = 9"
| "status_code errFIRMWARE = 10"
| "status_code errVENDOR = 11"
| "status_code errUSBR = 12"
| "status_code errPOR = 13"
| "status_code errUNKNOWN = 14"
| "status_code errSTALLEDPKT = 15"

record DFU_Command_t =
  Command :: u8
  Data :: bytes
  DataSize :: u16

record dfu =
  IsSecure :: bool
  RunBootloader :: bool
  WaitForExit :: bool
  DFU_State :: DFU_State_t
  DFU_Status :: DFU_Status_t
  SentCommand :: DFU_Command_t
  ResponseByte :: u8
  AppStartPtr :: u16
  Flash64KBPage :: u8
  StartAddr :: u16
  EndAddr :: u16
  MagicBootKey :: u16
  Watchdog :: bool
  Stalled :: bool
  Mcu :: mcu
  Usb :: usb

definition dfu_init :: "bool \<Rightarrow> u16 \<Rightarrow> mcu \<Rightarrow> usb \<Rightarrow> dfu" where
  "dfu_init SECURE_MODE key m u = \<lparr>IsSecure = SECURE_MODE, RunBootloader = True, WaitForExit = False,
     DFU_State = dfuIDLE, DFU_Status = OK,
     SentCommand = \<lparr>Command = 0, Data = [0, 0, 0, 0, 0], DataSize = 0\<rparr>, ResponseByte = 0, AppStartPtr = 0,
     Flash64KBPage = 0, StartAddr = 0, EndAddr = 0, MagicBootKey = key, Watchdog = False, Stalled = False,
     Mcu = m, Usb = u\<rparr>"

text \<open>The data array has five elements, so these accesses are inside it.\<close>

abbreviation cdata :: "dfu \<Rightarrow> nat \<Rightarrow> u8" where
  "cdata s i \<equiv> Data (SentCommand s) ! i"

definition IS_ONEBYTE_COMMAND :: "bytes \<Rightarrow> u8 \<Rightarrow> bool" where
  "IS_ONEBYTE_COMMAND dataarr cb1 = (dataarr ! 0 = cb1)"

definition IS_TWOBYTE_COMMAND :: "bytes \<Rightarrow> u8 \<Rightarrow> u8 \<Rightarrow> bool" where
  "IS_TWOBYTE_COMMAND dataarr cb1 cb2 = (dataarr ! 0 = cb1 \<and> dataarr ! 1 = cb2)"

abbreviation one_byte :: "dfu \<Rightarrow> u8 \<Rightarrow> bool" where
  "one_byte s c \<equiv> IS_ONEBYTE_COMMAND (Data (SentCommand s)) c"

abbreviation two_byte :: "dfu \<Rightarrow> u8 \<Rightarrow> u8 \<Rightarrow> bool" where
  "two_byte s c d \<equiv> IS_TWOBYTE_COMMAND (Data (SentCommand s)) c d"

text \<open>The union of the 16-bit address and the 64 KB page number.\<close>

definition long_address :: "dfu \<Rightarrow> u32" where
  "long_address s = ucast (StartAddr s) OR push_bit 16 (ucast (Flash64KBPage s))"

section \<open>Commands\<close>

definition LoadStartEndAddresses :: "dfu \<Rightarrow> dfu" where
  "LoadStartEndAddresses s = s\<lparr>StartAddr := word16_of (cdata s 2) (cdata s 1),
     EndAddr := word16_of (cdata s 4) (cdata s 3)\<rparr>"

definition ProcessMemProgCommand :: "dfu \<Rightarrow> dfu" where
  "ProcessMemProgCommand s =
     (if one_byte s 0x00 \<or> one_byte s 0x01
      then let s = LoadStartEndAddresses s;
               s = (if one_byte s 0x00 then s\<lparr>Mcu := boot_page_erase (long_address s) (Mcu s)\<rparr> else s)
           in s\<lparr>DFU_State := dfuDNLOAD_IDLE\<rparr>
      else s)"

text \<open>The first address of the list whose byte is not blank.\<close>

fun find_nonblank :: "nat list \<Rightarrow> mcu \<Rightarrow> nat option option" where
  "find_nonblank [] m = Some None"
| "find_nonblank (a # as) m = do {
     b \<leftarrow> pgm_read_byte_far (of_nat a) m;
     if b \<noteq> 0xFF then Some (Some a) else find_nonblank as m
   }"

definition ProcessMemReadCommand :: "dfu \<Rightarrow> dfu option" where
  "ProcessMemReadCommand s =
     (if one_byte s 0x00 \<or> one_byte s 0x02
      then Some ((LoadStartEndAddresses s)\<lparr>DFU_State := dfuUPLOAD_IDLE\<rparr>)
      else if one_byte s 0x01
      then do {
        found \<leftarrow> find_nonblank [0..<BOOT_START_ADDR] (Mcu s);
        case found of
          None \<Rightarrow> Some s
        | Some a \<Rightarrow> Some (s\<lparr>Flash64KBPage := of_nat (a div 65536), StartAddr := of_nat a,
            DFU_State := dfuERROR, DFU_Status := errCHECK_ERASED\<rparr>)
      }
      else Some s)"

definition ProcessWriteCommand :: "dfu \<Rightarrow> dfu option" where
  "ProcessWriteCommand s =
     (if one_byte s 0x03
      then let s = s\<lparr>WaitForExit := True\<rparr> in
        if DataSize (SentCommand s) \<noteq> 0
        then if cdata s 1 = 0x01 then Some (s\<lparr>AppStartPtr := word16_of (cdata s 4) (cdata s 3)\<rparr>) else Some s
        else if cdata s 1 = 0x00 then Some (s\<lparr>MagicBootKey := MAGIC_BOOT_KEY, Watchdog := True\<rparr>)
        else Some (s\<lparr>RunBootloader := False\<rparr>)
      else if two_byte s 0x00 0xFF
      then do {
        m \<leftarrow> erase_pages application_pages (Mcu s);
        Some (s\<lparr>Mcu := boot_rww_enable m, IsSecure := False\<rparr>)
      }
      else Some s)"

definition ProcessReadCommand :: "dfu \<Rightarrow> dfu option" where
  "ProcessReadCommand s =
     (let BootloaderInfo = [BOOTLOADER_VERSION, BOOTLOADER_ID_BYTE1, BOOTLOADER_ID_BYTE2];
          SignatureInfo = [AVR_SIGNATURE_1, AVR_SIGNATURE_2, AVR_SIGNATURE_3];
          DataIndexToRead = uint (cdata s 1) in
      if one_byte s 0x00 then do { b \<leftarrow> arr_rd BootloaderInfo (nat DataIndexToRead); Some (s\<lparr>ResponseByte := b\<rparr>) }
      else if one_byte s 0x01
      then if DataIndexToRead < 0x30 then None
           else do { b \<leftarrow> arr_rd SignatureInfo (nat (DataIndexToRead - 0x30)); Some (s\<lparr>ResponseByte := b\<rparr>) }
      else Some s)"

definition ProcessBootloaderCommand :: "dfu \<Rightarrow> dfu option" where
  "ProcessBootloaderCommand s =
     (if IsSecure s \<and> \<not> (Command (SentCommand s) = COMMAND_WRITE \<and> two_byte s 0x00 0xFF \<or>
                          Command (SentCommand s) = COMMAND_READ)
      then Some (s\<lparr>DFU_State := dfuERROR, DFU_Status := errWRITE, Stalled := True\<rparr>)
      else if Command (SentCommand s) = COMMAND_PROG_START then Some (ProcessMemProgCommand s)
      else if Command (SentCommand s) = COMMAND_DISP_DATA then ProcessMemReadCommand s
      else if Command (SentCommand s) = COMMAND_WRITE then ProcessWriteCommand s
      else if Command (SentCommand s) = COMMAND_READ then ProcessReadCommand s
      else if Command (SentCommand s) = COMMAND_CHANGE_BASE_ADDR
      then Some (if two_byte s 0x03 0x00 then s\<lparr>Flash64KBPage := cdata s 2\<rparr> else s)
      else Some s)"

section \<open>Data stages\<close>

text \<open>Giving the bank back and waiting for the next packet; without one no packet is received.\<close>

definition next_packet :: "usb \<Rightarrow> usb" where
  "next_packet u = wait_OUT (Endpoint_ClearOUT u)"

fun DiscardFillerBytes :: "nat \<Rightarrow> usb \<Rightarrow> usb option" where
  "DiscardFillerBytes 0 u = Some u"
| "DiscardFillerBytes (Suc NumberOfBytes) u =
     (if Endpoint_BytesInEndpoint u = 0
      then let u = next_packet u in
           if Endpoint_IsOUTReceived u then DiscardFillerBytes NumberOfBytes u else Some u
      else do {
        (_, u) \<leftarrow> Endpoint_Read_8 u;
        DiscardFillerBytes NumberOfBytes u
      })"

text \<open>The loops that program the flash and the EEPROM.\<close>

fun write_flash :: "nat \<Rightarrow> u32 \<Rightarrow> u32 \<Rightarrow> nat \<Rightarrow> mcu \<Rightarrow> usb \<Rightarrow> (bool \<times> mcu \<times> usb) option" where
  "write_flash 0 CurrFlashAddress CurrFlashPageStartAddress WordsInFlashPage m u = Some (False, m, u)"
| "write_flash (Suc WordsRemaining) CurrFlashAddress CurrFlashPageStartAddress WordsInFlashPage m u =
     (let u = (if Endpoint_BytesInEndpoint u = 0 then next_packet u else u) in
      if \<not> Endpoint_IsOUTReceived u then Some (True, m, u)
      else do {
        (w, u) \<leftarrow> Endpoint_Read_16_LE u;
        m \<leftarrow> boot_page_fill CurrFlashAddress w m;
        let WordsInFlashPage = WordsInFlashPage + 1;
        let CurrFlashAddress = CurrFlashAddress + 2;
        if WordsInFlashPage = SPM_PAGESIZE div 2 \<or> WordsRemaining = 0
        then do {
          m \<leftarrow> boot_page_write CurrFlashPageStartAddress m;
          if WordsRemaining \<noteq> 0
          then write_flash WordsRemaining CurrFlashAddress CurrFlashAddress 0 (boot_page_erase CurrFlashAddress m) u
          else write_flash WordsRemaining CurrFlashAddress CurrFlashPageStartAddress WordsInFlashPage m u
        }
        else write_flash WordsRemaining CurrFlashAddress CurrFlashPageStartAddress WordsInFlashPage m u
      })"

fun write_eeprom :: "nat \<Rightarrow> u16 \<Rightarrow> mcu \<Rightarrow> usb \<Rightarrow> (bool \<times> u16 \<times> mcu \<times> usb) option" where
  "write_eeprom 0 a m u = Some (False, a, m, u)"
| "write_eeprom (Suc BytesRemaining) a m u =
     (let u = (if Endpoint_BytesInEndpoint u = 0 then next_packet u else u) in
      if \<not> Endpoint_IsOUTReceived u then Some (True, a, m, u)
      else do {
        (b, u) \<leftarrow> Endpoint_Read_8 u;
        write_eeprom BytesRemaining (a + 1) (eeprom_write_byte a b m) u
      })"

text \<open>Room in the IN bank: a full bank is sent first.  Without a host the source returns.\<close>

definition room_IN :: "usb \<Rightarrow> bool \<times> usb" where
  "room_IN u = (if length (InBank u) = FIXED_CONTROL_ENDPOINT_SIZE
     then let u = Endpoint_ClearIN u in (Unattached u, u) else (False, u))"

fun read_flash :: "nat \<Rightarrow> u32 \<Rightarrow> mcu \<Rightarrow> usb \<Rightarrow> (bool \<times> usb) option" where
  "read_flash 0 CurrFlashAddress m u = Some (False, u)"
| "read_flash (Suc WordsRemaining) CurrFlashAddress m u =
     (let (gone, u) = room_IN u in
      if gone then Some (True, u)
      else do {
        w \<leftarrow> pgm_read_word_far CurrFlashAddress m;
        read_flash WordsRemaining (CurrFlashAddress + 2) m (Endpoint_Write_16_LE w u)
      })"

fun read_eeprom :: "nat \<Rightarrow> u16 \<Rightarrow> mcu \<Rightarrow> usb \<Rightarrow> bool \<times> u16 \<times> usb" where
  "read_eeprom 0 a m u = (False, a, u)"
| "read_eeprom (Suc BytesRemaining) a m u =
     (let (gone, u) = room_IN u in
      if gone then (True, a, u)
      else read_eeprom BytesRemaining (a + 1) m (Endpoint_Write_8 (eeprom_read_byte a m) u))"

section \<open>Requests\<close>

record USB_Request_Header_t =
  bmRequestType :: u8
  bRequest :: u8
  wValue :: u16
  wIndex :: u16
  wLength :: u16

definition REQDIR_DEVICETOHOST :: u8 where
  "REQDIR_DEVICETOHOST = 0x80"

definition Endpoint_ClearStatusStage :: "USB_Request_Header_t \<Rightarrow> usb \<Rightarrow> usb" where
  "Endpoint_ClearStatusStage req u =
     (if bmRequestType req AND REQDIR_DEVICETOHOST \<noteq> 0
      then let u = wait_OUT u in if Endpoint_IsOUTReceived u then Endpoint_ClearOUT u else u
      else if Unattached u then u else Endpoint_ClearIN u)"

definition status_stage :: "USB_Request_Header_t \<Rightarrow> dfu \<Rightarrow> dfu" where
  "status_stage req s = s\<lparr>Usb := Endpoint_ClearStatusStage req (Usb s)\<rparr>"

text \<open>Loading the command and up to five bytes of its data.\<close>

fun load_data :: "nat \<Rightarrow> nat \<Rightarrow> DFU_Command_t \<Rightarrow> usb \<Rightarrow> (DFU_Command_t \<times> usb) option" where
  "load_data 0 DataByte c u = Some (c, u)"
| "load_data (Suc n) DataByte c u =
     (if Endpoint_BytesInEndpoint u = 0 then Some (c, u)
      else do {
        (b, u) \<leftarrow> Endpoint_Read_8 u;
        load_data n (DataByte + 1) (c\<lparr>Data := (Data c)[DataByte := b], DataSize := DataSize c - 1\<rparr>) u
      })"

definition load_command :: "dfu \<Rightarrow> dfu option" where
  "load_command s = do {
     (b, u) \<leftarrow> Endpoint_Read_8 (Usb s);
     let c = (SentCommand s)\<lparr>Command := b, DataSize := DataSize (SentCommand s) - 1\<rparr>;
     (c, u) \<leftarrow> load_data 5 0 c u;
     Some (s\<lparr>SentCommand := c, Usb := u\<rparr>)
   }"

text \<open>The firmware that follows a programming command in the same request.\<close>

definition receive_firmware :: "dfu \<Rightarrow> (bool \<times> dfu) option" where
  "receive_firmware s = do {
     u \<leftarrow> DiscardFillerBytes (unat DFU_FILLER_BYTES_SIZE) (Usb s);
     u \<leftarrow> DiscardFillerBytes (unat (StartAddr s) mod FIXED_CONTROL_ENDPOINT_SIZE) u;
     let BytesRemaining = EndAddr s - StartAddr s + 1;
     (gone, s) \<leftarrow>
       (if one_byte s 0x00
        then do {
          let a = long_address s;
          (gone, m, u) \<leftarrow> write_flash (unat (drop_bit 1 BytesRemaining)) a a 0 (Mcu s) u;
          if gone then Some (True, s\<lparr>Mcu := m, Usb := u\<rparr>)
          else Some (False, s\<lparr>Mcu := boot_rww_enable m, Usb := u, StartAddr := EndAddr s\<rparr>)
        }
        else do {
          (gone, a, m, u) \<leftarrow> write_eeprom (unat BytesRemaining) (StartAddr s) (Mcu s) u;
          Some (gone, s\<lparr>Mcu := m, Usb := u, StartAddr := a\<rparr>)
        });
     if gone then Some (True, s)
     else do {
       u \<leftarrow> DiscardFillerBytes (unat DFU_FILE_SUFFIX_SIZE) (Usb s);
       Some (False, s\<lparr>Usb := u\<rparr>)
     }
   }"

definition DFU_dnload :: "USB_Request_Header_t \<Rightarrow> dfu \<Rightarrow> dfu option" where
  "DFU_dnload req s = do {
     s \<leftarrow> (if WaitForExit s
           then do { s \<leftarrow> ProcessBootloaderCommand s; Some (s\<lparr>WaitForExit := False\<rparr>) }
           else Some s);
     (gone, s) \<leftarrow>
       (if DataSize (SentCommand s) \<noteq> 0
        then do {
          let s = s\<lparr>Usb := wait_OUT (Usb s)\<rparr>;
          if \<not> Endpoint_IsOUTReceived (Usb s) then Some (True, s)
          else do {
            s \<leftarrow> load_command s;
            s \<leftarrow> ProcessBootloaderCommand s;
            Some (False, s)
          }
        }
        else Some (False, s));
     (gone, s) \<leftarrow>
       (if gone then Some (True, s)
        else if DFU_State s = dfuDNLOAD_IDLE
        then if DataSize (SentCommand s) = 0 then Some (False, s\<lparr>DFU_State := dfuIDLE\<rparr>)
             else receive_firmware s
        else Some (False, s));
     if gone then Some s
     else Some (status_stage req (s\<lparr>Usb := Endpoint_ClearOUT (Usb s)\<rparr>))
   }"

definition DFU_upload :: "USB_Request_Header_t \<Rightarrow> dfu \<Rightarrow> dfu option" where
  "DFU_upload req s =
     (if Unattached (Usb s) then Some s
      else do {
        (gone, s) \<leftarrow>
          (if DFU_State s \<noteq> dfuUPLOAD_IDLE
           then if DFU_State s = dfuERROR \<and> one_byte s 0x01
                then Some (False, s\<lparr>Usb := Endpoint_Write_16_LE (StartAddr s) (Usb s)\<rparr>)
                else Some (False, s\<lparr>Usb := Endpoint_Write_8 (ResponseByte s) (Usb s)\<rparr>)
           else do {
             let BytesRemaining = EndAddr s - StartAddr s + 1;
             (gone, s) \<leftarrow>
               (if one_byte s 0x00
                then do {
                  (gone, u) \<leftarrow> read_flash (unat (drop_bit 1 BytesRemaining)) (long_address s) (Mcu s) (Usb s);
                  Some (gone, if gone then s\<lparr>Usb := u\<rparr> else s\<lparr>Usb := u, StartAddr := EndAddr s\<rparr>)
                }
                else if one_byte s 0x02
                then let (gone, a, u) = read_eeprom (unat BytesRemaining) (StartAddr s) (Mcu s) (Usb s)
                     in Some (gone, s\<lparr>Usb := u, StartAddr := a\<rparr>)
                else Some (False, s));
             Some (gone, if gone then s else s\<lparr>DFU_State := dfuIDLE\<rparr>)
           });
        if gone then Some s
        else Some (status_stage req (s\<lparr>Usb := Endpoint_ClearIN (Usb s)\<rparr>))
      })"

definition write_bytes :: "bytes \<Rightarrow> dfu \<Rightarrow> dfu" where
  "write_bytes bs s = s\<lparr>Usb := fold Endpoint_Write_8 bs (Usb s)\<rparr>"

definition send_bytes :: "USB_Request_Header_t \<Rightarrow> bytes \<Rightarrow> dfu \<Rightarrow> dfu" where
  "send_bytes req bs s = (let s = write_bytes bs s in status_stage req (s\<lparr>Usb := Endpoint_ClearIN (Usb s)\<rparr>))"

text \<open>The requests that report or reset the status and the state.\<close>

definition DFU_status_request :: "USB_Request_Header_t \<Rightarrow> dfu \<Rightarrow> dfu option" where
  "DFU_status_request req s =
     (if bRequest req = DFU_REQ_GETSTATUS
      then Some (send_bytes req [status_code (DFU_Status s), 0, 0, 0, state_code (DFU_State s), 0] s)
      else if bRequest req = DFU_REQ_CLRSTATUS then Some (status_stage req (s\<lparr>DFU_Status := OK\<rparr>))
      else if bRequest req = DFU_REQ_GETSTATE then Some (send_bytes req [state_code (DFU_State s)] s)
      else if bRequest req = DFU_REQ_ABORT then Some (status_stage req (s\<lparr>DFU_State := dfuIDLE\<rparr>))
      else Some s)"

definition EVENT_USB_Device_ControlRequest :: "USB_Request_Header_t \<Rightarrow> dfu \<Rightarrow> dfu option" where
  "EVENT_USB_Device_ControlRequest req s =
     (if bmRequestType req AND (0x60 OR 0x1F) \<noteq> (0x20 OR 0x01) then Some s
      else
        let s = s\<lparr>SentCommand := (SentCommand s)\<lparr>DataSize := wLength req\<rparr>\<rparr> in
        if bRequest req = DFU_REQ_DNLOAD then DFU_dnload req s
        else if bRequest req = DFU_REQ_UPLOAD then DFU_upload req s
        else DFU_status_request req s)"

text \<open>A sequence of requests, each with the packets of its stages; the loop of \<^verbatim>\<open>main\<close> ends when the
  bootloader is to be left.\<close>

fun dfu_main :: "(USB_Request_Header_t \<times> bytes list) list \<Rightarrow> dfu \<Rightarrow> dfu option" where
  "dfu_main [] s = Some s"
| "dfu_main ((req, ps) # rs) s =
     (if \<not> (RunBootloader s \<or> WaitForExit s) then Some s
      else do {
        s \<leftarrow> EVENT_USB_Device_ControlRequest req
          (s\<lparr>Stalled := False, Usb := (Usb s)\<lparr>Bank := None, Incoming := ps\<rparr>\<rparr>);
        dfu_main rs s
      })"

section \<open>Reading words from even packets\<close>

definition even_packets :: "usb \<Rightarrow> bytes \<Rightarrow> bool" where
  "even_packets u bs = (pending u = bs \<and> even (Endpoint_BytesInEndpoint u) \<and>
     list_all (\<lambda>p. p \<noteq> [] \<and> even (length p)) (Incoming u))"

text \<open>The side of the endpoint that sends is not touched.\<close>

definition same_IN :: "usb \<Rightarrow> usb \<Rightarrow> bool" where
  "same_IN u u' = (InBank u' = InBank u \<and> InPackets u' = InPackets u \<and> Unattached u' = Unattached u)"

lemma same_IN_refl [simp]: "same_IN u u"
  by (simp add: same_IN_def)

lemma same_IN_trans: "same_IN u v \<Longrightarrow> same_IN v w \<Longrightarrow> same_IN u w"
  by (simp add: same_IN_def)

lemma read_word:
  assumes "even_packets u (a # b # r)"
  shows "\<exists>u1 u'. (if Endpoint_BytesInEndpoint u = 0 then next_packet u else u) = u1 \<and>
    Endpoint_IsOUTReceived u1 \<and> Endpoint_Read_16_LE u1 = Some (word16_of a b, u') \<and>
    even_packets u' r \<and> same_IN u u'"
proof (cases "Endpoint_BytesInEndpoint u = 0")
  case True
  then obtain p ps where inc: "Incoming u = p # ps"
    using assms by (cases "Incoming u") (auto simp: even_packets_def pending_def Endpoint_BytesInEndpoint_def split: option.splits)
  with True assms have "p @ concat ps = a # b # r" "p \<noteq> []" "even (length p)"
    by (auto simp: even_packets_def pending_def Endpoint_BytesInEndpoint_def split: option.splits)
  then obtain p' where p: "p = a # b # p'"
    by (cases p; cases "tl p") auto
  show ?thesis
    using True assms inc p
    by (auto simp: even_packets_def pending_def next_packet_def wait_OUT_def Endpoint_ClearOUT_def same_IN_def
        Endpoint_IsOUTReceived_def Endpoint_Read_16_LE_def Endpoint_Read_8_def Endpoint_BytesInEndpoint_def
        split: option.splits)
next
  case False
  then obtain p where "Bank u = Some p" "p \<noteq> []" "even (length p)" "p @ concat (Incoming u) = a # b # r"
    using assms by (auto simp: even_packets_def pending_def Endpoint_BytesInEndpoint_def split: option.splits)
  then obtain p' where "Bank u = Some (a # b # p')"
    by (cases p; cases "tl p") auto
  then show ?thesis
    using False assms
    by (auto simp: even_packets_def pending_def same_IN_def Endpoint_IsOUTReceived_def Endpoint_Read_16_LE_def
        Endpoint_Read_8_def Endpoint_BytesInEndpoint_def)
qed

section \<open>Programming\<close>

text \<open>The bytes \<open>pre\<close> of the current page are in the buffer; the page has been erased.\<close>

lemma write_flash_ok:
  assumes "even_packets u (bs @ r)" "bs \<noteq> []" "even (length bs)" "even (length pre)" "length pre < SPM_PAGESIZE"
    and "flash_index P mod SPM_PAGESIZE = 0" "flash_index P + length pre + length bs \<le> FLASHEND"
    and "PageBuffer m = Map.empty"
  shows "\<exists>u' x. write_flash (length bs div 2) (P + of_nat (length pre)) P (length pre div 2)
      ((boot_page_erase P m)\<lparr>PageBuffer := buf_of (words_of pre)\<rparr>) u =
      Some (False, m\<lparr>Flash := programmed (flash_index P) (pre @ bs) (Flash m), RwwEnabled := x\<rparr>, u') \<and>
    even_packets u' r \<and> same_IN u u'"
  using assms
proof (induction bs arbitrary: u pre P m rule: words_of.induct [case_names Pair Nil Single])
  case (Pair a b bs)
  let ?a = "P + of_nat (length pre)" and ?m = "(boot_page_erase P m)\<lparr>PageBuffer := buf_of (words_of pre)\<rparr>"
  let ?pre = "pre @ [a, b]"
  from read_word [of u a b "bs @ r"] Pair.prems(1) obtain u1 u2 where
    u: "(if Endpoint_BytesInEndpoint u = 0 then next_packet u else u) = u1" "Endpoint_IsOUTReceived u1"
      "Endpoint_Read_16_LE u1 = Some (word16_of a b, u2)" "even_packets u2 (bs @ r)" "same_IN u u2"
    by auto
  have idx: "flash_index ?a = flash_index P + length pre"
    using Pair.prems(7) by (intro flash_index_add) simp
  have words: "words_of ?pre = words_of pre @ [word16_of a b]"
    using words_of_append [OF Pair.prems(4), of a b "[]"] by simp
  have "flash_index ?a mod SPM_PAGESIZE = 2 * length (words_of pre)"
    using Pair.prems(4-6) by (simp add: idx mod_add_left_eq [symmetric] length_words_of)
  then have fill: "boot_page_fill ?a (word16_of a b) ?m =
      Some ((boot_page_erase P m)\<lparr>PageBuffer := buf_of (words_of ?pre)\<rparr>)"
    using fill_next [of ?a "words_of pre" ?m "word16_of a b"] by (simp add: words)
  have next_addr: "?a + 2 = P + of_nat (length ?pre)"
    by (simp add: algebra_simps)
  have count: "length pre div 2 + 1 = length ?pre div 2" "even (length ?pre)"
    using Pair.prems(4) by simp_all
  have full: "length pre div 2 + 1 = SPM_PAGESIZE div 2 \<longleftrightarrow> length ?pre = SPM_PAGESIZE"
    using Pair.prems(4) by (auto simp: SPM_PAGESIZE_def elim!: evenE)
  let ?M = "(boot_page_erase P m)\<lparr>PageBuffer := buf_of (words_of ?pre)\<rparr>"
  have zero: "length bs div 2 = 0 \<longleftrightarrow> bs = []"
    using Pair.prems(3) by (auto elim!: evenE)
  have step: "write_flash (length (a # b # bs) div 2) ?a P (length pre div 2) ?m u =
    (if length ?pre = SPM_PAGESIZE \<or> bs = []
     then do {
       m' \<leftarrow> boot_page_write P ?M;
       if bs \<noteq> [] then write_flash (length bs div 2) (?a + 2) (?a + 2) 0 (boot_page_erase (?a + 2) m') u2
       else Some (False, m', u2)
     }
     else write_flash (length bs div 2) (?a + 2) P (length ?pre div 2) ?M u2)"
    using u(1-3) fill full zero count(1) by (cases "bs = []") (simp_all add: Let_def)
  show ?case
  proof (cases "length ?pre = SPM_PAGESIZE \<or> bs = []")
    case False
    then have "length ?pre < SPM_PAGESIZE"
      using Pair.prems(4,5) by (auto simp: SPM_PAGESIZE_def elim!: evenE)
    with Pair.IH [of u2 ?pre P m] u(4) False Pair.prems obtain u' x where
      "write_flash (length bs div 2) (P + of_nat (length ?pre)) P (length ?pre div 2) ?M u2 =
        Some (False, m\<lparr>Flash := programmed (flash_index P) (?pre @ bs) (Flash m), RwwEnabled := x\<rparr>, u')"
      "even_packets u' r" "same_IN u2 u'"
      by auto
    with False step next_addr same_IN_trans [OF u(5)] show ?thesis
      by (intro exI [of _ u'] exI [of _ x]) simp
  next
    case True
    let ?m1 = "m\<lparr>Flash := with_page (flash_index P) ?pre (Flash m), RwwEnabled := rww_after P m\<rparr>"
    have w: "boot_page_write P ?M = Some ?m1"
      using program_page [OF count(2), of P m] Pair.prems(8) by simp
    show ?thesis
    proof (cases "bs = []")
      case True
      moreover have "length ?pre \<le> SPM_PAGESIZE"
        using Pair.prems(4,5) by (auto simp: SPM_PAGESIZE_def elim!: evenE)
      ultimately show ?thesis
        using step w u(4,5) programmed_page [OF Pair.prems(6), of ?pre] by auto
    next
      case False
      then have pre: "length ?pre = SPM_PAGESIZE"
        using True by simp
      let ?P = "P + of_nat SPM_PAGESIZE"
      have P: "?a + 2 = ?P" "flash_index ?P = flash_index P + SPM_PAGESIZE"
        using next_addr [unfolded pre] Pair.prems(7) pre flash_index_add [of P SPM_PAGESIZE] by simp_all
      have "(boot_page_erase ?P ?m1)\<lparr>PageBuffer := buf_of (words_of [])\<rparr> = boot_page_erase ?P ?m1"
        using Pair.prems(8) by (simp add: boot_page_erase_def)
      with Pair.IH [of u2 "[]" ?P ?m1] u(4) False Pair.prems P(2) pre obtain u' x where
        "write_flash (length bs div 2) ?P ?P 0 (boot_page_erase ?P ?m1) u2 =
          Some (False, ?m1\<lparr>Flash := programmed (flash_index P + SPM_PAGESIZE) bs (Flash ?m1), RwwEnabled := x\<rparr>, u')"
        "even_packets u' r" "same_IN u2 u'"
        by (auto simp: SPM_PAGESIZE_def)
      with pre False step w P(1) same_IN_trans [OF u(5)] programmed_next [OF Pair.prems(6) False pre] show ?thesis
        by (intro exI [of _ u'] exI [of _ x]) simp
    qed
  qed
qed auto

section \<open>Reading back\<close>

lemma read_flash_ok:
  assumes "RwwEnabled m" "\<not> Unattached u" "flash_index a + 2 * k \<le> FLASHEND"
  shows "\<exists>u'. read_flash k a m u = Some (False, u') \<and>
    written u' = written u @ map (Flash m) [flash_index a..<flash_index a + 2 * k] \<and>
    Bank u' = Bank u \<and> Incoming u' = Incoming u \<and> \<not> Unattached u'"
  using assms
proof (induction k arbitrary: a u)
  case (Suc k)
  let ?w = "word16_of (Flash m (flash_index a)) (Flash m (flash_index a + 1))"
  obtain u1 where u1: "room_IN u = (False, u1)" "written u1 = written u" "Bank u1 = Bank u" "Incoming u1 = Incoming u"
    "\<not> Unattached u1"
    using Suc.prems(2)
    by (cases "length (InBank u) = FIXED_CONTROL_ENDPOINT_SIZE")
      (auto simp: room_IN_def Endpoint_ClearIN_def written_def Let_def)
  have word: "pgm_read_word_far a m = Some ?w"
    using Suc.prems(1,3) flash_index_add [of a 1] by (simp add: pgm_read_word_far_def pgm_read_byte_far_def)
  have idx: "flash_index (a + 2) = flash_index a + 2"
    using Suc.prems(3) flash_index_add [of a 2] by simp
  have "[flash_index a..<flash_index a + 2 * Suc k] =
      [flash_index a, flash_index a + 1] @ [flash_index a + 2..<flash_index a + 2 + 2 * k]"
    by (simp add: upt_conv_Cons)
  moreover from Suc.IH [of "Endpoint_Write_16_LE ?w u1" "a + 2"] Suc.prems u1(5) idx obtain u' where
    "read_flash k (a + 2) m (Endpoint_Write_16_LE ?w u1) = Some (False, u')"
    "written u' = written (Endpoint_Write_16_LE ?w u1) @ map (Flash m) [flash_index a + 2..<flash_index a + 2 + 2 * k]"
    "Bank u' = Bank u1" "Incoming u' = Incoming u1" "\<not> Unattached u'"
    by (auto simp: Endpoint_Write_16_LE_def)
  ultimately show ?case
    using u1 word by (intro exI [of _ u']) (simp add: Endpoint_Write_16_LE_def written_def)
qed simp

lemma long_address_index:
  assumes "unat (Flash64KBPage s) < 2"
  shows "flash_index (long_address s) = 65536 * unat (Flash64KBPage s) + unat (StartAddr s)"
proof -
  have "long_address s = ucast (StartAddr s) + push_bit 16 (ucast (Flash64KBPage s))"
    unfolding long_address_def
    by (rule disjunctive_add [symmetric]) (auto simp: bit_simps dest: bit_imp_le_length)
  then have "unat (long_address s) = 65536 * unat (Flash64KBPage s) + unat (StartAddr s)"
    using assms unat_bound [of "StartAddr s"]
    by (simp add: push_bit_eq_mult unat_word_ariths unsigned_ucast_eq take_bit_nat_eq_self)
  then show ?thesis
    using assms unat_bound [of "StartAddr s"] by (simp add: flash_index_def FLASHEND_def)
qed

section \<open>Stages of a request\<close>

lemma load_command_ok:
  assumes "Bank (Usb s) = Some (c # d0 # d1 # d2 # d3 # d4 # rest)" "length (Data (SentCommand s)) = 5"
  shows "load_command s = Some (s\<lparr>SentCommand := \<lparr>Command = c, Data = [d0, d1, d2, d3, d4],
      DataSize = DataSize (SentCommand s) - 6\<rparr>, Usb := (Usb s)\<lparr>Bank := Some rest\<rparr>\<rparr>)"
proof -
  obtain x0 x1 x2 x3 x4 where "Data (SentCommand s) = [x0, x1, x2, x3, x4]"
    using assms(2) by (auto simp: length_Suc_conv eval_nat_numeral)
  then show ?thesis
    using assms(1)
    by (cases "SentCommand s")
      (simp add: load_command_def Endpoint_Read_8_def Endpoint_BytesInEndpoint_def eval_nat_numeral Let_def)
qed

lemma discard_bank:
  "Bank u = Some (xs @ rest) \<Longrightarrow> DiscardFillerBytes (length xs) u = Some (u\<lparr>Bank := Some rest\<rparr>)"
  by (induction xs arbitrary: u) (auto simp: Endpoint_BytesInEndpoint_def Endpoint_Read_8_def)

lemma discard_pending:
  assumes "n \<le> length (pending u)" "[] \<notin> set (Incoming u)"
  shows "\<exists>u'. DiscardFillerBytes n u = Some u' \<and> same_IN u u'"
  using assms
proof (induction n arbitrary: u)
  case (Suc n)
  show ?case
  proof (cases "Endpoint_BytesInEndpoint u = 0")
    case True
    with Suc.prems obtain p ps where inc: "Incoming u = p # ps"
      by (cases "Incoming u") (auto simp: pending_def Endpoint_BytesInEndpoint_def split: option.splits)
    let ?u = "u\<lparr>Bank := Some p, Incoming := ps\<rparr>"
    have "next_packet u = ?u" "length (pending ?u) = length (pending u)"
      using True inc by (auto simp: next_packet_def wait_OUT_def Endpoint_ClearOUT_def pending_def
          Endpoint_BytesInEndpoint_def split: option.splits)
    with Suc.IH [of ?u] Suc.prems True inc show ?thesis
      by (auto simp: Endpoint_IsOUTReceived_def same_IN_def)
  next
    case False
    then obtain b bs where "Bank u = Some (b # bs)"
      by (auto simp: Endpoint_BytesInEndpoint_def neq_Nil_conv split: option.splits)
    with Suc.IH [of "u\<lparr>Bank := Some bs\<rparr>"] Suc.prems False show ?thesis
      by (auto simp: Endpoint_Read_8_def pending_def same_IN_def)
  qed
qed auto

text \<open>With an empty bank the first of the bytes to discard only fetches the next packet, so that one
  byte too few is discarded.\<close>

lemma discard_short:
  assumes "Endpoint_BytesInEndpoint u = 0" "Incoming u = (xs @ rest) # ps"
  shows "DiscardFillerBytes (Suc (length xs)) u = Some (u\<lparr>Bank := Some rest, Incoming := ps\<rparr>)"
proof -
  have "next_packet u = u\<lparr>Bank := Some (xs @ rest), Incoming := ps\<rparr>"
    using assms(2) by (simp add: next_packet_def wait_OUT_def Endpoint_ClearOUT_def)
  then show ?thesis
    using assms(1) discard_bank [of "u\<lparr>Bank := Some (xs @ rest), Incoming := ps\<rparr>" xs rest]
    by (simp add: Endpoint_IsOUTReceived_def)
qed

section \<open>A complete download and upload\<close>

text \<open>The endpoint between two requests.\<close>

definition idle_dfu :: "dfu \<Rightarrow> bool" where
  "idle_dfu s = (\<not> Unattached (Usb s) \<and> InBank (Usb s) = [] \<and> RunBootloader s \<and> \<not> WaitForExit s \<and>
     \<not> IsSecure s \<and> length (Data (SentCommand s)) = 5)"

definition dfu_request :: "u8 \<Rightarrow> nat \<Rightarrow> USB_Request_Header_t" where
  "dfu_request code n = \<lparr>bmRequestType = (if code = DFU_REQ_UPLOAD then 0xA1 else 0x21), bRequest = code,
     wValue = 0, wIndex = 0, wLength = of_nat n\<rparr>"

lemma receive_flash_ok:
  assumes "Bank (Usb s) = Some filler" "length filler = 26" "concat (Incoming (Usb s)) = bs @ suffix" "length suffix = 16"
    and "list_all (\<lambda>p. p \<noteq> [] \<and> even (length p)) (Incoming (Usb s))"
    and "unat (StartAddr s) mod SPM_PAGESIZE = 0" "EndAddr s = StartAddr s + of_nat (length bs) - 1"
    and "bs \<noteq> []" "even (length bs)" "length bs < 65536" "unat (Flash64KBPage s) < 2"
    and "a = 65536 * unat (Flash64KBPage s) + unat (StartAddr s)" "a + length bs \<le> FLASHEND"
    and "one_byte s 0x00" "Mcu s = boot_page_erase (long_address s) m" "PageBuffer m = Map.empty"
  shows "\<exists>u. receive_firmware s = Some (False, s\<lparr>Mcu := m\<lparr>Flash := programmed a bs (Flash m), RwwEnabled := True\<rparr>,
      StartAddr := EndAddr s, Usb := u\<rparr>) \<and> same_IN (Usb s) u"
proof -
  let ?u = "(Usb s)\<lparr>Bank := Some []\<rparr>"
  have d1: "DiscardFillerBytes (unat DFU_FILLER_BYTES_SIZE) (Usb s) = Some ?u"
    using discard_bank [of "Usb s" filler "[]"] assms(1,2) by (simp add: DFU_FILLER_BYTES_SIZE_def)
  have "unat (StartAddr s) mod FIXED_CONTROL_ENDPOINT_SIZE = 0"
    using assms(6) mod_mod_cancel [of 32 256 "unat (StartAddr s)"]
    by (simp add: SPM_PAGESIZE_def FIXED_CONTROL_ENDPOINT_SIZE_def)
  then have d2: "DiscardFillerBytes (unat (StartAddr s) mod FIXED_CONTROL_ENDPOINT_SIZE) ?u = Some ?u"
    by simp
  have "EndAddr s - StartAddr s + 1 = of_nat (length bs)"
    by (simp add: assms(7))
  then have n: "unat (drop_bit 1 (EndAddr s - StartAddr s + 1)) = length bs div 2"
    using assms(10) by (simp only: unat_drop_bit_eq) (simp add: drop_bit_eq_div unat_u16)
  have idx: "flash_index (long_address s) = a"
    using long_address_index [OF assms(11)] assms(12) by simp
  have "a mod SPM_PAGESIZE = 0"
    using assms(6) mod_mult_self4 [of 256 "256 * unat (Flash64KBPage s)" "unat (StartAddr s)"]
    by (simp add: assms(12) SPM_PAGESIZE_def)
  moreover have "even_packets ?u (bs @ suffix)"
    using assms(3,5) by (simp add: even_packets_def pending_def Endpoint_BytesInEndpoint_def)
  moreover have "(boot_page_erase (long_address s) m)\<lparr>PageBuffer := buf_of (words_of [])\<rparr> = Mcu s"
    using assms(15,16) by (simp add: boot_page_erase_def)
  ultimately obtain u x where
    w: "write_flash (length bs div 2) (long_address s) (long_address s) 0 (Mcu s) ?u =
      Some (False, m\<lparr>Flash := programmed a bs (Flash m), RwwEnabled := x\<rparr>, u)"
      "even_packets u suffix" "same_IN ?u u"
    using write_flash_ok [of ?u bs suffix "[]" "long_address s" m] assms(8,9,13,16) idx
    by (auto simp: SPM_PAGESIZE_def)
  obtain u' where d3: "DiscardFillerBytes (unat DFU_FILE_SUFFIX_SIZE) u = Some u'" "same_IN u u'"
    using discard_pending [of 16 u] w(2) assms(4)
    by (auto simp: even_packets_def list_all_iff DFU_FILE_SUFFIX_SIZE_def)
  have "same_IN (Usb s) u'"
    using w(3) d3(2) by (simp add: same_IN_def)
  then show ?thesis
    using d1 d2 n w(1) d3(1) assms(14,16) by (intro exI [of _ u']) (simp add: receive_firmware_def boot_rww_enable_def)
qed

text \<open>A programming command with its firmware, and a command to read it, as the host sends them.\<close>

definition dfu_command :: "u8 \<Rightarrow> u8 \<Rightarrow> u16 \<Rightarrow> u16 \<Rightarrow> bytes" where
  "dfu_command c d a e = [c, d, byte1 a, byte0 a, byte1 e, byte0 e]"

lemma request_class [simp]: "bmRequestType (dfu_request c n) AND 0x7F = 0x21"
  by (simp add: dfu_request_def)

lemma request_simps [simp]: "bRequest (dfu_request c n) = c" "wLength (dfu_request c n) = of_nat n"
  by (simp_all add: dfu_request_def)

lemma dnload_command:
  assumes "idle_dfu s" "(of_nat n :: u16) \<noteq> 0"
    and "ProcessBootloaderCommand (s\<lparr>Stalled := False,
      SentCommand := \<lparr>Command = c, Data = [d, byte1 a, byte0 a, byte1 e, byte0 e], DataSize = of_nat n - 6\<rparr>,
      Usb := (Usb s)\<lparr>Incoming := qs, Bank := Some rest\<rparr>\<rparr>) = Some t"
  shows "EVENT_USB_Device_ControlRequest (dfu_request DFU_REQ_DNLOAD n) (s\<lparr>Stalled := False,
      Usb := (Usb s)\<lparr>Bank := None, Incoming := (dfu_command c d a e @ rest) # qs\<rparr>\<rparr>) =
    do {
      (gone, s) \<leftarrow>
        (if DFU_State t = dfuDNLOAD_IDLE
         then if DataSize (SentCommand t) = 0 then Some (False, t\<lparr>DFU_State := dfuIDLE\<rparr>) else receive_firmware t
         else Some (False, t));
      if gone then Some s
      else Some (status_stage (dfu_request DFU_REQ_DNLOAD n) (s\<lparr>Usb := Endpoint_ClearOUT (Usb s)\<rparr>))
    }"
proof -
  let ?s = "s\<lparr>Stalled := False, SentCommand := (SentCommand s)\<lparr>DataSize := of_nat n\<rparr>,
    Usb := (Usb s)\<lparr>Bank := Some (dfu_command c d a e @ rest), Incoming := qs\<rparr>\<rparr>"
  have "load_command ?s = Some (s\<lparr>Stalled := False,
      SentCommand := \<lparr>Command = c, Data = [d, byte1 a, byte0 a, byte1 e, byte0 e], DataSize = of_nat n - 6\<rparr>,
      Usb := (Usb s)\<lparr>Incoming := qs, Bank := Some rest\<rparr>\<rparr>)"
    using assms(1) by (subst load_command_ok) (simp_all add: idle_dfu_def dfu_command_def)
  then show ?thesis
    using assms by (simp add: EVENT_USB_Device_ControlRequest_def DFU_dnload_def Let_def wait_OUT_def
        Endpoint_IsOUTReceived_def idle_dfu_def)
qed

lemma dnload_flash_ok:
  assumes "idle_dfu s" "PageBuffer (Mcu s) = Map.empty" "length filler = 26"
    and "concat qs = bs @ suffix" "length suffix = 16" "list_all (\<lambda>p. p \<noteq> [] \<and> even (length p)) qs"
    and "bs \<noteq> []" "even (length bs)" "length bs < 65536 - 48" "unat (Flash64KBPage s) < 2"
    and "unat st mod SPM_PAGESIZE = 0" "e = st + of_nat (length bs) - 1"
    and "a = 65536 * unat (Flash64KBPage s) + unat st" "a + length bs \<le> FLASHEND"
  shows "\<exists>s'. EVENT_USB_Device_ControlRequest (dfu_request DFU_REQ_DNLOAD (48 + length bs))
      (s\<lparr>Stalled := False, Usb := (Usb s)\<lparr>Bank := None,
        Incoming := (dfu_command COMMAND_PROG_START 0x00 st e @ filler) # qs\<rparr>\<rparr>) = Some s' \<and>
    idle_dfu s' \<and> Mcu s' = (Mcu s)\<lparr>Flash := programmed a bs (Flash (Mcu s)), RwwEnabled := True\<rparr> \<and>
    concat (InPackets (Usb s')) = concat (InPackets (Usb s)) \<and> Flash64KBPage s' = Flash64KBPage s"
proof -
  let ?u = "(Usb s)\<lparr>Incoming := qs, Bank := Some filler\<rparr>"
  let ?c = "\<lparr>Command = COMMAND_PROG_START, Data = [0x00, byte1 st, byte0 st, byte1 e, byte0 e],
    DataSize = of_nat (48 + length bs) - 6\<rparr>"
  define t where "t = s\<lparr>Stalled := False, SentCommand := ?c, Usb := ?u, StartAddr := st, EndAddr := e,
    Mcu := boot_page_erase (long_address (s\<lparr>StartAddr := st\<rparr>)) (Mcu s), DFU_State := dfuDNLOAD_IDLE\<rparr>"
  have "long_address t = long_address (s\<lparr>StartAddr := st\<rparr>)"
    by (simp add: t_def long_address_def)
  with receive_flash_ok [of t filler bs suffix a "Mcu s"] assms obtain u where
    r: "receive_firmware t = Some (False, t\<lparr>Mcu := (Mcu s)\<lparr>Flash := programmed a bs (Flash (Mcu s)), RwwEnabled := True\<rparr>,
      StartAddr := EndAddr t, Usb := u\<rparr>)" "same_IN ?u u"
    by (auto simp: t_def IS_ONEBYTE_COMMAND_def)
  have size: "(of_nat (48 + length bs) :: u16) \<noteq> 0" "(of_nat (48 + length bs) :: u16) - 6 \<noteq> 0"
    using assms(9) of_nat_u16_nonzero [of "48 + length bs"] of_nat_u16_nonzero [of "42 + length bs"] by simp_all
  let ?s = "s\<lparr>Stalled := False, SentCommand := ?c, Usb := ?u\<rparr>"
  have proc: "ProcessBootloaderCommand ?s = Some t"
    using assms(1)
    by (simp add: ProcessBootloaderCommand_def ProcessMemProgCommand_def LoadStartEndAddresses_def idle_dfu_def
        IS_ONEBYTE_COMMAND_def t_def long_address_def)
  show ?thesis
    using dnload_command [OF assms(1) size(1) proc] size(2) r assms(1)
    by (simp add: t_def status_stage_def Endpoint_ClearStatusStage_def same_IN_def idle_dfu_def dfu_request_def
        REQDIR_DEVICETOHOST_def DFU_REQ_DNLOAD_def DFU_REQ_UPLOAD_def Endpoint_ClearOUT_def Endpoint_ClearIN_def)
qed

lemma display_flash_ok:
  assumes "idle_dfu s"
  shows "\<exists>s'. EVENT_USB_Device_ControlRequest (dfu_request DFU_REQ_DNLOAD 6) (s\<lparr>Stalled := False,
      Usb := (Usb s)\<lparr>Bank := None, Incoming := [dfu_command COMMAND_DISP_DATA 0x00 st e]\<rparr>\<rparr>) = Some s' \<and>
    idle_dfu s' \<and> Mcu s' = Mcu s \<and> concat (InPackets (Usb s')) = concat (InPackets (Usb s)) \<and>
    Flash64KBPage s' = Flash64KBPage s \<and> StartAddr s' = st \<and> EndAddr s' = e \<and> DFU_State s' = dfuUPLOAD_IDLE \<and>
    one_byte s' 0x00"
proof -
  let ?s = "s\<lparr>Stalled := False, SentCommand := \<lparr>Command = COMMAND_DISP_DATA,
      Data = [0x00, byte1 st, byte0 st, byte1 e, byte0 e], DataSize = of_nat 6 - 6\<rparr>,
    Usb := (Usb s)\<lparr>Incoming := [], Bank := Some []\<rparr>\<rparr>"
  have "ProcessBootloaderCommand ?s = Some (?s\<lparr>StartAddr := st, EndAddr := e, DFU_State := dfuUPLOAD_IDLE\<rparr>)"
    using assms by (simp add: ProcessBootloaderCommand_def ProcessMemReadCommand_def LoadStartEndAddresses_def
        IS_ONEBYTE_COMMAND_def idle_dfu_def dfu_codes)
  from dnload_command [OF assms _ this] assms show ?thesis
    by (simp add: idle_dfu_def IS_ONEBYTE_COMMAND_def status_stage_def Endpoint_ClearStatusStage_def dfu_request_def
        REQDIR_DEVICETOHOST_def DFU_REQ_DNLOAD_def DFU_REQ_UPLOAD_def Endpoint_ClearOUT_def Endpoint_ClearIN_def)
qed

lemma upload_flash_ok:
  assumes "idle_dfu s" "DFU_State s = dfuUPLOAD_IDLE" "one_byte s 0x00" "RwwEnabled (Mcu s)" "unat (Flash64KBPage s) < 2"
    and "EndAddr s = StartAddr s + of_nat n - 1" "even n" "n < 65536"
    and "a = 65536 * unat (Flash64KBPage s) + unat (StartAddr s)" "a + n \<le> FLASHEND"
  shows "\<exists>s'. EVENT_USB_Device_ControlRequest (dfu_request DFU_REQ_UPLOAD n) (s\<lparr>Stalled := False,
      Usb := (Usb s)\<lparr>Bank := None, Incoming := [[]]\<rparr>\<rparr>) = Some s' \<and>
    idle_dfu s' \<and> Mcu s' = Mcu s \<and> DFU_State s' = dfuIDLE \<and>
    concat (InPackets (Usb s')) = concat (InPackets (Usb s)) @ map (Flash (Mcu s)) [a..<a + n]"
proof -
  let ?u = "(Usb s)\<lparr>Bank := None, Incoming := [[]]\<rparr>"
  let ?s = "s\<lparr>Stalled := False, Usb := ?u, SentCommand := (SentCommand s)\<lparr>DataSize := of_nat n\<rparr>\<rparr>"
  have "EndAddr s - StartAddr s + 1 = of_nat n"
    by (simp add: assms(6))
  then have n: "unat (drop_bit 1 (EndAddr s - StartAddr s + 1)) = n div 2"
    using assms(8) by (simp only: unat_drop_bit_eq) (simp add: drop_bit_eq_div unat_u16)
  have "long_address ?s = long_address s"
    by (simp add: long_address_def)
  then obtain u where u: "read_flash (n div 2) (long_address s) (Mcu s) ?u = Some (False, u)"
    "written u = written ?u @ map (Flash (Mcu s)) [a..<a + n]" "Bank u = None" "Incoming u = [[]]" "\<not> Unattached u"
    using read_flash_ok [of "Mcu s" ?u "long_address s" "n div 2"] long_address_index [OF assms(5)] assms
    by (auto simp: idle_dfu_def)
  show ?thesis
    using u n assms(1-3)
    by (simp add: EVENT_USB_Device_ControlRequest_def DFU_upload_def Let_def DFU_REQ_UPLOAD_def DFU_REQ_DNLOAD_def
        dfu_request_def long_address_def idle_dfu_def IS_ONEBYTE_COMMAND_def status_stage_def Endpoint_ClearStatusStage_def
        REQDIR_DEVICETOHOST_def wait_OUT_def Endpoint_IsOUTReceived_def Endpoint_ClearOUT_def Endpoint_ClearIN_def written_def)
qed

lemma programmed_read: "map (programmed a bs f) [a..<a + length bs] = bs"
  by (rule nth_equalityI) (simp_all add: programmed_def)

text \<open>
  C37. A firmware image of any even length for the application section, programmed with one DNLOAD request from
  the start of a page on and split into packets in any way that keeps words together, is in flash exactly
  afterwards: the pages it touches are blank behind it and no other byte of the flash or the EEPROM changes.  Reading the range with the display
  command and an UPLOAD request sends exactly the image, and nothing else, to the host.
\<close>

theorem dfu_program_then_read:
  assumes "idle_dfu s" "PageBuffer (Mcu s) = Map.empty" "length filler = 26"
    and "concat qs = bs @ suffix" "length suffix = 16" "list_all (\<lambda>p. p \<noteq> [] \<and> even (length p)) qs"
    and "bs \<noteq> []" "even (length bs)" "length bs < 65536 - 48" "unat (Flash64KBPage s) < 2"
    and "unat st mod SPM_PAGESIZE = 0" "e = st + of_nat (length bs) - 1"
    and "a = 65536 * unat (Flash64KBPage s) + unat st" "a + length bs \<le> BOOT_START_ADDR"
  shows "\<exists>s'. dfu_main
      [(dfu_request DFU_REQ_DNLOAD (48 + length bs), (dfu_command COMMAND_PROG_START 0x00 st e @ filler) # qs),
       (dfu_request DFU_REQ_DNLOAD 6, [dfu_command COMMAND_DISP_DATA 0x00 st e]),
       (dfu_request DFU_REQ_UPLOAD (length bs), [[]])] s = Some s' \<and>
    Mcu s' = (Mcu s)\<lparr>Flash := programmed a bs (Flash (Mcu s)), RwwEnabled := True\<rparr> \<and>
    concat (InPackets (Usb s')) = concat (InPackets (Usb s)) @ bs \<and> idle_dfu s' \<and> DFU_State s' = dfuIDLE"
proof -
  have "a + length bs \<le> FLASHEND"
    using assms(14) by (simp add: BOOT_START_ADDR_def FLASHEND_def)
  note range = this
  from dnload_flash_ok [OF assms(1-13) range] obtain t where
    t: "EVENT_USB_Device_ControlRequest (dfu_request DFU_REQ_DNLOAD (48 + length bs))
      (s\<lparr>Stalled := False, Usb := (Usb s)\<lparr>Bank := None,
        Incoming := (dfu_command COMMAND_PROG_START 0x00 st e @ filler) # qs\<rparr>\<rparr>) = Some t" "idle_dfu t"
      "Mcu t = (Mcu s)\<lparr>Flash := programmed a bs (Flash (Mcu s)), RwwEnabled := True\<rparr>"
      "concat (InPackets (Usb t)) = concat (InPackets (Usb s))" "Flash64KBPage t = Flash64KBPage s"
    by blast
  from display_flash_ok [OF t(2), of st e] obtain v where
    v: "EVENT_USB_Device_ControlRequest (dfu_request DFU_REQ_DNLOAD 6) (t\<lparr>Stalled := False,
      Usb := (Usb t)\<lparr>Bank := None, Incoming := [dfu_command COMMAND_DISP_DATA 0x00 st e]\<rparr>\<rparr>) = Some v"
      "idle_dfu v" "Mcu v = Mcu t" "concat (InPackets (Usb v)) = concat (InPackets (Usb t))"
      "Flash64KBPage v = Flash64KBPage t" "StartAddr v = st" "EndAddr v = e" "DFU_State v = dfuUPLOAD_IDLE" "one_byte v 0x00"
    by blast
  from upload_flash_ok [OF v(2,8,9), of "length bs" a] v t assms(8-13) range obtain w where
    w: "EVENT_USB_Device_ControlRequest (dfu_request DFU_REQ_UPLOAD (length bs)) (v\<lparr>Stalled := False,
      Usb := (Usb v)\<lparr>Bank := None, Incoming := [[]]\<rparr>\<rparr>) = Some w" "idle_dfu w" "Mcu w = Mcu v" "DFU_State w = dfuIDLE"
      "concat (InPackets (Usb w)) = concat (InPackets (Usb v)) @ map (Flash (Mcu v)) [a..<a + length bs]"
    by auto
  have run: "RunBootloader s" "RunBootloader t" "RunBootloader v"
    using assms(1) t(2) v(2) by (simp_all add: idle_dfu_def)
  show ?thesis
    using run t(1) v(1) w t(3,4) v(3,4) by (simp add: programmed_read)
qed

definition sample_mcu :: mcu where
  "sample_mcu = \<lparr>Flash = (\<lambda>_. 0xFF), PageBuffer = Map.empty, RwwEnabled = True, Eeprom = (\<lambda>_. 0), LockBits = 0xFF\<rparr>"

definition sample_usb :: usb where
  "sample_usb = \<lparr>Bank = None, Incoming = [], InBank = [], InPackets = [], Unattached = False\<rparr>"

lemma sample_dfu:
  "idle_dfu (dfu_init False 0 sample_mcu sample_usb)" "Mcu (dfu_init x k m u) = m" "Usb (dfu_init x k m u) = u"
  "Flash64KBPage (dfu_init x k m u) = 0" "PageBuffer sample_mcu = Map.empty" "Flash sample_mcu = (\<lambda>_. 0xFF)"
  "InPackets sample_usb = []"
  by (simp_all add: dfu_init_def sample_mcu_def sample_usb_def idle_dfu_def)

theorem dfu_program_then_read_witness:
  "\<exists>s'. dfu_main
      [(dfu_request DFU_REQ_DNLOAD (48 + 4), (dfu_command COMMAND_PROG_START 0x00 0x0200 0x0203 @ replicate 26 0) #
          [[0x0C, 0x94], [0x2A, 0x00] @ replicate 16 7]),
       (dfu_request DFU_REQ_DNLOAD 6, [dfu_command COMMAND_DISP_DATA 0x00 0x0200 0x0203]),
       (dfu_request DFU_REQ_UPLOAD 4, [[]])] (dfu_init False 0 sample_mcu sample_usb) = Some s' \<and>
    Mcu s' = sample_mcu\<lparr>Flash := programmed 0x200 [0x0C, 0x94, 0x2A, 0x00] (\<lambda>_. 0xFF), RwwEnabled := True\<rparr> \<and>
    concat (InPackets (Usb s')) = [0x0C, 0x94, 0x2A, 0x00] \<and> idle_dfu s' \<and> DFU_State s' = dfuIDLE"
proof -
  let ?s = "dfu_init False 0 sample_mcu sample_usb" and ?bs = "[0x0C, 0x94, 0x2A, 0x00] :: bytes"
  have n: "length ?bs = 4"
    by simp
  have qs: "concat [[0x0C, 0x94], [0x2A, 0x00] @ replicate 16 7] = ?bs @ replicate 16 7"
    "list_all (\<lambda>p. p \<noteq> [] \<and> even (length p)) [[0x0C, 0x94], [0x2A, 0x00] @ replicate 16 (7 :: u8)]"
    by simp_all
  have addr: "unat (0x0200 :: u16) mod SPM_PAGESIZE = 0" "0x0203 = 0x0200 + of_nat (length ?bs) - (1 :: u16)"
    "0x200 = 65536 * unat (Flash64KBPage ?s) + unat (0x0200 :: u16)" "0x200 + length ?bs \<le> BOOT_START_ADDR"
    by (simp_all add: sample_dfu SPM_PAGESIZE_def BOOT_START_ADDR_def)
  have rest: "PageBuffer (Mcu ?s) = Map.empty" "length (replicate 26 (0 :: u8)) = 26" "length (replicate 16 (7 :: u8)) = 16"
    "?bs \<noteq> []" "even (length ?bs)" "length ?bs < 65536 - 48" "unat (Flash64KBPage ?s) < 2"
    by (simp_all add: sample_dfu)
  show ?thesis
    using dfu_program_then_read [OF sample_dfu(1) rest(1,2) qs(1) rest(3) qs(2) rest(4-7) addr]
    unfolding n sample_dfu concat.simps append_Nil .
qed

end
