(* ===== verification/Intel_Hex.thy ===== *)
theory Intel_Hex
  imports Prelude
begin

text \<open>
  The Intel HEX reader of the host side of the HID bootloader,
  \<^verbatim>\<open>Bootloaders/HID/HostLoaderApp/hid_bootloader_cli.c\<close>.  A file is a character list; \<open>sscanf\<close> is
  modelled for the conversions \<^verbatim>\<open>%02x\<close> and \<^verbatim>\<open>%04x\<close> the source uses.  At the end of its input
  \<^verbatim>\<open>sscanf\<close> returns a non-zero value without storing a number, so the tests of the source let an
  uninitialised variable through: that has no result here, and neither has a store outside the image
  or a scan behind the terminating zero of the line.  A prefix \<^verbatim>\<open>0x\<close> that no digit follows does not
  match, as the C standard has it.
\<close>

unbundle bit_operations_syntax

section \<open>Characters and numbers\<close>

definition isspace :: "char \<Rightarrow> bool" where
  "isspace c = (let n = of_char c :: nat in n = 32 \<or> 9 \<le> n \<and> n \<le> 13)"

definition xdigit :: "char \<Rightarrow> nat option" where
  "xdigit c = (let n = of_char c :: nat in
     if 48 \<le> n \<and> n \<le> 57 then Some (n - 48)
     else if 65 \<le> n \<and> n \<le> 70 then Some (n - 55)
     else if 97 \<le> n \<and> n \<le> 102 then Some (n - 87) else None)"

fun hex_digits :: "string \<Rightarrow> nat list" where
  "hex_digits [] = []"
| "hex_digits (c # cs) = (case xdigit c of None \<Rightarrow> [] | Some d \<Rightarrow> d # hex_digits cs)"

definition hex_value :: "nat list \<Rightarrow> int" where
  "hex_value ds = foldl (\<lambda>v d. 16 * v + int d) 0 ds"

datatype scan = Scanned int | Mismatch | End_of_input

fun signed_part :: "string \<Rightarrow> bool \<times> string" where
  "signed_part (c # cs) =
     (if c = CHR ''-'' then (True, cs) else if c = CHR ''+'' then (False, cs) else (False, c # cs))"
| "signed_part [] = (False, [])"

fun hex_prefix :: "string \<Rightarrow> string" where
  "hex_prefix (z # x # cs) =
     (if z = CHR ''0'' \<and> (x = CHR ''x'' \<or> x = CHR ''X'') then cs else z # x # cs)"
| "hex_prefix cs = cs"

text \<open>The conversion with a maximal field width: blanks, a sign, a prefix and the digits.\<close>

definition sscanf_x :: "nat \<Rightarrow> string \<Rightarrow> scan" where
  "sscanf_x width cs =
     (let cs = dropWhile isspace cs in
      if cs = [] then End_of_input
      else let (neg, item) = signed_part (take width cs); ds = hex_digits (hex_prefix item) in
           if ds = [] then Mismatch else Scanned (if neg then - hex_value ds else hex_value ds))"

section \<open>The image\<close>

definition MAX_MEMORY_SIZE :: nat where
  "MAX_MEMORY_SIZE = 0x10000"

record ihex =
  firmware_image :: "nat \<Rightarrow> u8"
  firmware_mask :: "nat \<Rightarrow> bool"
  end_record_seen :: bool
  byte_count :: int
  extended_addr :: u32

definition store_byte :: "u32 \<Rightarrow> u8 \<Rightarrow> ihex \<Rightarrow> ihex option" where
  "store_byte a b h =
     (if unat a < MAX_MEMORY_SIZE
      then Some (h\<lparr>firmware_image := (firmware_image h)(unat a := b), firmware_mask := (firmware_mask h)(unat a := True)\<rparr>)
      else None)"

text \<open>
  What follows a test \<^verbatim>\<open>if (!sscanf(...)) return r;\<close> : the function returns \<open>r\<close> when nothing
  matches, and goes on with an uninitialised variable at the end of the input.
\<close>

definition scan_or :: "bool \<Rightarrow> ihex \<Rightarrow> nat \<Rightarrow> string \<Rightarrow> (int \<Rightarrow> (bool \<times> ihex) option) \<Rightarrow> (bool \<times> ihex) option" where
  "scan_or r h width cs k =
     (case sscanf_x width cs of Mismatch \<Rightarrow> Some (r, h) | End_of_input \<Rightarrow> None | Scanned v \<Rightarrow> k v)"

definition low8 :: "int \<Rightarrow> int" where
  "low8 v = v AND 255"

definition checksum_ok :: "int \<Rightarrow> int \<Rightarrow> bool" where
  "checksum_ok s cksum = (low8 (low8 s + low8 cksum) = 0)"

text \<open>The loop over the data bytes; \<open>Inl\<close> is its early return with an error.\<close>

function parse_data :: "string \<Rightarrow> int \<Rightarrow> int \<Rightarrow> nat \<Rightarrow> int \<Rightarrow> ihex \<Rightarrow> (ihex + int \<times> ihex) option" where
  "parse_data line addr len num s h =
     (if int num = len then Some (Inr (s, h))
      else if length line < 9 + 2 * num then None
      else case sscanf_x 2 (drop (9 + 2 * num) line) of
             Scanned i \<Rightarrow> do {
               h \<leftarrow> store_byte (word_of_int addr + extended_addr h + of_nat num) (word_of_int (low8 i)) h;
               if 256 \<le> num + 1 then Some (Inl h)
               else parse_data line addr len (num + 1) (s + low8 i) h
             }
           | _ \<Rightarrow> Some (Inl h))"
  by pat_completeness auto

termination
  by (relation "measure (\<lambda>(line, addr, len, num, s, h). 256 - num)") auto

declare parse_data.simps [simp del]

text \<open>The extended address records; the shift of a 16-bit number by 16 wraps, as gcc defines it.\<close>

definition parse_extension :: "string \<Rightarrow> int \<Rightarrow> nat \<Rightarrow> ihex \<Rightarrow> (bool \<times> ihex) option" where
  "parse_extension line s n h =
     scan_or True h 4 (drop 9 line) (\<lambda>i.
     scan_or True h 2 (drop 13 line) (\<lambda>cksum.
       let s = s + low8 (drop_bit 8 i) + low8 i in
       if \<not> checksum_ok s cksum then Some (True, h)
       else Some (True, h\<lparr>extended_addr := word_of_int (push_bit n i)\<rparr>)))"

definition parse_hex_line :: "string \<Rightarrow> ihex \<Rightarrow> (bool \<times> ihex) option" where
  "parse_hex_line line h =
     (if line = [] \<or> hd line \<noteq> CHR '':'' then Some (False, h)
      else if length line < 11 then Some (False, h)
      else scan_or False h 2 (drop 1 line) (\<lambda>len.
        if int (length line) < 11 + len * 2 then Some (False, h)
        else scan_or False h 4 (drop 3 line) (\<lambda>addr.
          scan_or False h 2 (drop 7 line) (\<lambda>code.
            if of_nat MAX_MEMORY_SIZE \<le> word_of_int addr + extended_addr h + word_of_int len then Some (False, h)
            else
              let s = low8 len + low8 (drop_bit 8 addr) + low8 addr + low8 code in
              if code \<noteq> 0
              then if code = 1 then Some (True, h\<lparr>end_record_seen := True\<rparr>)
                   else if code = 2 \<and> len = 2 then parse_extension line s 4 h
                   else if code = 4 \<and> len = 2 then parse_extension line s 16 h
                   else Some (True, h)
              else do {
                r \<leftarrow> parse_data line addr len 0 s (h\<lparr>byte_count := byte_count h + len\<rparr>);
                case r of
                  Inl h \<Rightarrow> Some (False, h)
                | Inr (s, h) \<Rightarrow> scan_or False h 2 (drop (9 + 2 * nat len) line) (\<lambda>cksum. Some (checksum_ok s cksum, h))
              }))))"





definition ihex_reset :: ihex where
  "ihex_reset = \<lparr>firmware_image = (\<lambda>_. 0xFF), firmware_mask = (\<lambda>_. False), end_record_seen = False, byte_count = 0,
     extended_addr = 0\<rparr>"



definition ihex_get_data :: "int \<Rightarrow> int \<Rightarrow> ihex \<Rightarrow> bytes" where
  "ihex_get_data addr len h =
     (if addr < 0 \<or> len < 0 \<or> int MAX_MEMORY_SIZE \<le> addr + len then replicate (nat len) 255
      else map (\<lambda>i. if firmware_mask h i then firmware_image h i else 255) [nat addr..<nat addr + nat len])"

section \<open>Records as they are written\<close>







definition put_data :: "nat \<Rightarrow> bytes \<Rightarrow> ihex \<Rightarrow> ihex" where
  "put_data a ds h = h\<lparr>
     firmware_image := (\<lambda>i. if a \<le> i \<and> i < a + length ds then ds ! (i - a) else firmware_image h i),
     firmware_mask := (\<lambda>i. a \<le> i \<and> i < a + length ds \<or> firmware_mask h i)\<rparr>"













lemma low8_mod: "low8 v = v mod 256"
proof -
  have "low8 v = take_bit 8 v"
    unfolding low8_def take_bit_eq_mask mask_eq_exp_minus_1 by simp
  then show ?thesis
    by (simp add: take_bit_eq_mod)
qed


lemma put_data_simps [simp]: "extended_addr (put_data a ds h) = extended_addr h"
  "end_record_seen (put_data a ds h) = end_record_seen h"
  by (simp_all add: put_data_def)


lemma put_data_Nil [simp]: "put_data a [] h = h"
  by (cases h) (auto simp: put_data_def fun_eq_iff)









section \<open>Reading a file\<close>












section \<open>Lines the reader does not survive\<close>

text \<open>
  A data record without a checksum, with the line end of DOS, is long enough for the length test;
  the scan of the checksum then meets the end of the line and leaves \<^verbatim>\<open>cksum\<close> unset.
\<close>

lemmas line_simps = parse_hex_line_def scan_or_def sscanf_x_def isspace_def xdigit_def hex_value_def MAX_MEMORY_SIZE_def
  word_le_nat_alt

lemma missing_checksum_read: "parse_hex_line ('':0100000055'' @ [CHR 0x0D, CHR 0x0A]) ihex_reset = None"
  by (simp add: line_simps ihex_reset_def) (simp add: parse_data.simps store_byte_def line_simps)

text \<open>
  After an extended linear address record the test of the end address wraps around 32 bits, and the
  store goes far behind the image.
\<close>

lemma extended_address_record:
  "extended_addr h = 0 \<Longrightarrow>
   parse_hex_line ('':02000004FFFFFC'' @ [CHR 0x0A]) h = Some (True, h\<lparr>extended_addr := 0xFFFF0000\<rparr>)"
  by (simp add: line_simps parse_extension_def checksum_ok_def low8_mod Let_def drop_bit_eq_div push_bit_eq_mult)

lemma extended_address_overflows:
  "extended_addr h = 0xFFFF0000 \<Longrightarrow> parse_hex_line ('':01FFFF0055AC'' @ [CHR 0x0A]) h = None"
  by (simp add: line_simps) (simp add: parse_data.simps store_byte_def line_simps)

text \<open>The block that ends with the last byte of the 64 KB is delivered blank, whatever was read.\<close>

lemma last_block_blank:
  "ihex_get_data (int MAX_MEMORY_SIZE - int n) (int n) h = replicate n 0xFF" if "n \<le> MAX_MEMORY_SIZE"
  by (simp add: ihex_get_data_def)

section \<open>Properties\<close>



end
