(* ===== verification/Spec2Isabelle.thy ===== *)
theory Spec2Isabelle
  imports Ring_Buffer Magstripe Serial_Protocol Endianness Config_Descriptors HID_Layout
    Net_Stack Boot_CDC Boot_DFU Intel_Hex
begin

text \<open>
  A verification of the mightymouse repository: an Android phone used as a mouse and keyboard, the
  Arduino sketch on the other end of its serial link, and the LUFA 120730 USB stack the repository
  carries (\<^verbatim>\<open>src/LUFA-120730\<close>), with its demos, projects and bootloaders.

  \<^bold>\<open>How the code is modelled.\<close>  C integers are words of their width, C memory is a byte list with
  checked accesses, a pointer into an array is an index, and a structure is a record.  Every definition
  can be evaluated.  A definition has the value \<^term>\<open>None\<close> where C has no defined behaviour: an
  access outside an array, a null pointer that is followed, a \<^verbatim>\<open>memcpy\<close> of overlapping ranges, an
  uninitialised variable that is used.  So \<open>f x = Some y\<close> says that the code returns \<open>y\<close> and makes
  no undefined access on the way, and \<open>f x = None\<close> that it does make one.  The definitions of a
  theory are in the order of the source, one for each function or each case of a large switch.

  \<^bold>\<open>The parts and their theories.\<close>

  \<^item> \<^verbatim>\<open>Prelude\<close>: bytes, memory, little-endian fields, circular indices, and the lemma collections
    \<^verbatim>\<open>mem_simps\<close> and the like.  It models no file.

  \<^item> \<^verbatim>\<open>Queue_Interface\<close>, \<^verbatim>\<open>Ring_Buffer\<close> (\<^verbatim>\<open>Drivers/Misc/RingBuffer.h\<close>), \<^verbatim>\<open>Bit_Buffer\<close>
    (\<^verbatim>\<open>Projects/Magstripe/Lib/CircularBitBuffer.c\<close>): the locale \<open>bounded_queue\<close> is the contract of a
    bounded queue; both buffers are interpretations of it.  C1 and C4 show that any run of operations
    the contract allows gives the results of a list.  C2 splits the ring buffer operations at their
    memory accesses and covers every interleaving of one writer and one reader.

  \<^item> \<^verbatim>\<open>Magstripe\<close> (\<^verbatim>\<open>Projects/Magstripe/Magstripe.c\<close>): sampling a card into three bit buffers and
    typing them, a client of the queue contract (C3).

  \<^item> \<^verbatim>\<open>Serial_Protocol\<close> (\<^verbatim>\<open>SerialProtocol.ino\<close>, \<^verbatim>\<open>DispatcherSingleton.java\<close>, \<^verbatim>\<open>WorkerClass.java\<close>,
    \<^verbatim>\<open>TrackPad.java\<close>): the sketch as a state machine on bytes whose library calls are a trace, the
    frames the dispatcher builds, the file task, and a pass of the track pad thread with the touch
    events that arrive during it.  C5 is the end-to-end statement for requests (a right click arrives
    as a left click and is excluded), C6 and C7 say what a pass of the thread does with the totals of
    the touch events, C8 and C9 are the limits of the link: a signed \<^verbatim>\<open>char\<close>, and the end-of-file mark.

  \<^item> \<^verbatim>\<open>Endianness\<close> (\<^verbatim>\<open>Common/Endianness.h\<close>, \<^verbatim>\<open>BitReverse\<close> of \<^verbatim>\<open>Common/Common.h\<close>): C10, C11.

  \<^item> \<^verbatim>\<open>Config_Descriptors\<close> (\<^verbatim>\<open>Drivers/USB/Core/ConfigDescriptors.c\<close> and its header): the searches over
    a configuration descriptor.  The locale \<open>descriptor_search\<close> is the common loop; C12 and C13 give the
    results on well-formed blocks, C14 and C15 what happens behind the block and on a zero length.

  \<^item> \<^verbatim>\<open>HID_Parser\<close>, \<^verbatim>\<open>HID_Layout\<close> (\<^verbatim>\<open>Drivers/USB/Class/Common/HIDParser.c\<close>, \<^verbatim>\<open>HIDParser.h\<close>,
    \<^verbatim>\<open>HIDReportData.h\<close>): the report descriptor parser with one definition per item, and the access to
    report items.  C16 is memory safety on all well-framed descriptors but two kinds, C20 shows that
    after any prefix of that sort these two and truncated items do make an undefined access, C19 is the
    round trip with the encoding macros, C17 the layout of the items, C18 and C21 their values.

  \<^item> \<^verbatim>\<open>Net_Frames\<close>, \<^verbatim>\<open>Net_Services\<close>, \<^verbatim>\<open>Net_TCP\<close>, \<^verbatim>\<open>Net_TCP_State\<close>, \<^verbatim>\<open>Net_TCP_Task\<close>,
    \<^verbatim>\<open>Net_Webserver\<close>, \<^verbatim>\<open>Net_Stack\<close> (\<^verbatim>\<open>Demos/Device/ClassDriver/RNDISEthernet\<close>): the network demo from
    the frame buffers to the web server.  The locale \<open>packed_header\<close> is the contract of a header
    structure laid over a buffer, with one interpretation per protocol; \<open>state_table\<close> is the contract the
    comments of \<^verbatim>\<open>TCP.c\<close> give for its two tables.  C22 to C25 are the checksum, ARP, ICMP and DHCP; C26
    is the connection table; C27 is the refinement of the connection state machine \<^const>\<open>tcp_step\<close>, with
    a frame condition on everything that belongs to other connections; C28 to C30 are accepting a
    connection, receiving data and sending it; C31 follows the web server from the request to the last
    byte of the page; C32 and C33 are about the main loop.

  \<^item> \<^verbatim>\<open>Boot_Hardware\<close>, \<^verbatim>\<open>Boot_CDC\<close>, \<^verbatim>\<open>Boot_DFU\<close> (\<^verbatim>\<open>Bootloaders/CDC/BootloaderCDC.c\<close>,
    \<^verbatim>\<open>Bootloaders/DFU/BootloaderDFU.c\<close>): flash, page buffer, EEPROM and endpoint packets as the data
    sheet and avr-libc describe them, and the two command interpreters on top.  C34 and C37 are the round
    trips through the flash, C35 the chip erase, C36 the range of the address command.

  \<^item> \<^verbatim>\<open>Intel_Hex\<close> (\<^verbatim>\<open>Bootloaders/HID/HostLoaderApp/hid_bootloader_cli.c\<close>): the reader of HEX files on the
    host side, from the text to the blocks that are programmed (C38).

  \<^bold>\<open>Bounds and termination.\<close>  There is no fuel in the development.  Loops over counters and arrays are
  structural recursions.  The byte loop of the HID parser, the DHCP option loop, the loop that folds
  carries, the fetch of a command byte and the loops of the HEX reader have a termination proof.  The
  descriptor searches may really run forever and are partial functions: C12 and C13 prove that they return,
  C15 that one of them does not.  Array sizes are those of the header files; where the size is a build
  option (\<^verbatim>\<open>MAX_BITS\<close>, the storage of a ring buffer) the model has the length of the array.  The
  bootloaders are modelled for the AT90USB1287 of their makefiles.

  \<^bold>\<open>Parameters.\<close>  The signedness of \<^verbatim>\<open>char\<close> of the sketch, the filter callback and the uninitialised
  stack memory of the HID parser, comparator callbacks, TCP applications, the readings of the card
  reader's pins, the packets of the USB endpoints and the packets of the RNDIS class driver are arguments
  of the definitions.

  \<^bold>\<open>What is not modelled.\<close>  Register-level code (USB controllers and their interrupts, host and device
  enumeration, the pipe and endpoint streams, boards, LEDs, TWI, SPI, USART), the class drivers around it
  and the demos and projects that are only glue between a class driver and pins: their behaviour is that
  of the hardware.  The Android activities and the Bluetooth connection: framework code.  FatFs and uIP of
  the Webserver project: third-party code.  The AVRISP-MKII programmer: bit timing.  The bootloaders'
  hardware set-up and LED interrupts.  That the code of a bootloader itself lies in the boot section is not
  modelled either; C34 and C37 are stated for pages below it.
\<close>

end
